(* ===== verification/Prelude.thy ===== *)
theory Prelude
  imports Main "HOL-Library.Word"
begin

text \<open>
  Shared vocabulary of the development: the machine integers of the i686 target, the outcome
  of a kernel routine (a value, or the reason the machine stops), the kernel's result codes and
  arithmetic macros (\<^verbatim>\<open>kernel/include/kernel/kernel.h\<close>), and the two shapes of C loop the
  sources use (a counted loop, and a counted loop with an early exit) with the proof rules that
  every component uses to reason about them.
\<close>

unbundle bit_operations_syntax

section \<open>Machine integers\<close>

text \<open>
  The target is i686: \<open>int\<close>, \<open>long\<close>, pointers, \<open>size_t\<close> and \<open>uintptr_t\<close> are 32 bits wide.
\<close>

type_synonym u8 = "8 word"
type_synonym u16 = "16 word"
type_synonym u32 = "32 word"
type_synonym u64 = "64 word"

type_synonym uintptr_t = u32
type_synonym size_t = u32

section \<open>Outcomes\<close>

text \<open>
  A routine that returns gives \<open>Inr\<close> of its result. \<open>Inl\<close> tells why it does not: a failed
  \<open>ASSERT\<close> and \<open>PANIC\<close> (both print and call \<open>abort()\<close>, which never returns), any other call of
  \<open>abort()\<close>, a page fault, a processor divide error, an access outside the object a pointer
  points into (undefined in C, so the model stops there), and a loop that never ends.
\<close>

datatype halt =
    Assert_failed string
  | Panic string
  | Aborted
  | Page_fault u32
  | Divide_error
  | Wild_access
  | Diverges

type_synonym 'a res = "halt + 'a"

definition bindr :: "'a res \<Rightarrow> ('a \<Rightarrow> 'b res) \<Rightarrow> 'b res" where
  "bindr r f = (case r of Inl e \<Rightarrow> Inl e | Inr x \<Rightarrow> f x)"

definition ASSERT :: "bool \<Rightarrow> string \<Rightarrow> unit res" where
  "ASSERT x what = (if x then Inr () else Inl (Assert_failed what))"

definition PANIC :: "string \<Rightarrow> 'a res" where
  "PANIC reason = Inl (Panic reason)"

text \<open>A loop that may not end is a partial function into \<open>option\<close>; not ending is an outcome.\<close>

definition or_diverge :: "'a res option \<Rightarrow> 'a res" where
  "or_diverge x = (case x of None \<Rightarrow> Inl Diverges | Some r \<Rightarrow> r)"

text \<open>Unsigned division and remainder by a divisor that is not a constant trap on zero.\<close>

definition udiv :: "u32 \<Rightarrow> u32 \<Rightarrow> u32 res" where
  "udiv a b = (if b = 0 then Inl Divide_error else Inr (a div b))"

definition umod :: "u32 \<Rightarrow> u32 \<Rightarrow> u32 res" where
  "umod a b = (if b = 0 then Inl Divide_error else Inr (a mod b))"

section \<open>Kernel result codes and macros\<close>

type_synonym k_return_t = "32 word"

definition K_SUCCESS :: k_return_t where "K_SUCCESS = 0"
definition K_UNIMPL :: k_return_t where "K_UNIMPL = 1"
definition K_OOM :: k_return_t where "K_OOM = 2"
definition K_IO :: k_return_t where "K_IO = 3"
definition K_NOSPACE :: k_return_t where "K_NOSPACE = 4"
definition K_NOTSUP :: k_return_t where "K_NOTSUP = 5"
definition K_INVALOP :: k_return_t where "K_INVALOP = 6"

definition K_FAILED :: "k_return_t \<Rightarrow> bool" where
  "K_FAILED code \<longleftrightarrow> code \<noteq> K_SUCCESS"

definition DIV_ROUND_UP :: "u32 \<Rightarrow> u32 \<Rightarrow> u32" where
  "DIV_ROUND_UP a b = (a - 1) div b + 1"

text \<open>\<^verbatim>\<open>1 << k\<close>, for a shift count below 32\<close>

definition bit_at :: "u32 \<Rightarrow> u32" where
  "bit_at k = push_bit (unat k) 1"

text \<open>\<^verbatim>\<open>__max_impl_<type>\<close>, at every width; \<^verbatim>\<open>MAX\<close> selects one by the type of its first argument.\<close>

definition max_impl_signed :: "'a::len word \<Rightarrow> 'a word \<Rightarrow> 'a word" where
  "max_impl_signed a b = (if b <s a then a else b)"

definition max_impl_unsigned :: "'a::len word \<Rightarrow> 'a word \<Rightarrow> 'a word" where
  "max_impl_unsigned a b = (if a > b then a else b)"

definition MAX_uint :: "u32 \<Rightarrow> u32 \<Rightarrow> u32" where
  "MAX_uint a b = max_impl_unsigned a b"

lemma max_impl_is_max:
  "sint (max_impl_signed a b) = max (sint a) (sint b)" "max_impl_unsigned a b = max a b"
  by (auto simp: max_impl_signed_def max_impl_unsigned_def max_def word_sless_alt)

definition KVIRT_RESERVED :: u32 where "KVIRT_RESERVED = 0x17c000"
definition KVIRT_MAX :: u32 where "KVIRT_MAX = 0x3FFFFFFF"

section \<open>Loops\<close>

text \<open>\<^verbatim>\<open>for (i = lo; i < hi; i++) body\<close>\<close>

function for_loop :: "u32 \<Rightarrow> u32 \<Rightarrow> (u32 \<Rightarrow> 's \<Rightarrow> 's res) \<Rightarrow> 's \<Rightarrow> 's res" where
  "for_loop i hi body s =
     (if i < hi then bindr (body i s) (\<lambda>s'. for_loop (i + 1) hi body s') else Inr s)"
  by pat_completeness auto
termination
proof (relation "measure (\<lambda>(i, hi, _, _). unat (hi - i))", goal_cases)
  case (2 i hi body s s')
  then show ?case
    by simp unat_arith
qed simp

text \<open>
  The same loop with a body that may leave the enclosing function: \<open>Next\<close> goes on with the
  local variables, \<open>Ret\<close> is the early exit.
\<close>

datatype ('s, 'r) ctl = Next 's | Ret 'r

function for_ret ::
  "u32 \<Rightarrow> u32 \<Rightarrow> (u32 \<Rightarrow> 's \<Rightarrow> ('s, 'r) ctl res) \<Rightarrow> 's \<Rightarrow> ('s, 'r) ctl res" where
  "for_ret i hi body s =
     (if i < hi
      then bindr (body i s)
             (\<lambda>c. case c of Next s' \<Rightarrow> for_ret (i + 1) hi body s' | Ret r \<Rightarrow> Inr (Ret r))
      else Inr (Next s))"
  by pat_completeness auto
termination
proof (relation "measure (\<lambda>(i, hi, _, _). unat (hi - i))", goal_cases)
  case (2 i hi body s s')
  then show ?case
    by simp unat_arith
qed simp

declare for_loop.simps [simp del] for_ret.simps [simp del]

section \<open>Proof rules\<close>

named_theorems res_simps \<open>rewriting of outcomes\<close>

lemma bindr_simps [simp, res_simps]:
  "bindr (Inl e) f = Inl e"
  "bindr (Inr x) f = f x"
  by (simp_all add: bindr_def)

lemma bindr_Inr_iff: "bindr r f = Inr y \<longleftrightarrow> (\<exists>x. r = Inr x \<and> f x = Inr y)"
  by (cases r) (simp_all add: bindr_def)

lemma bindr_Inl_iff: "bindr r f = Inl e \<longleftrightarrow> r = Inl e \<or> (\<exists>x. r = Inr x \<and> f x = Inl e)"
  by (cases r) (simp_all add: bindr_def)

lemma bindr_cong [fundef_cong]:
  "r = r' \<Longrightarrow> (\<And>x. r' = Inr x \<Longrightarrow> f x = f' x) \<Longrightarrow> bindr r f = bindr r' f'"
  by (cases r') (simp_all add: bindr_def)

lemma ASSERT_simps [simp, res_simps]:
  "ASSERT True w = Inr ()"
  "ASSERT False w = Inl (Assert_failed w)"
  by (simp_all add: ASSERT_def)

lemma ASSERT_Inr_iff [simp]: "ASSERT x w = Inr u \<longleftrightarrow> x"
  by (simp add: ASSERT_def)

lemma or_diverge_simps [simp, res_simps]:
  "or_diverge (Some r) = r"
  "or_diverge None = Inl Diverges"
  by (simp_all add: or_diverge_def)

lemma udiv_nonzero [simp]: "b \<noteq> 0 \<Longrightarrow> udiv a b = Inr (a div b)"
  by (simp add: udiv_def)

lemma udiv_zero [simp]: "udiv a 0 = Inl Divide_error"
  by (simp add: udiv_def)

lemma umod_nonzero [simp]: "b \<noteq> 0 \<Longrightarrow> umod a b = Inr (a mod b)"
  by (simp add: umod_def)

lemma umod_zero [simp]: "umod a 0 = Inl Divide_error"
  by (simp add: umod_def)

lemma K_FAILED_simps [simp]:
  "\<not> K_FAILED K_SUCCESS"
  "K_FAILED K_OOM"
  "K_FAILED K_INVALOP"
  by (simp_all add: K_FAILED_def K_SUCCESS_def K_OOM_def K_INVALOP_def)

lemma K_codes_distinct [simp]:
  "K_SUCCESS \<noteq> K_OOM" "K_OOM \<noteq> K_SUCCESS"
  "K_SUCCESS \<noteq> K_INVALOP" "K_INVALOP \<noteq> K_SUCCESS"
  by (simp_all add: K_SUCCESS_def K_OOM_def K_INVALOP_def)

subsection \<open>Words\<close>

lemma unat_u32_less: "unat (x :: u32) < 4294967296"
  using unsigned_less [of x] by simp

lemma unat_suc_less:
  fixes i hi :: u32
  assumes "i < hi"
  shows "unat (i + 1) = Suc (unat i)"
  using assms by unat_arith

lemma suc_le_of_less:
  fixes i hi :: u32
  assumes "i < hi"
  shows "i + 1 \<le> hi"
  using assms by unat_arith

lemma unat_add_no_wrap:
  fixes a b :: u32
  assumes "unat a + unat b < 4294967296"
  shows "unat (a + b) = unat a + unat b"
  using assms by (simp add: unat_word_ariths)

lemma unat_mult_no_wrap:
  fixes a b :: u32
  assumes "unat a * unat b < 4294967296"
  shows "unat (a * b) = unat a * unat b"
  using assms by (simp add: unat_word_ariths)

lemma unat_of_nat_u32: "n < 4294967296 \<Longrightarrow> unat (of_nat n :: u32) = n"
  by (simp add: unat_of_nat)

lemma bit_bit_at: "bit (bit_at k) j \<longleftrightarrow> j = unat k \<and> j < 32"
  by (auto simp: bit_at_def bit_push_bit_iff bit_1_iff simp del: push_bit_of_1 push_bit_eq_mult)

lemma and_bit_at_eq_0: "v AND bit_at k = 0 \<longleftrightarrow> \<not> bit v (unat k)"
proof -
  have "v AND bit_at k = 0 \<longleftrightarrow> (\<forall>j. \<not> bit (v AND bit_at k) j)"
    using bit_eq_iff [of "v AND bit_at k" 0] by auto
  also have "\<dots> \<longleftrightarrow> \<not> bit v (unat k)"
    by (auto simp: bit_and_iff bit_bit_at dest: bit_imp_le_length)
  finally show ?thesis .
qed

text \<open>Clearing the low twelve bits rounds down to a page boundary.\<close>

lemma unat_page_mask: "unat (x AND 0xFFFFF000 :: u32) = unat x div 4096 * 4096"
proof -
  have "(0xFFFFF000 :: u32) = NOT (mask 12)"
    by (simp add: mask_eq_exp_minus_1)
  moreover have "x AND NOT (mask 12) = push_bit 12 (drop_bit 12 x)"
    by (rule bit_word_eqI) (auto simp: bit_simps)
  moreover have "push_bit 12 (drop_bit 12 x) = drop_bit 12 x * 4096"
    by (simp add: push_bit_eq_mult)
  moreover have "unat (drop_bit 12 x) = unat x div 4096"
    by (simp add: drop_bit_eq_div unat_div)
  ultimately show ?thesis
    using unat_u32_less [of x] unat_mult_no_wrap [of "drop_bit 12 x" 4096] by simp
qed

lemma unat_DIV_ROUND_UP:
  assumes "0 < a" and "0 < b"
  shows "unat (DIV_ROUND_UP a b) = (unat a - 1) div unat b + 1"
proof -
  have a: "unat (a - 1) = unat a - 1"
    using assms(1) by (simp add: unat_minus_one word_gt_0)
  have "(unat a - 1) div unat b \<le> unat a - 1"
    by simp
  moreover have "0 < unat a"
    using assms(1) by (simp add: word_gt_0_no unat_gt_0 word_gt_0)
  ultimately have "(unat a - 1) div unat b + 1 < 4294967296"
    using unat_u32_less [of a] by linarith
  then show ?thesis
    by (simp add: DIV_ROUND_UP_def unat_word_ariths a unat_div)
qed

text \<open>\<open>DIV_ROUND_UP\<close> is the ceiling of the quotient, for a positive dividend.\<close>

lemma DIV_ROUND_UP_ceiling:
  assumes "0 < a" and "0 < b"
  shows "unat a \<le> unat (DIV_ROUND_UP a b) * unat b"
    and "unat (DIV_ROUND_UP a b) * unat b < unat a + unat b"
proof -
  let ?n = "unat a - 1" and ?b = "unat b"
  have pos: "0 < unat a" "0 < ?b"
    using assms by (simp_all add: word_gt_0 unat_gt_0)
  have split: "?n = ?n div ?b * ?b + ?n mod ?b"
    by simp
  have m: "?n mod ?b < ?b"
    using pos by simp
  have q: "unat (DIV_ROUND_UP a b) * ?b = ?n div ?b * ?b + ?b"
    using unat_DIV_ROUND_UP [OF assms] by simp
  show "unat a \<le> unat (DIV_ROUND_UP a b) * unat b"
    using split m q pos by linarith
  show "unat (DIV_ROUND_UP a b) * unat b < unat a + unat b"
    using split m q pos by linarith
qed

subsection \<open>Rounding up\<close>

definition round_up :: "nat \<Rightarrow> nat \<Rightarrow> nat" where
  "round_up m c = (if c mod m = 0 then c else c div m * m + m)"

lemma round_up_dvd: "m dvd round_up m c"
  by (auto simp: round_up_def)

lemma round_up_bounds:
  assumes "0 < m"
  shows "c \<le> round_up m c" and "round_up m c < c + m"
proof -
  have "c = c div m * m + c mod m" and "c mod m < m"
    using assms by simp_all
  then show "c \<le> round_up m c" and "round_up m c < c + m"
    using assms by (simp_all only: round_up_def split: if_splits) linarith+
qed

subsection \<open>Loop rules\<close>

lemma for_loop_stop [simp]: "\<not> i < hi \<Longrightarrow> for_loop i hi body s = Inr s"
  by (subst for_loop.simps) simp

lemma for_loop_step:
  "i < hi \<Longrightarrow> for_loop i hi body s = bindr (body i s) (\<lambda>s'. for_loop (i + 1) hi body s')"
  by (subst for_loop.simps) simp

lemma for_ret_stop [simp]: "\<not> i < hi \<Longrightarrow> for_ret i hi body s = Inr (Next s)"
  by (subst for_ret.simps) simp

lemma for_ret_step:
  "i < hi \<Longrightarrow> for_ret i hi body s =
     bindr (body i s)
       (\<lambda>c. case c of Next s' \<Rightarrow> for_ret (i + 1) hi body s' | Ret r \<Rightarrow> Inr (Ret r))"
  by (subst for_ret.simps) simp

text \<open>
  Total correctness of a counted loop: an invariant over the counter that holds at the start
  and that every iteration keeps, without failing, holds at the end.
\<close>

lemma for_loop_rule:
  assumes "lo \<le> hi" and "I lo s"
    and "\<And>i s. lo \<le> i \<Longrightarrow> i < hi \<Longrightarrow> I i s \<Longrightarrow> \<exists>s'. body i s = Inr s' \<and> I (i + 1) s'"
  shows "\<exists>s'. for_loop lo hi body s = Inr s' \<and> I hi s'"
  using assms
proof (induction lo hi body s rule: for_loop.induct)
  case (1 i hi body s)
  show ?case
  proof (cases "i < hi")
    case True
    obtain s1 where b: "body i s = Inr s1" and I1: "I (i + 1) s1"
      using "1.prems"(3) [OF order_refl True "1.prems"(2)] by blast
    have le: "i + 1 \<le> hi"
      using True by (rule suc_le_of_less)
    have "\<exists>s'. for_loop (i + 1) hi body s1 = Inr s' \<and> I hi s'"
    proof (rule "1.IH" [OF True le I1])
      fix j t
      assume "i + 1 \<le> j" "j < hi" "I j t"
      moreover have "i \<le> j"
        using True \<open>i + 1 \<le> j\<close> by unat_arith
      ultimately show "\<exists>s'. body j t = Inr s' \<and> I (j + 1) s'"
        using "1.prems"(3) by blast
    qed
    then show ?thesis
      using True b by (simp add: for_loop_step)
  next
    case False
    then have "i = hi"
      using "1.prems"(1) by simp
    then show ?thesis
      using "1.prems"(2) False by simp
  qed
qed

text \<open>
  Total correctness of a loop with an early exit: either every iteration falls through and the
  invariant holds at the bound, or some iteration leaves with a result that satisfies \<open>Q\<close>.
\<close>

lemma for_ret_rule:
  assumes "lo \<le> hi" and "I lo s"
    and "\<And>i s. lo \<le> i \<Longrightarrow> i < hi \<Longrightarrow> I i s \<Longrightarrow>
           (\<exists>s'. body i s = Inr (Next s') \<and> I (i + 1) s') \<or> (\<exists>r. body i s = Inr (Ret r) \<and> Q r)"
  shows "(\<exists>s'. for_ret lo hi body s = Inr (Next s') \<and> I hi s') \<or>
         (\<exists>r. for_ret lo hi body s = Inr (Ret r) \<and> Q r)"
  using assms
proof (induction lo hi body s rule: for_ret.induct)
  case (1 i hi body s)
  show ?case
  proof (cases "i < hi")
    case True
    have le: "i + 1 \<le> hi"
      using True by (rule suc_le_of_less)
    have body: "\<And>j t. i + 1 \<le> j \<Longrightarrow> j < hi \<Longrightarrow> I j t \<Longrightarrow>
      (\<exists>s'. body j t = Inr (Next s') \<and> I (j + 1) s') \<or> (\<exists>r. body j t = Inr (Ret r) \<and> Q r)"
    proof -
      fix j t
      assume "i + 1 \<le> j" "j < hi" "I j t"
      moreover have "i \<le> j"
        using True \<open>i + 1 \<le> j\<close> by unat_arith
      ultimately show "(\<exists>s'. body j t = Inr (Next s') \<and> I (j + 1) s') \<or>
          (\<exists>r. body j t = Inr (Ret r) \<and> Q r)"
        using "1.prems"(3) by blast
    qed
    consider (go) s1 where "body i s = Inr (Next s1)" "I (i + 1) s1"
      | (out) r where "body i s = Inr (Ret r)" "Q r"
      using "1.prems"(3) [OF order_refl True "1.prems"(2)] by blast
    then show ?thesis
    proof cases
      case go
      then show ?thesis
        using "1.IH" [OF True le go(2) body] True by (simp add: for_ret_step)
    next
      case out
      then show ?thesis
        using True by (simp add: for_ret_step)
    qed
  next
    case False
    then have "i = hi"
      using "1.prems"(1) by simp
    then show ?thesis
      using "1.prems"(2) False by simp
  qed
qed

subsection \<open>Nested loops\<close>

text \<open>Loops over the same range with bodies that agree there are the same loop.\<close>

lemma for_loop_cong:
  assumes "\<And>i s. lo \<le> i \<Longrightarrow> i < hi \<Longrightarrow> body i s = body' i s"
  shows "for_loop lo hi body s = for_loop lo hi body' s"
  using assms
proof (induction lo hi body s rule: for_loop.induct)
  case (1 i hi body s)
  show ?case
  proof (cases "i < hi")
    case True
    have "i \<le> j" if "i + 1 \<le> j" for j
      using that unat_suc_less [OF True] by (simp add: word_le_nat_alt)
    then have "for_loop (i + 1) hi body t = for_loop (i + 1) hi body' t" if "body i s = Inr t" for t
      using "1.IH" [OF True] "1.prems" that by blast
    then show ?thesis
      using "1.prems" [OF order_refl True] True by (cases "body i s") (simp_all add: for_loop_step)
  qed simp
qed

text \<open>A loop over a range is the loop over its first part followed by the loop over the rest.\<close>

lemma for_loop_append:
  assumes "lo \<le> mid" and "mid \<le> hi"
  shows "for_loop lo hi body s = bindr (for_loop lo mid body s) (for_loop mid hi body)"
  using assms
proof (induction lo mid body s rule: for_loop.induct)
  case (1 i mid body s)
  show ?case
  proof (cases "i < mid")
    case True
    then have "i < hi"
      using "1.prems"(2) by (rule less_le_trans)
    then show ?thesis
      using True "1.IH" [OF True suc_le_of_less [OF True] "1.prems"(2)]
      by (cases "body i s") (simp_all add: for_loop_step)
  next
    case False
    then show ?thesis
      using "1.prems"(1) by simp
  qed
qed

lemma for_loop_shift:
  fixes c :: u32
  assumes "lo \<le> hi" and "unat c + unat hi < 4294967296"
  shows "for_loop lo hi (\<lambda>i. body (c + i)) s = for_loop (c + lo) (c + hi) body s"
  using assms
proof (induction lo hi "\<lambda>i. body (c + i)" s rule: for_loop.induct)
  case (1 i hi s)
  have less: "c + i < c + hi \<longleftrightarrow> i < hi"
    using 1(2,3) unat_add_no_wrap [of c i] unat_add_no_wrap [of c hi] by (simp add: word_less_nat_alt word_le_nat_alt)
  show ?case
  proof (cases "i < hi")
    case True
    then show ?thesis
      using 1(1) [OF True suc_le_of_less [OF True] 1(3)] less by (cases "body (c + i) s") (simp_all add: for_loop_step add.assoc)
  qed (use less in simp)
qed

text \<open>
  Two nested loops over rows of \<open>w\<close> elements, with a body that depends on the position only
  through \<^verbatim>\<open>y * w + x\<close>, are one loop over all elements.
\<close>

lemma raster_loop_from:
  assumes "y \<le> h" and "unat h * unat w < 4294967296"
  shows "for_loop y h (\<lambda>y. for_loop 0 w (\<lambda>x. body (y * w + x))) s = for_loop (y * w) (h * w) body s"
  using assms
proof (induction y h "\<lambda>y. for_loop 0 w (\<lambda>x. body (y * w + x))" s rule: for_loop.induct)
  case (1 y h s)
  show ?case
  proof (cases "y < h")
    case True
    have hw: "unat (h * w) = unat h * unat w"
      using 1(3) by (rule unat_mult_no_wrap)
    have le: "(unat y + 1) * unat w \<le> unat h * unat w"
      using True by (intro mult_le_mono1) (simp add: word_less_nat_alt)
    then have yw: "unat (y * w) = unat y * unat w" "unat (y * w + w) = (unat y + 1) * unat w"
      using 1(3) unat_mult_no_wrap [of y w] unat_add_no_wrap [of "y * w" w] by (simp_all add: algebra_simps)
    then have o: "y * w \<le> y * w + w" "y * w + w \<le> h * w"
      using hw le by (simp_all add: word_le_nat_alt)
    have "for_loop 0 w (\<lambda>x. body (y * w + x)) s = for_loop (y * w) (y * w + w) body s"
      using for_loop_shift [of 0 w "y * w" body s] yw le 1(3) by (simp add: algebra_simps)
    moreover have "for_loop (y + 1) h (\<lambda>y. for_loop 0 w (\<lambda>x. body (y * w + x))) t = for_loop (y * w + w) (h * w) body t" for t
      using 1(1) [OF True suc_le_of_less [OF True] 1(3)] by (simp add: algebra_simps)
    ultimately show ?thesis
      using for_loop_append [OF o, of body s] True
      by (cases "for_loop (y * w) (y * w + w) body s") (simp_all add: for_loop_step)
  next
    case False
    then show ?thesis
      using 1(2) by simp
  qed
qed

lemma raster_loop:
  assumes "unat h * unat w < 4294967296"
  shows "for_loop 0 h (\<lambda>y. for_loop 0 w (\<lambda>x. body (y * w + x))) s = for_loop 0 (h * w) body s"
  using raster_loop_from [of 0 h w body s] assms by simp

end
