(* ===== verification/Machine.thy ===== *)
theory Machine
  imports Prelude
begin

text \<open>
  The part of the i386 that the paging code drives: physical memory, the paging registers and
  the translation lookaside buffer, with the routines of \<^verbatim>\<open>kernel/arch/i386/pagingstub.asm\<close> that
  change them, and the accesses C code makes through a pointer once paging is on.

  Translation is the two-level walk of the 32-bit paging mode with 4 KiB pages (the kernel never
  sets \<open>CR4.PSE\<close> or \<open>CR0.WP\<close>, so large pages do not exist and supervisor writes ignore the R/W
  bit). The lookaside buffer caches every translation it performs and forgets one only when told
  to (\<open>invlpg\<close>, or a load of \<open>CR3\<close>): the least helpful buffer the architecture allows.
\<close>

definition PAGE_SIZE :: u32 where "PAGE_SIZE = 4096"

text \<open>
  \<open>phys_mem\<close> holds the 32-bit cell at each 4-byte aligned physical address, \<open>tlb\<close> maps a page
  number to the physical base address of its frame.
\<close>

record machine =
  phys_mem :: "u32 \<Rightarrow> u32"
  cr3 :: u32
  paging_on :: bool
  tlb :: "u32 \<rightharpoonup> u32"

definition load_page_dir :: "u32 \<Rightarrow> 'a machine_scheme \<Rightarrow> 'a machine_scheme" where
  "load_page_dir pd m = m\<lparr>cr3 := pd, tlb := Map.empty\<rparr>"

definition enable_paging :: "'a machine_scheme \<Rightarrow> 'a machine_scheme" where
  "enable_paging m = m\<lparr>paging_on := True\<rparr>"

definition invlpg :: "u32 \<Rightarrow> 'a machine_scheme \<Rightarrow> 'a machine_scheme" where
  "invlpg va m = m\<lparr>tlb := (tlb m)(va div PAGE_SIZE := None)\<rparr>"

definition flush_tlb :: "'a machine_scheme \<Rightarrow> 'a machine_scheme" where
  "flush_tlb m = load_page_dir (cr3 m) m"

section \<open>Address translation\<close>

definition frame_base :: "u32 \<Rightarrow> u32" where
  "frame_base e = e AND 0xFFFFF000"

definition entry_present :: "u32 \<Rightarrow> bool" where
  "entry_present e \<longleftrightarrow> bit e 0"

text \<open>The entry of table \<open>t\<close> (a page directory or a page table) for index \<open>i\<close>.\<close>

definition entry_addr :: "u32 \<Rightarrow> u32 \<Rightarrow> u32" where
  "entry_addr t i = t + 4 * i"

text \<open>The frame that page number \<open>p\<close> translates to under directory \<open>pd\<close>, from memory alone.\<close>

definition walk :: "(u32 \<Rightarrow> u32) \<Rightarrow> u32 \<Rightarrow> u32 \<rightharpoonup> u32" where
  "walk mem pd p =
     (let pde = mem (entry_addr pd (p div 1024))
      in if entry_present pde
         then let pte = mem (entry_addr (frame_base pde) (p mod 1024))
              in if entry_present pte then Some (frame_base pte) else None
         else None)"

text \<open>Translation of a page number, through the lookaside buffer first.\<close>

definition translate :: "'a machine_scheme \<Rightarrow> u32 \<rightharpoonup> u32" where
  "translate m p =
     (case tlb m p of Some f \<Rightarrow> Some f | None \<Rightarrow> walk (phys_mem m) (frame_base (cr3 m)) p)"

text \<open>
  The physical address behind a virtual one, and the machine after the access (which has cached
  the translation).
\<close>

definition resolve :: "u32 \<Rightarrow> 'a machine_scheme \<Rightarrow> (u32 \<times> 'a machine_scheme) res" where
  "resolve va m =
     (if paging_on m
      then case translate m (va div PAGE_SIZE) of
             None \<Rightarrow> Inl (Page_fault va)
           | Some f \<Rightarrow> Inr (f + va mod PAGE_SIZE, m\<lparr>tlb := (tlb m)(va div PAGE_SIZE \<mapsto> f)\<rparr>)
      else Inr (va, m))"

definition load32 :: "u32 \<Rightarrow> 'a machine_scheme \<Rightarrow> (u32 \<times> 'a machine_scheme) res" where
  "load32 va m = bindr (resolve va m) (\<lambda>(pa, m'). Inr (phys_mem m' pa, m'))"

definition store32 :: "u32 \<Rightarrow> u32 \<Rightarrow> 'a machine_scheme \<Rightarrow> 'a machine_scheme res" where
  "store32 va v m =
     bindr (resolve va m) (\<lambda>(pa, m'). Inr (m'\<lparr>phys_mem := (phys_mem m')(pa := v)\<rparr>))"

text \<open>\<open>memset32\<close> of \<^verbatim>\<open>libsc/string/memset.c\<close>: \<open>sz\<close> cells from \<open>buf\<close> on.\<close>

definition memset32 :: "u32 \<Rightarrow> u32 \<Rightarrow> size_t \<Rightarrow> 'a machine_scheme \<Rightarrow> 'a machine_scheme res" where
  "memset32 buf value sz m = for_loop 0 sz (\<lambda>i m. store32 (buf + 4 * i) value m) m"

section \<open>Pages and entries\<close>

definition page_aligned :: "u32 \<Rightarrow> bool" where
  "page_aligned a \<longleftrightarrow> a mod PAGE_SIZE = 0"

lemma page_aligned_dvd: "page_aligned a \<longleftrightarrow> 4096 dvd unat a"
  by (simp add: page_aligned_def PAGE_SIZE_def word_unat_eq_iff unat_mod dvd_eq_mod_eq_0)

lemma page_aligned_bound: "page_aligned a \<Longrightarrow> unat a + 4096 \<le> 4294967296"
  using unat_u32_less [of a] by (auto simp: page_aligned_dvd elim!: dvdE)

lemma page_aligned_frame_base [simp]: "page_aligned (frame_base e)"
  by (simp add: page_aligned_dvd frame_base_def unat_page_mask)

lemma frame_base_aligned: "page_aligned a \<Longrightarrow> frame_base a = a"
  by (auto simp: page_aligned_dvd frame_base_def word_unat_eq_iff unat_page_mask)

lemma unat_entry_addr:
  assumes "page_aligned t" and "i < 1024"
  shows "unat (entry_addr t i) = unat t + 4 * unat i"
proof -
  have i: "unat i < 1024"
    using assms(2) by (simp add: word_less_nat_alt)
  then have "unat (4 * i) = 4 * unat i"
    using unat_mult_no_wrap [of 4 i] by simp
  then show ?thesis
    using page_aligned_bound [OF assms(1)] i unat_add_no_wrap [of t "4 * i"]
    by (simp add: entry_addr_def)
qed

lemma entry_addr_eq_iff:
  assumes "page_aligned t" and "page_aligned u" and "i < 1024" and "j < 1024"
  shows "entry_addr t i = entry_addr u j \<longleftrightarrow> t = u \<and> i = j"
proof
  assume "entry_addr t i = entry_addr u j"
  then have eq: "unat t + 4 * unat i = unat u + 4 * unat j"
    using assms by (metis unat_entry_addr)
  have ij: "unat i < 1024" "unat j < 1024"
    using assms(3,4) by (simp_all add: word_less_nat_alt)
  obtain a b where ab: "unat t = 4096 * a" "unat u = 4096 * b"
    using assms(1,2) by (auto simp: page_aligned_dvd elim!: dvdE)
  have "a = (4096 * a + 4 * unat i) div 4096" and "b = (4096 * b + 4 * unat j) div 4096"
    using ij by simp_all
  then have "a = b"
    using eq ab by simp
  then have "unat t = unat u" and "unat i = unat j"
    using eq ab by simp_all
  then show "t = u \<and> i = j"
    by (simp add: word_unat_eq_iff)
qed simp

lemma index_less_1024: "p mod 1024 < (1024 :: u32)"
  by (simp add: word_less_nat_alt unat_mod)

lemma dir_index_less:
  assumes "unat p < 1048576"
  shows "p div 1024 < (1024 :: u32)"
  using assms by (simp add: word_less_nat_alt unat_div)

lemma unat_page_number: "unat (va div PAGE_SIZE) < 1048576"
  using unat_u32_less [of va] by (simp add: unat_div PAGE_SIZE_def)

lemma page_number_eqI:
  fixes p q :: u32
  assumes "p div 1024 = q div 1024" and "p mod 1024 = q mod 1024"
  shows "p = q"
  by (metis assms div_mult_mod_eq)

text \<open>The page and the offset of an entry reached through a pointer to the start of its page.\<close>

lemma entry_page:
  assumes "page_aligned v" and "i < 1024"
  shows "(v + 4 * i) div PAGE_SIZE = v div PAGE_SIZE"
    and "(v + 4 * i) mod PAGE_SIZE = 4 * i"
proof -
  have i: "unat i < 1024"
    using assms(2) by (simp add: word_less_nat_alt)
  have u: "unat (v + 4 * i) = unat v + 4 * unat i"
    using unat_entry_addr [OF assms] by (simp add: entry_addr_def)
  have i4: "unat (4 * i) = 4 * unat i"
    using i unat_mult_no_wrap [of 4 i] by simp
  obtain a where a: "unat v = 4096 * a"
    using assms(1) by (auto simp: page_aligned_dvd elim!: dvdE)
  show "(v + 4 * i) div PAGE_SIZE = v div PAGE_SIZE"
    using i by (simp add: word_unat_eq_iff unat_div u a PAGE_SIZE_def)
  show "(v + 4 * i) mod PAGE_SIZE = 4 * i"
    using i by (simp add: word_unat_eq_iff unat_mod u a i4 PAGE_SIZE_def)
qed

section \<open>How updates of memory change the translation\<close>

text \<open>The tables a directory links: the frame of table \<open>t\<close>, and whether it is present.\<close>

definition table_present :: "(u32 \<Rightarrow> u32) \<Rightarrow> u32 \<Rightarrow> u32 \<Rightarrow> bool" where
  "table_present mem pd t \<longleftrightarrow> t < 1024 \<and> entry_present (mem (entry_addr pd t))"

definition table_at :: "(u32 \<Rightarrow> u32) \<Rightarrow> u32 \<Rightarrow> u32 \<Rightarrow> u32" where
  "table_at mem pd t = frame_base (mem (entry_addr pd t))"

text \<open>Present tables are distinct frames, and none is the directory.\<close>

definition tables_wf :: "(u32 \<Rightarrow> u32) \<Rightarrow> u32 \<Rightarrow> bool" where
  "tables_wf mem pd \<longleftrightarrow> page_aligned pd \<and>
     (\<forall>t. table_present mem pd t \<longrightarrow> table_at mem pd t \<noteq> pd) \<and>
     (\<forall>t u. table_present mem pd t \<longrightarrow> table_present mem pd u \<longrightarrow>
        table_at mem pd t = table_at mem pd u \<longrightarrow> t = u)"

lemma page_aligned_table_at [simp]: "page_aligned (table_at mem pd t)"
  by (simp add: table_at_def)

lemma walk_alt:
  assumes "unat p < 1048576"
  shows "walk mem pd p =
    (if table_present mem pd (p div 1024)
     then let e = mem (entry_addr (table_at mem pd (p div 1024)) (p mod 1024))
          in if entry_present e then Some (frame_base e) else None
     else None)"
  using dir_index_less [OF assms] by (simp add: walk_def table_present_def table_at_def Let_def)

text \<open>A write to an entry of a frame that is not the directory keeps the directory.\<close>

lemma tables_update:
  assumes "page_aligned pd" and "page_aligned f" and "f \<noteq> pd" and "i < 1024"
  shows "table_present (mem(entry_addr f i := e)) pd = table_present mem pd"
    and "t < 1024 \<Longrightarrow> table_at (mem(entry_addr f i := e)) pd t = table_at mem pd t"
proof -
  have "t < 1024 \<Longrightarrow> entry_addr pd t \<noteq> entry_addr f i" for t
    using entry_addr_eq_iff [OF assms(1,2) _ assms(4)] assms(3) by simp
  then show "table_present (mem(entry_addr f i := e)) pd = table_present mem pd"
    and "t < 1024 \<Longrightarrow> table_at (mem(entry_addr f i := e)) pd t = table_at mem pd t"
    by (auto simp: table_present_def table_at_def fun_eq_iff)
qed

lemma tables_wf_update:
  assumes "tables_wf mem pd" and "page_aligned f" and "f \<noteq> pd" and "i < 1024"
  shows "tables_wf (mem(entry_addr f i := e)) pd"
proof -
  have pd: "page_aligned pd"
    using assms(1) by (simp add: tables_wf_def)
  have lt: "table_present mem pd t \<Longrightarrow> t < 1024" for t
    by (simp add: table_present_def)
  note upd = tables_update [OF pd assms(2-4)]
  show ?thesis
    using assms(1) unfolding tables_wf_def upd(1) by (metis lt upd(2))
qed

text \<open>A write outside the paging structures changes no translation.\<close>

lemma walk_update_other:
  assumes wf: "tables_wf mem pd" and f: "page_aligned f" "f \<noteq> pd" and i: "i < 1024"
    and other: "\<And>t. table_present mem pd t \<Longrightarrow> table_at mem pd t \<noteq> f" and p: "unat p < 1048576"
  shows "walk (mem(entry_addr f i := e)) pd p = walk mem pd p"
proof -
  have pd: "page_aligned pd"
    using wf by (simp add: tables_wf_def)
  note upd = tables_update [OF pd f i]
  show ?thesis
  proof (cases "table_present mem pd (p div 1024)")
    case True
    have "entry_addr (table_at mem pd (p div 1024)) (p mod 1024) \<noteq> entry_addr f i"
      using other [OF True] entry_addr_eq_iff [OF page_aligned_table_at f(1) index_less_1024 i] by simp
    then show ?thesis
      using True dir_index_less [OF p] by (simp add: walk_alt [OF p] upd)
  next
    case False
    then show ?thesis
      by (simp add: walk_alt [OF p] upd)
  qed
qed

text \<open>A write to an entry of a present table changes the translation of that one page.\<close>

lemma walk_update_pte:
  assumes wf: "tables_wf mem pd" and t: "table_present mem pd t" and i: "i < 1024"
    and p: "unat p < 1048576"
  shows "walk (mem(entry_addr (table_at mem pd t) i := e)) pd p =
    (if p div 1024 = t \<and> p mod 1024 = i
     then if entry_present e then Some (frame_base e) else None
     else walk mem pd p)"
proof -
  have pd: "page_aligned pd" and T: "table_at mem pd t \<noteq> pd"
    using wf t by (simp_all add: tables_wf_def)
  note upd = tables_update [OF pd page_aligned_table_at T i]
  show ?thesis
  proof (cases "table_present mem pd (p div 1024)")
    case True
    have "entry_addr (table_at mem pd (p div 1024)) (p mod 1024) = entry_addr (table_at mem pd t) i \<longleftrightarrow>
        p div 1024 = t \<and> p mod 1024 = i"
      using entry_addr_eq_iff [OF page_aligned_table_at page_aligned_table_at index_less_1024 i]
        wf True t by (auto simp: tables_wf_def)
    then show ?thesis
      using True dir_index_less [OF p] by (auto simp: walk_alt [OF p] upd Let_def)
  next
    case False
    then show ?thesis
      using t by (auto simp: walk_alt [OF p] upd)
  qed
qed

text \<open>Linking a new table whose entries are all absent changes no translation.\<close>

definition table_empty :: "(u32 \<Rightarrow> u32) \<Rightarrow> u32 \<Rightarrow> bool" where
  "table_empty mem f \<longleftrightarrow> (\<forall>i < 1024. \<not> entry_present (mem (entry_addr f i)))"

lemma tables_link:
  assumes "page_aligned pd" and "t < 1024"
  shows "table_present (mem(entry_addr pd t := e)) pd u \<longleftrightarrow>
           (if u = t then entry_present e else table_present mem pd u)"
    and "u < 1024 \<Longrightarrow> table_at (mem(entry_addr pd t := e)) pd u = (if u = t then frame_base e else table_at mem pd u)"
  using entry_addr_eq_iff [OF assms(1,1) _ assms(2)] assms(2)
  by (auto simp: table_present_def table_at_def)

lemma tables_wf_link:
  assumes wf: "tables_wf mem pd" and t: "t < 1024" and "\<not> table_present mem pd t"
    and new: "frame_base e \<noteq> pd" "\<And>u. table_present mem pd u \<Longrightarrow> table_at mem pd u \<noteq> frame_base e"
  shows "tables_wf (mem(entry_addr pd t := e)) pd"
proof -
  have pd: "page_aligned pd"
    using wf by (simp add: tables_wf_def)
  have lt: "table_present mem pd u \<Longrightarrow> u < 1024" for u
    by (simp add: table_present_def)
  note link = tables_link [OF pd t]
  show ?thesis
    using wf new lt t unfolding tables_wf_def link(1) by (simp add: link(2)) metis
qed

lemma walk_link:
  assumes wf: "tables_wf mem pd" and t: "t < 1024" and absent: "\<not> table_present mem pd t"
    and new: "frame_base e \<noteq> pd" and empty: "table_empty mem (frame_base e)"
    and p: "unat p < 1048576"
  shows "walk (mem(entry_addr pd t := e)) pd p = walk mem pd p"
proof -
  have pd: "page_aligned pd"
    using wf by (simp add: tables_wf_def)
  note link = tables_link [OF pd t]
  have ne: "page_aligned f \<Longrightarrow> f \<noteq> pd \<Longrightarrow> entry_addr f (p mod 1024) \<noteq> entry_addr pd t" for f
    using entry_addr_eq_iff [OF _ pd index_less_1024 t] by simp
  show ?thesis
  proof (cases "p div 1024 = t")
    case True
    then show ?thesis
      using absent empty ne [OF page_aligned_frame_base new] t
      by (simp add: walk_alt [OF p] link table_empty_def index_less_1024 Let_def)
  next
    case False
    then show ?thesis
      using wf ne [OF page_aligned_table_at] dir_index_less [OF p]
      by (auto simp: walk_alt [OF p] link tables_wf_def Let_def)
  qed
qed

lemma frame_base_or:
  assumes "page_aligned a" and "frame_base fl = 0"
  shows "frame_base (a OR fl) = a"
  using frame_base_aligned [OF assms(1)] assms(2)
  by (simp add: frame_base_def bit.conj_disj_distrib2)

lemma entry_present_or: "entry_present (a OR b) \<longleftrightarrow> entry_present a \<or> entry_present b"
  by (simp add: entry_present_def bit_or_iff)

lemma entry_present_and: "e AND 1 = 0 \<longleftrightarrow> \<not> entry_present e"
  by (simp add: entry_present_def and_one_eq odd_iff_mod_2_eq_one bit_0)

section \<open>Accesses through a pointer\<close>

text \<open>Every cached translation agrees with the tables.\<close>

definition tlb_ok :: "(u32 \<Rightarrow> u32) \<Rightarrow> u32 \<Rightarrow> (u32 \<rightharpoonup> u32) \<Rightarrow> bool" where
  "tlb_ok mem pd tb \<longleftrightarrow> (\<forall>p f. tb p = Some f \<longrightarrow> unat p < 1048576 \<and> walk mem pd p = Some f)"

lemma tlb_ok_insert:
  "tlb_ok mem pd tb \<Longrightarrow> walk mem pd p = Some f \<Longrightarrow> unat p < 1048576 \<Longrightarrow> tlb_ok mem pd (tb(p \<mapsto> f))"
  by (auto simp: tlb_ok_def)

lemma tlb_ok_remove: "tlb_ok mem pd tb \<Longrightarrow> tlb_ok mem pd (tb(p := None))"
  by (auto simp: tlb_ok_def)

lemma tlb_ok_change:
  assumes "tlb_ok mem pd tb"
    and "\<And>q. unat q < 1048576 \<Longrightarrow> q \<noteq> p \<Longrightarrow> walk mem' pd q = walk mem pd q" and "tb p = None"
  shows "tlb_ok mem' pd tb"
  using assms unfolding tlb_ok_def by (metis option.distinct(1))

lemma tlb_ok_same:
  assumes "tlb_ok mem pd tb" and "\<And>q. unat q < 1048576 \<Longrightarrow> walk mem' pd q = walk mem pd q"
  shows "tlb_ok mem' pd tb"
  using assms unfolding tlb_ok_def by metis

lemma resolve_entry:
  assumes "paging_on m" and "frame_base (cr3 m) = pd" and "tlb_ok (phys_mem m) pd (tlb m)"
    and "walk (phys_mem m) pd (v div PAGE_SIZE) = Some f" and "page_aligned v" and "i < 1024"
  shows "resolve (v + 4 * i) m =
    Inr (entry_addr f i, m\<lparr>tlb := (tlb m)(v div PAGE_SIZE \<mapsto> f)\<rparr>)"
proof -
  have "translate m (v div PAGE_SIZE) = Some f"
    using assms(2-4) by (auto simp: translate_def tlb_ok_def split: option.splits)
  then show ?thesis
    using assms(1) by (simp add: resolve_def entry_page [OF assms(5,6)] entry_addr_def)
qed

lemma load_entry:
  assumes "paging_on m" and "frame_base (cr3 m) = pd" and "tlb_ok (phys_mem m) pd (tlb m)"
    and "walk (phys_mem m) pd (v div PAGE_SIZE) = Some f" and "page_aligned v" and "i < 1024"
  shows "load32 (v + 4 * i) m =
    Inr (phys_mem m (entry_addr f i), m\<lparr>tlb := (tlb m)(v div PAGE_SIZE \<mapsto> f)\<rparr>)"
  by (simp add: load32_def resolve_entry [OF assms])

lemma store_entry:
  assumes "paging_on m" and "frame_base (cr3 m) = pd" and "tlb_ok (phys_mem m) pd (tlb m)"
    and "walk (phys_mem m) pd (v div PAGE_SIZE) = Some f" and "page_aligned v" and "i < 1024"
  shows "store32 (v + 4 * i) x m =
    Inr (m\<lparr>phys_mem := (phys_mem m)(entry_addr f i := x), tlb := (tlb m)(v div PAGE_SIZE \<mapsto> f)\<rparr>)"
  by (simp add: store32_def resolve_entry [OF assms])

text \<open>Filling a whole frame outside the paging structures.\<close>

definition fill_frame :: "(u32 \<Rightarrow> u32) \<Rightarrow> u32 \<Rightarrow> u32 \<Rightarrow> u32 \<Rightarrow> (u32 \<Rightarrow> u32)" where
  "fill_frame mem f n x = (\<lambda>a. if \<exists>i < n. a = entry_addr f i then x else mem a)"

lemma fill_frame_0 [simp]: "fill_frame mem f 0 x = mem"
  by (simp add: fill_frame_def)

lemma fill_frame_suc:
  assumes "n < 1024"
  shows "fill_frame mem f (n + 1) x = (fill_frame mem f n x)(entry_addr f n := x)"
proof -
  have "i < n + 1 \<longleftrightarrow> i < n \<or> i = n" for i
    using unat_suc_less [OF assms] by (auto simp: word_less_nat_alt word_unat_eq_iff)
  then show ?thesis
    by (auto simp: fill_frame_def fun_eq_iff)
qed

lemma fill_frame_other:
  assumes "page_aligned f" and "page_aligned g" and "g \<noteq> f" and "i < 1024" and "n \<le> 1024"
  shows "fill_frame mem f n x (entry_addr g i) = mem (entry_addr g i)"
proof -
  have "entry_addr g i \<noteq> entry_addr f j" if "j < n" for j
    using entry_addr_eq_iff [OF assms(2,1,4)] assms(3,5) that by (meson less_le_trans)
  then show ?thesis
    by (auto simp: fill_frame_def)
qed

lemma memset_entries:
  assumes on: "paging_on m" "frame_base (cr3 m) = pd" and tlb: "tlb_ok (phys_mem m) pd (tlb m)"
    and wf: "tables_wf (phys_mem m) pd"
    and w: "walk (phys_mem m) pd (v div PAGE_SIZE) = Some f"
    and v: "page_aligned v" and f: "page_aligned f" "f \<noteq> pd"
    and other: "\<And>t. table_present (phys_mem m) pd t \<Longrightarrow> table_at (phys_mem m) pd t \<noteq> f"
  shows "\<exists>tb. memset32 v x 1024 m = Inr (m\<lparr>phys_mem := fill_frame (phys_mem m) f 1024 x, tlb := tb\<rparr>) \<and>
           tlb_ok (fill_frame (phys_mem m) f 1024 x) pd tb \<and>
           tables_wf (fill_frame (phys_mem m) f 1024 x) pd \<and>
           (\<forall>p. unat p < 1048576 \<longrightarrow> walk (fill_frame (phys_mem m) f 1024 x) pd p = walk (phys_mem m) pd p)"
proof -
  let ?F = "\<lambda>i. fill_frame (phys_mem m) f i x"
  let ?I = "\<lambda>i s. i \<le> 1024 \<and> (\<exists>tb. s = m\<lparr>phys_mem := ?F i, tlb := tb\<rparr> \<and> tlb_ok (?F i) pd tb \<and>
    tables_wf (?F i) pd \<and> (\<forall>p. unat p < 1048576 \<longrightarrow> walk (?F i) pd p = walk (phys_mem m) pd p))"
  have pd: "page_aligned pd"
    using wf by (simp add: tables_wf_def)
  have "\<exists>s. for_loop 0 1024 (\<lambda>i m. store32 (v + 4 * i) x m) m = Inr s \<and> ?I 1024 s"
  proof (rule for_loop_rule [where I = ?I])
    show "?I 0 m"
      using tlb wf by (auto intro!: exI [of _ "tlb m"])
  next
    fix i :: u32 and s
    assume i: "i < 1024" and "?I i s"
    then obtain tb where s: "s = m\<lparr>phys_mem := ?F i, tlb := tb\<rparr>" and ok: "tlb_ok (?F i) pd tb"
      "tables_wf (?F i) pd" and same: "\<And>p. unat p < 1048576 \<Longrightarrow> walk (?F i) pd p = walk (phys_mem m) pd p"
      by blast
    have le: "i + 1 \<le> 1024"
      using i by (rule suc_le_of_less)
    have wv: "walk (?F i) pd (v div PAGE_SIZE) = Some f"
      using same [OF unat_page_number] w by simp
    have suc: "?F (i + 1) = (?F i)(entry_addr f i := x)"
      using i by (rule fill_frame_suc)
    have st: "store32 (v + 4 * i) x s =
        Inr (m\<lparr>phys_mem := ?F (i + 1), tlb := tb(v div PAGE_SIZE \<mapsto> f)\<rparr>)"
      using store_entry [of s pd v f i x] on ok(1) wv v i by (simp add: s suc)
    have tp: "table_at (?F i) pd t \<noteq> f" if "table_present (?F i) pd t" for t
    proof -
      have "t < 1024" using that by (simp add: table_present_def)
      then have "?F i (entry_addr pd t) = phys_mem m (entry_addr pd t)"
        using fill_frame_other [OF f(1) pd] f(2) i by (simp add: less_imp_le)
      then show ?thesis
        using that other by (simp add: table_present_def table_at_def)
    qed
    have walks: "walk (?F (i + 1)) pd p = walk (phys_mem m) pd p" if "unat p < 1048576" for p
      using walk_update_other [OF ok(2) f i tp that] same [OF that] suc by simp
    have "tables_wf (?F (i + 1)) pd"
      using tables_wf_update [OF ok(2) f i] suc by simp
    moreover have "tlb_ok (?F (i + 1)) pd (tb(v div PAGE_SIZE \<mapsto> f))"
      using tlb_ok_same [OF ok(1)] walks same w unat_page_number [of v] by (simp add: tlb_ok_insert)
    ultimately show "\<exists>s'. store32 (v + 4 * i) x s = Inr s' \<and> ?I (i + 1) s'"
      using st le walks by (intro exI [of _ "m\<lparr>phys_mem := ?F (i + 1), tlb := tb(v div PAGE_SIZE \<mapsto> f)\<rparr>"]) blast
  qed simp
  then show ?thesis
    unfolding memset32_def by blast
qed

end
