(* ===== verification/Bitset.thy ===== *)
theory Bitset
  imports Prelude
begin

text \<open>
  The bitset of \<^verbatim>\<open>kernel/include/kernel/bitset.h\<close>, which the frame allocator, the address space
  allocator and the heap keep their bookkeeping in, and the contract its clients use:
  the locale \<open>bit_vector\<close>, interpreted on the header's functions.
\<close>

section \<open>The bitset\<close>

definition INDEX_FROM_BIT :: "u32 \<Rightarrow> u32" where
  "INDEX_FROM_BIT a = a div 32"

definition OFFSET_FROM_BIT :: "u32 \<Rightarrow> u32" where
  "OFFSET_FROM_BIT a = a mod 32"

text \<open>
  \<open>bs_length\<close> is the field \<open>length\<close>, \<open>bs_start\<close> the pointer \<open>start\<close>, and \<open>bs_cells\<close> the array
  of 32-bit words that \<open>start\<close> points to. The array belongs to the bitset alone.
\<close>

record bitset =
  bs_length :: u32
  bs_start :: uintptr_t
  bs_cells :: "u32 list"

text \<open>The \<open>memset\<close> clears \<open>DIV_ROUND_UP(length, 32) * sizeof(uint32_t)\<close> bytes at \<open>start\<close>.\<close>

definition bitset_init :: "uintptr_t \<Rightarrow> u32 \<Rightarrow> bitset" where
  "bitset_init start len =
     \<lparr>bs_length = len, bs_start = start,
      bs_cells = replicate (unat (DIV_ROUND_UP len 32 * 4) div 4) 0\<rparr>"

text \<open>
  The cell accesses \<open>start[i]\<close> and \<open>start[i] = v\<close>; outside the array they leave the object.
\<close>

definition cell_read :: "bitset \<Rightarrow> u32 \<Rightarrow> u32 res" where
  "cell_read b i =
     (if unat i < length (bs_cells b) then Inr (bs_cells b ! unat i) else Inl Wild_access)"

definition cell_write :: "bitset \<Rightarrow> u32 \<Rightarrow> u32 \<Rightarrow> bitset res" where
  "cell_write b i v =
     (if unat i < length (bs_cells b) then Inr (b\<lparr>bs_cells := (bs_cells b)[unat i := v]\<rparr>)
      else Inl Wild_access)"

definition bitset_set_bit :: "bitset \<Rightarrow> u32 \<Rightarrow> bitset res" where
  "bitset_set_bit b n =
     bindr (ASSERT (n < bs_length b) ''n < bitset->length'') (\<lambda>_.
     bindr (cell_read b (INDEX_FROM_BIT n)) (\<lambda>v.
     cell_write b (INDEX_FROM_BIT n) (v OR bit_at (OFFSET_FROM_BIT n))))"

definition bitset_get_bit :: "bitset \<Rightarrow> u32 \<Rightarrow> u32 res" where
  "bitset_get_bit b n =
     bindr (ASSERT (n < bs_length b) ''n < bitset->length'') (\<lambda>_.
     bindr (cell_read b (INDEX_FROM_BIT n)) (\<lambda>v.
     Inr (v AND bit_at (OFFSET_FROM_BIT n))))"

definition bitset_clear_bit :: "bitset \<Rightarrow> u32 \<Rightarrow> bitset res" where
  "bitset_clear_bit b n =
     bindr (ASSERT (n < bs_length b) ''n < bitset->length'') (\<lambda>_.
     bindr (cell_read b (INDEX_FROM_BIT n)) (\<lambda>v.
     cell_write b (INDEX_FROM_BIT n) (v AND NOT (bit_at (OFFSET_FROM_BIT n)))))"

section \<open>What a bitset stands for\<close>

text \<open>The array is long enough for \<open>length\<close> bits; the bits that are one, as a set of indices.\<close>

definition bitset_inv :: "bitset \<Rightarrow> bool" where
  "bitset_inv b \<longleftrightarrow> unat (bs_length b) \<le> 32 * length (bs_cells b)"

definition bits :: "bitset \<Rightarrow> nat set" where
  "bits b = set (filter (\<lambda>n. bit (bs_cells b ! (n div 32)) (n mod 32)) [0..<unat (bs_length b)])"

text \<open>What no operation on the bits changes.\<close>

definition bitset_frame :: "bitset \<Rightarrow> u32 \<times> uintptr_t \<times> nat" where
  "bitset_frame b = (bs_length b, bs_start b, length (bs_cells b))"

text \<open>The bytes of the array.\<close>

definition bitset_bytes :: "bitset \<Rightarrow> u32" where
  "bitset_bytes b = of_nat (4 * length (bs_cells b))"

section \<open>The contract\<close>

text \<open>
  \<open>inv\<close> is the representation invariant, \<open>bound\<close> the number of bits, \<open>ones\<close> the set of indices
  whose bit is one, \<open>fixed\<close> the part of the representation no operation changes. An operation on
  an index below the bound succeeds; one on an index at or above it stops the kernel.
\<close>

locale bit_vector =
  fixes inv :: "'b \<Rightarrow> bool"
    and bound :: "'b \<Rightarrow> u32"
    and ones :: "'b \<Rightarrow> nat set"
    and fixed :: "'b \<Rightarrow> 'f"
    and set_bit :: "'b \<Rightarrow> u32 \<Rightarrow> 'b res"
    and get_bit :: "'b \<Rightarrow> u32 \<Rightarrow> u32 res"
    and clear_bit :: "'b \<Rightarrow> u32 \<Rightarrow> 'b res"
  assumes ones_bound: "ones b \<subseteq> {..<unat (bound b)}"
    and fixed_bound: "fixed b = fixed b' \<Longrightarrow> bound b = bound b'"
    and set_ok: "inv b \<Longrightarrow> n < bound b \<Longrightarrow>
      \<exists>b'. set_bit b n = Inr b' \<and> inv b' \<and> fixed b' = fixed b \<and> ones b' = insert (unat n) (ones b)"
    and set_stops: "\<not> n < bound b \<Longrightarrow> \<exists>e. set_bit b n = Inl e"
    and clear_ok: "inv b \<Longrightarrow> n < bound b \<Longrightarrow>
      \<exists>b'. clear_bit b n = Inr b' \<and> inv b' \<and> fixed b' = fixed b \<and> ones b' = ones b - {unat n}"
    and clear_stops: "\<not> n < bound b \<Longrightarrow> \<exists>e. clear_bit b n = Inl e"
    and get_ok: "inv b \<Longrightarrow> n < bound b \<Longrightarrow>
      \<exists>v. get_bit b n = Inr v \<and> (v \<noteq> 0 \<longleftrightarrow> unat n \<in> ones b)"
begin

lemma finite_ones: "finite (ones b)"
  using ones_bound finite_subset by blast

text \<open>The loops that mark or release a run of indices, as every client writes them.\<close>

lemma set_range:
  assumes "inv b" and "lo \<le> hi" and "hi \<le> bound b"
  shows "\<exists>b'. for_loop lo hi (\<lambda>i b. set_bit b i) b = Inr b' \<and> inv b' \<and> fixed b' = fixed b \<and>
           ones b' = ones b \<union> {unat lo..<unat hi}"
proof -
  let ?I = "\<lambda>i c. inv c \<and> fixed c = fixed b \<and> ones c = ones b \<union> {unat lo..<unat i}"
  have "\<exists>b'. for_loop lo hi (\<lambda>i b. set_bit b i) b = Inr b' \<and> ?I hi b'"
  proof (rule for_loop_rule [where I = ?I, OF assms(2)])
    show "?I lo b"
      using assms(1) by simp
  next
    fix i c
    assume i: "lo \<le> i" "i < hi" and I: "?I i c"
    then have "i < bound c"
      using assms(3) fixed_bound [of c b] by (simp add: less_le_trans)
    then obtain c' where c': "set_bit c i = Inr c'" "inv c'" "fixed c' = fixed c"
      "ones c' = insert (unat i) (ones c)"
      using set_ok I by blast
    have "{unat lo..<unat (i + 1)} = insert (unat i) {unat lo..<unat i}"
      using i by (simp add: unat_suc_less atLeastLessThanSuc word_le_nat_alt)
    then show "\<exists>c'. set_bit c i = Inr c' \<and> ?I (i + 1) c'"
      using c' I by auto
  qed
  then show ?thesis
    by blast
qed

lemma clear_range:
  assumes "inv b" and "lo \<le> hi" and "hi \<le> bound b"
  shows "\<exists>b'. for_loop lo hi (\<lambda>i b. clear_bit b i) b = Inr b' \<and> inv b' \<and> fixed b' = fixed b \<and>
           ones b' = ones b - {unat lo..<unat hi}"
proof -
  let ?I = "\<lambda>i c. inv c \<and> fixed c = fixed b \<and> ones c = ones b - {unat lo..<unat i}"
  have "\<exists>b'. for_loop lo hi (\<lambda>i b. clear_bit b i) b = Inr b' \<and> ?I hi b'"
  proof (rule for_loop_rule [where I = ?I, OF assms(2)])
    show "?I lo b"
      using assms(1) by simp
  next
    fix i c
    assume i: "lo \<le> i" "i < hi" and I: "?I i c"
    then have "i < bound c"
      using assms(3) fixed_bound [of c b] by (simp add: less_le_trans)
    then obtain c' where c': "clear_bit c i = Inr c'" "inv c'" "fixed c' = fixed c"
      "ones c' = ones c - {unat i}"
      using clear_ok I by blast
    have "{unat lo..<unat (i + 1)} = insert (unat i) {unat lo..<unat i}"
      using i by (simp add: unat_suc_less atLeastLessThanSuc word_le_nat_alt)
    then show "\<exists>c'. clear_bit c i = Inr c' \<and> ?I (i + 1) c'"
      using c' I by auto
  qed
  then show ?thesis
    by blast
qed

end

section \<open>The bitset keeps the contract\<close>

lemma unat_INDEX_FROM_BIT [simp]: "unat (INDEX_FROM_BIT n) = unat n div 32"
  by (simp add: INDEX_FROM_BIT_def unat_div)

lemma unat_OFFSET_FROM_BIT [simp]: "unat (OFFSET_FROM_BIT n) = unat n mod 32"
  by (simp add: OFFSET_FROM_BIT_def unat_mod)

lemma in_bits: "k \<in> bits b \<longleftrightarrow> k < unat (bs_length b) \<and> bit (bs_cells b ! (k div 32)) (k mod 32)"
  by (auto simp: bits_def)

lemma bit_index_in_cells:
  assumes "bitset_inv b" and "n < bs_length b"
  shows "unat n div 32 < length (bs_cells b)"
proof -
  have "unat n < unat (bs_length b)"
    using assms(2) by (simp add: word_less_nat_alt)
  then show ?thesis
    using assms(1) by (simp add: bitset_inv_def less_mult_imp_div_less mult.commute)
qed

text \<open>Indices in the same cell at the same offset are the same index.\<close>

lemma cell_and_offset_eq: "(k::nat) div 32 = n div 32 \<Longrightarrow> k mod 32 = n mod 32 \<longleftrightarrow> k = n"
  by (metis div_mult_mod_eq)

lemma bits_update_cell:
  assumes "i < length (bs_cells b)"
  shows "k \<in> bits (b\<lparr>bs_cells := (bs_cells b)[i := v]\<rparr>) \<longleftrightarrow>
           k < unat (bs_length b) \<and> (if k div 32 = i then bit v (k mod 32) else k \<in> bits b)"
  using assms by (auto simp: in_bits nth_list_update)

lemma bitset_set_bit_ok:
  assumes "bitset_inv b" and "n < bs_length b"
  shows "\<exists>b'. bitset_set_bit b n = Inr b' \<and> bitset_inv b' \<and> bitset_frame b' = bitset_frame b \<and>
           bits b' = insert (unat n) (bits b)"
proof -
  let ?i = "unat n div 32" and ?m = "bit_at (OFFSET_FROM_BIT n)"
  let ?b' = "b\<lparr>bs_cells := (bs_cells b)[?i := bs_cells b ! ?i OR ?m]\<rparr>"
  have i: "?i < length (bs_cells b)"
    using assms by (rule bit_index_in_cells)
  have n: "unat n < unat (bs_length b)"
    using assms(2) by (simp add: word_less_nat_alt)
  have "k \<in> bits ?b' \<longleftrightarrow> k \<in> insert (unat n) (bits b)" for k
    using n i cell_and_offset_eq [of k "unat n"]
    by (cases "k div 32 = unat n div 32")
      (auto simp: bits_update_cell in_bits [of _ b] bit_or_iff bit_bit_at)
  then have "bits ?b' = insert (unat n) (bits b)"
    by blast
  moreover have "bitset_set_bit b n = Inr ?b'"
    using assms(2) i by (simp add: bitset_set_bit_def cell_read_def cell_write_def)
  ultimately show ?thesis
    using assms(1) by (auto simp: bitset_inv_def bitset_frame_def)
qed

lemma bitset_clear_bit_ok:
  assumes "bitset_inv b" and "n < bs_length b"
  shows "\<exists>b'. bitset_clear_bit b n = Inr b' \<and> bitset_inv b' \<and> bitset_frame b' = bitset_frame b \<and>
           bits b' = bits b - {unat n}"
proof -
  let ?i = "unat n div 32" and ?m = "bit_at (OFFSET_FROM_BIT n)"
  let ?b' = "b\<lparr>bs_cells := (bs_cells b)[?i := bs_cells b ! ?i AND NOT ?m]\<rparr>"
  have i: "?i < length (bs_cells b)"
    using assms by (rule bit_index_in_cells)
  have n: "unat n < unat (bs_length b)"
    using assms(2) by (simp add: word_less_nat_alt)
  have "k \<in> bits ?b' \<longleftrightarrow> k \<in> bits b - {unat n}" for k
    using n i cell_and_offset_eq [of k "unat n"]
    by (cases "k div 32 = unat n div 32")
      (auto simp: bits_update_cell in_bits [of _ b] bit_and_iff bit_not_iff bit_bit_at)
  then have "bits ?b' = bits b - {unat n}"
    by blast
  moreover have "bitset_clear_bit b n = Inr ?b'"
    using assms(2) i by (simp add: bitset_clear_bit_def cell_read_def cell_write_def)
  ultimately show ?thesis
    using assms(1) by (auto simp: bitset_inv_def bitset_frame_def)
qed

lemma bitset_get_bit_ok:
  assumes "bitset_inv b" and "n < bs_length b"
  shows "\<exists>v. bitset_get_bit b n = Inr v \<and> (v \<noteq> 0 \<longleftrightarrow> unat n \<in> bits b)"
proof -
  have i: "unat n div 32 < length (bs_cells b)"
    using assms by (rule bit_index_in_cells)
  have n: "unat n < unat (bs_length b)"
    using assms(2) by (simp add: word_less_nat_alt)
  show ?thesis
    using i n assms(2)
    by (simp add: bitset_get_bit_def cell_read_def in_bits and_bit_at_eq_0)
qed

lemma bitset_op_stops:
  assumes "\<not> n < bs_length b"
  shows "bitset_set_bit b n = Inl (Assert_failed ''n < bitset->length'')"
    and "bitset_get_bit b n = Inl (Assert_failed ''n < bitset->length'')"
    and "bitset_clear_bit b n = Inl (Assert_failed ''n < bitset->length'')"
  using assms by (simp_all add: bitset_set_bit_def bitset_get_bit_def bitset_clear_bit_def)

interpretation bs: bit_vector bitset_inv bs_length bits bitset_frame
  bitset_set_bit bitset_get_bit bitset_clear_bit
proof (unfold_locales, goal_cases)
  case (1 b)
  show ?case
    by (auto simp: bits_def)
next
  case (2 b b')
  then show ?case
    by (simp add: bitset_frame_def)
next
  case (3 b n)
  then show ?case
    by (rule bitset_set_bit_ok)
next
  case (4 n b)
  then show ?case
    by (simp add: bitset_op_stops)
next
  case (5 b n)
  then show ?case
    by (rule bitset_clear_bit_ok)
next
  case (6 n b)
  then show ?case
    by (simp add: bitset_op_stops)
next
  case (7 b n)
  then show ?case
    by (rule bitset_get_bit_ok)
qed

subsection \<open>Initialisation\<close>

text \<open>The bytes that \<open>n\<close> bits take.\<close>

lemma unat_bitset_bytes:
  assumes "0 < n"
  shows "unat (DIV_ROUND_UP n 32 * 4) = 4 * ((unat n + 31) div 32)"
proof -
  have "unat (DIV_ROUND_UP n 32) = (unat n - 1) div 32 + 1"
    using unat_DIV_ROUND_UP [OF assms, of 32] by simp
  moreover have "0 < unat n"
    using assms by (simp add: word_gt_0 unat_gt_0)
  ultimately have r: "unat (DIV_ROUND_UP n 32) = (unat n + 31) div 32"
    by (simp add: div_add_self2 [symmetric] Suc_leI)
  then show ?thesis
    using unat_u32_less [of n] unat_mult_no_wrap [of "DIV_ROUND_UP n 32" 4] by simp
qed

lemma bitset_init_ok:
  assumes "0 < n"
  shows "bitset_inv (bitset_init start n)"
    and "bits (bitset_init start n) = {}"
    and "bs_length (bitset_init start n) = n"
    and "length (bs_cells (bitset_init start n)) = (unat n + 31) div 32"
proof -
  have cells: "length (bs_cells (bitset_init start n)) = (unat n + 31) div 32"
    using unat_bitset_bytes [OF assms] by (simp add: bitset_init_def)
  then show inv: "bitset_inv (bitset_init start n)"
    by (simp add: bitset_inv_def bitset_init_def)
  show "length (bs_cells (bitset_init start n)) = (unat n + 31) div 32"
    by (rule cells)
  show "bs_length (bitset_init start n) = n"
    by (simp add: bitset_init_def)
  have "k \<notin> bits (bitset_init start n)" for k
  proof
    assume k: "k \<in> bits (bitset_init start n)"
    then have "k < unat n"
      by (simp add: in_bits bitset_init_def)
    then have "k div 32 < length (bs_cells (bitset_init start n))"
      using cells by linarith
    then show False
      using k by (simp add: in_bits bitset_init_def)
  qed
  then show "bits (bitset_init start n) = {}"
    by blast
qed

section \<open>Properties\<close>

text \<open>
  C22: Setting, clearing and reading a bit below the length return, keep the bitset well formed and
  keep its length and place, and are insertion, deletion and membership on the set of one bits.
\<close>

theorem bitset_refines_set:
  assumes "bitset_inv b" and "n < bs_length b"
  shows "(\<exists>b'. bitset_set_bit b n = Inr b' \<and> bitset_inv b' \<and> bitset_frame b' = bitset_frame b \<and>
            bits b' = insert (unat n) (bits b)) \<and>
         (\<exists>b'. bitset_clear_bit b n = Inr b' \<and> bitset_inv b' \<and> bitset_frame b' = bitset_frame b \<and>
            bits b' = bits b - {unat n}) \<and>
         (\<exists>v. bitset_get_bit b n = Inr v \<and> (v \<noteq> 0 \<longleftrightarrow> unat n \<in> bits b))"
  using bs.set_ok [OF assms] bs.clear_ok [OF assms] bs.get_ok [OF assms] by blast

theorem bitset_refines_set_witness:
  "\<exists>b'. bitset_set_bit (bitset_init 0x1000 40) 33 = Inr b' \<and> bits b' = {33}"
  using bitset_refines_set [of "bitset_init 0x1000 40" 33]
  by (auto simp: bitset_init_ok)

text \<open>
  Marking a run of clear bits and then releasing it, with the loops the allocators use, gives
  back exactly the bits there were before.
\<close>

theorem bitset_run_roundtrip:
  assumes "bitset_inv b" and "lo \<le> hi" and "hi \<le> bs_length b" and "{unat lo..<unat hi} \<inter> bits b = {}"
  shows "\<exists>b' b''. for_loop lo hi (\<lambda>i b. bitset_set_bit b i) b = Inr b' \<and>
           bits b' = bits b \<union> {unat lo..<unat hi} \<and>
           for_loop lo hi (\<lambda>i b. bitset_clear_bit b i) b' = Inr b'' \<and>
           bitset_inv b'' \<and> bitset_frame b'' = bitset_frame b \<and> bits b'' = bits b"
proof -
  obtain b' where b': "for_loop lo hi (\<lambda>i b. bitset_set_bit b i) b = Inr b'" "bitset_inv b'"
    "bitset_frame b' = bitset_frame b" "bits b' = bits b \<union> {unat lo..<unat hi}"
    using bs.set_range [OF assms(1-3)] by blast
  moreover have "hi \<le> bs_length b'"
    using assms(3) bs.fixed_bound [OF b'(3)] by simp
  ultimately show ?thesis
    using bs.clear_range [OF b'(2) assms(2)] assms(4) by fastforce
qed

theorem bitset_run_roundtrip_witness:
  "\<exists>b' b''. for_loop 3 35 (\<lambda>i b. bitset_set_bit b i) (bitset_init 0x1000 40) = Inr b' \<and>
     bits b' = {3..<35} \<and> for_loop 3 35 (\<lambda>i b. bitset_clear_bit b i) b' = Inr b'' \<and> bits b'' = {}"
  using bitset_run_roundtrip [of "bitset_init 0x1000 40" 3 35]
  by (auto simp: bitset_init_ok)

end
