(* ===== verification/Kalloc.thy ===== *)
theory Kalloc
  imports Prelude
begin

text \<open>
  The kernel's allocation interface, \<^verbatim>\<open>kernel/mm/alloc.c\<close>: a pair of function pointers that the
  early placement allocator and later the kernel heap install, and the wrappers that call
  through them.
\<close>

definition KALLOC_CRITICAL :: u32 where "KALLOC_CRITICAL = 1"
definition KALLOC_GENERAL :: u32 where "KALLOC_GENERAL = 2"
definition KALLOC_PAGE_ALIGN :: u32 where "KALLOC_PAGE_ALIGN = 4"

text \<open>
  \<open>'s\<close> is the state the installed functions act on. An allocation gets the size, whether the
  caller passed a pointer for the physical address, and the flags; it gives the address and,
  when it wrote it, the physical address. \<open>None\<close> is the NULL function pointer.
\<close>

type_synonym 's malloc_fn = "size_t \<Rightarrow> bool \<Rightarrow> u32 \<Rightarrow> 's \<Rightarrow> ((uintptr_t \<times> uintptr_t option) \<times> 's) res"
type_synonym 's free_fn = "uintptr_t \<Rightarrow> 's \<Rightarrow> 's res"

record 's kalloc_interface =
  kalloc_malloc_real_fn :: "'s malloc_fn option"
  kalloc_free_fn :: "'s free_fn option"

text \<open>The initial, zeroed interface.\<close>

definition kalloc_none :: "'s kalloc_interface" where
  "kalloc_none = \<lparr>kalloc_malloc_real_fn = None, kalloc_free_fn = None\<rparr>"

definition call_malloc :: "'s kalloc_interface \<Rightarrow> 's malloc_fn" where
  "call_malloc kd sz phys flags s =
     (case kalloc_malloc_real_fn kd of
        None \<Rightarrow> Inl (Assert_failed ''kalloc_data.kalloc_malloc_real'')
      | Some f \<Rightarrow> f sz phys flags s)"

definition kalloc_malloc_real :: "'s kalloc_interface \<Rightarrow> 's malloc_fn" where
  "kalloc_malloc_real kd sz phys flags s = call_malloc kd sz phys flags s"

definition kmalloc_a :: "'s kalloc_interface \<Rightarrow> uintptr_t \<Rightarrow> u32 \<Rightarrow> 's \<Rightarrow> (uintptr_t \<times> 's) res" where
  "kmalloc_a kd sz flags s =
     bindr (call_malloc kd sz False (flags OR KALLOC_PAGE_ALIGN) s) (\<lambda>((a, _), s'). Inr (a, s'))"

definition kmalloc_p :: "'s kalloc_interface \<Rightarrow> 's malloc_fn" where
  "kmalloc_p kd sz phys flags s = call_malloc kd sz phys flags s"

definition kmalloc_ap :: "'s kalloc_interface \<Rightarrow> 's malloc_fn" where
  "kmalloc_ap kd sz phys flags s = call_malloc kd sz phys (flags OR KALLOC_PAGE_ALIGN) s"

definition kmalloc :: "'s kalloc_interface \<Rightarrow> size_t \<Rightarrow> u32 \<Rightarrow> 's \<Rightarrow> (uintptr_t \<times> 's) res" where
  "kmalloc kd sz flags s =
     bindr (call_malloc kd sz False flags s) (\<lambda>((a, _), s'). Inr (a, s'))"

definition kfree :: "'s kalloc_interface \<Rightarrow> uintptr_t \<Rightarrow> 's \<Rightarrow> 's res" where
  "kfree kd addr s =
     (case kalloc_free_fn kd of
        None \<Rightarrow> Inl (Assert_failed ''kalloc_data.kalloc_free'')
      | Some f \<Rightarrow> f addr s)"

section \<open>The contract of an allocator\<close>

text \<open>The bytes of an allocation.\<close>

definition region :: "uintptr_t \<Rightarrow> size_t \<Rightarrow> nat set" where
  "region a sz = {unat a..<unat a + unat sz}"

text \<open>
  A sequence of requests (size and flags) to an installed allocator; the result lists the
  allocations that succeeded. An address of 0 means that the request was refused.
\<close>

fun malloc_all ::
  "'s malloc_fn \<Rightarrow> (size_t \<times> u32) list \<Rightarrow> 's \<Rightarrow> ((uintptr_t \<times> size_t) list \<times> 's) res" where
  "malloc_all f [] s = Inr ([], s)"
| "malloc_all f ((sz, flags) # reqs) s =
     bindr (f sz False flags s) (\<lambda>((a, _), s1).
     bindr (malloc_all f reqs s1) (\<lambda>(rs, s2).
       Inr (if a = 0 then rs else (a, sz) # rs, s2)))"

definition disjoint_regions :: "(uintptr_t \<times> size_t) list \<Rightarrow> bool" where
  "disjoint_regions rs \<longleftrightarrow> sorted_wrt (\<lambda>(a, n) (b, m). region a n \<inter> region b m = {}) rs"

text \<open>
  What a client of \<open>kmalloc\<close> relies on: \<open>ok\<close> is the allocator's invariant, \<open>request\<close> the sizes it
  is meant for, \<open>owned\<close> the bytes already handed out.
\<close>

locale kalloc_provider =
  fixes malloc :: "'s malloc_fn"
    and ok :: "'s \<Rightarrow> bool"
    and request :: "size_t \<Rightarrow> bool"
    and owned :: "'s \<Rightarrow> nat set"
  assumes malloc_ok: "ok s \<Longrightarrow> request sz \<Longrightarrow> malloc sz phys flags s = Inr ((a, p), s') \<Longrightarrow>
      ok s' \<and> owned s \<subseteq> owned s'"
    and malloc_fresh: "ok s \<Longrightarrow> request sz \<Longrightarrow> malloc sz phys flags s = Inr ((a, p), s') \<Longrightarrow> a \<noteq> 0 \<Longrightarrow>
      region a sz \<inter> owned s = {} \<and> region a sz \<subseteq> owned s'"
    and malloc_aligned: "ok s \<Longrightarrow> request sz \<Longrightarrow> malloc sz phys flags s = Inr ((a, p), s') \<Longrightarrow>
      a \<noteq> 0 \<Longrightarrow> bit flags 2 \<Longrightarrow> 4096 dvd unat a"
begin

text \<open>No two allocations of a run overlap, and none overlaps what was handed out before.\<close>

lemma malloc_all_disjoint:
  assumes "malloc_all malloc reqs s = Inr (rs, s')" and "ok s" and "\<forall>(sz, flags) \<in> set reqs. request sz"
  shows "ok s' \<and> owned s \<subseteq> owned s' \<and> disjoint_regions rs \<and>
    (\<forall>a n. (a, n) \<in> set rs \<longrightarrow> region a n \<inter> owned s = {} \<and> region a n \<subseteq> owned s')"
  using assms
proof (induction reqs arbitrary: s rs)
  case Nil
  then show ?case
    by (simp add: disjoint_regions_def)
next
  case (Cons q reqs)
  obtain sz flags where q: "q = (sz, flags)"
    by force
  obtain a p s1 rs1 where m: "malloc sz False flags s = Inr ((a, p), s1)"
    and rest: "malloc_all malloc reqs s1 = Inr (rs1, s')"
    and rs: "rs = (if a = 0 then rs1 else (a, sz) # rs1)"
    using Cons.prems(1) by (auto simp: q bindr_Inr_iff)
  have req: "request sz" "\<forall>(sz, flags) \<in> set reqs. request sz"
    using Cons.prems(3) by (simp_all add: q)
  have s1: "ok s1" "owned s \<subseteq> owned s1"
    using malloc_ok [OF Cons.prems(2) req(1) m] by simp_all
  have IH: "ok s'" "owned s1 \<subseteq> owned s'" "disjoint_regions rs1"
    "\<And>b n. (b, n) \<in> set rs1 \<Longrightarrow> region b n \<inter> owned s1 = {} \<and> region b n \<subseteq> owned s'"
    using Cons.IH [OF rest s1(1) req(2)] by blast+
  have old: "\<And>b n. (b, n) \<in> set rs1 \<Longrightarrow> region b n \<inter> owned s = {} \<and> region b n \<subseteq> owned s'"
    using IH(4) s1(2) by blast
  show ?case
  proof (cases "a = 0")
    case True
    then have "rs = rs1"
      using rs by simp
    then show ?thesis
      using IH(1-3) old s1(2) by blast
  next
    case False
    then have fresh: "region a sz \<inter> owned s = {}" "region a sz \<subseteq> owned s1"
      using malloc_fresh [OF Cons.prems(2) req(1) m] by simp_all
    then have "\<And>b n. (b, n) \<in> set rs1 \<Longrightarrow> region a sz \<inter> region b n = {}"
      using IH(4) by blast
    then have "disjoint_regions rs"
      using IH(3) False by (auto simp: rs disjoint_regions_def)
    moreover have "\<And>b n. (b, n) \<in> set rs \<Longrightarrow> region b n \<inter> owned s = {} \<and> region b n \<subseteq> owned s'"
      using old fresh IH(2) False unfolding rs by (simp split: if_splits) blast
    ultimately show ?thesis
      using IH(1,2) s1(2) by blast
  qed
qed

end

text \<open>
  An allocator that takes memory back as well: \<open>holds s L\<close> says that the clients hold the pieces of the map \<open>L\<close>,
  from addresses to sizes.
\<close>

locale kalloc_heap = kalloc_provider malloc ok request owned
  for malloc :: "'s malloc_fn" and ok :: "'s \<Rightarrow> bool" and request :: "size_t \<Rightarrow> bool" and owned :: "'s \<Rightarrow> nat set" +
  fixes free :: "'s free_fn"
    and holds :: "'s \<Rightarrow> (uintptr_t \<rightharpoonup> size_t) \<Rightarrow> bool"
  assumes holds_ok: "holds s L \<Longrightarrow> ok s"
    and holds_nothing: "ok s \<Longrightarrow> holds s Map.empty"
    and holds_owned: "holds s L \<Longrightarrow> L a = Some n \<Longrightarrow> region a n \<subseteq> owned s"
    and holds_apart: "holds s L \<Longrightarrow> L a = Some n \<Longrightarrow> L b = Some m \<Longrightarrow> a \<noteq> b \<Longrightarrow> region a n \<inter> region b m = {}"
    and malloc_holds: "holds s L \<Longrightarrow> request sz \<Longrightarrow> malloc sz phys flags s = Inr ((a, p), s') \<Longrightarrow>
      a \<noteq> 0 \<and> holds s' (L(a \<mapsto> sz))"
    and free_holds: "holds s L \<Longrightarrow> L a = Some n \<Longrightarrow> \<exists>s'. free a s = Inr s' \<and> holds s' (L(a := None))"
    and request_pos: "request sz \<Longrightarrow> 0 < sz"
    and holds_pos: "holds s L \<Longrightarrow> L a = Some n \<Longrightarrow> 0 < n"
begin

text \<open>A new piece does not touch those that are held, so its address is not one of theirs.\<close>

lemma malloc_apart:
  assumes "holds s L" and "request sz" and "malloc sz phys flags s = Inr ((a, p), s')" and "L b = Some m"
  shows "region a sz \<inter> region b m = {}"
  using malloc_fresh [OF holds_ok [OF assms(1)] assms(2,3)] malloc_holds [OF assms(1-3)] holds_owned [OF assms(1,4)] by blast

lemma malloc_new:
  assumes "holds s L" and "request sz" and "malloc sz phys flags s = Inr ((a, p), s')"
  shows "L a = None"
proof (rule ccontr)
  assume "L a \<noteq> None"
  then obtain m where m: "L a = Some m"
    by blast
  have "unat a \<in> region a sz" "unat a \<in> region a m"
    using request_pos [OF assms(2)] holds_pos [OF assms(1) m] by (simp_all add: region_def word_less_nat_alt)
  then show False
    using malloc_apart [OF assms m] by blast
qed

text \<open>Giving a piece back at once leaves what was held before.\<close>

lemma malloc_free:
  assumes "holds s L" and "request sz" and "malloc sz phys flags s = Inr ((a, p), s')"
  shows "\<exists>t. free a s' = Inr t \<and> holds t L"
proof -
  have "(L(a \<mapsto> sz))(a := None) = L"
    using malloc_new [OF assms] by auto
  then show ?thesis
    using free_holds [of s' "L(a \<mapsto> sz)" a sz] malloc_holds [OF assms] by simp
qed

end

end
