(* ===== verification/I386_Mem.thy ===== *)
theory I386_Mem
  imports Machine Bitset Kalloc
begin

text \<open>
  Physical memory management, \<^verbatim>\<open>kernel/arch/i386/mem.c\<close>: reading what the boot loader reports,
  the frame allocator over a bitset, and the placement allocator that serves \<open>kmalloc\<close> until the
  heap is installed.
\<close>

section \<open>What the boot loader provides\<close>

record multiboot_elf_section_header_table =
  elf_num :: u32
  elf_size :: u32
  elf_addr :: u32
  elf_shndx :: u32

text \<open>The fields of \<open>multiboot_info_t\<close> up to the memory map, the last one the kernel reads.\<close>

record multiboot_info =
  mb_flags :: u32
  mb_mem_lower :: u32
  mb_mem_upper :: u32
  mb_boot_device :: u32
  mb_cmdline :: u32
  mb_mods_count :: u32
  mb_mods_addr :: u32
  mb_elf_sec :: multiboot_elf_section_header_table
  mb_mmap_length :: u32
  mb_mmap_addr :: u32

record multiboot_memory_map =
  mm_size :: u32
  mm_addr :: u64
  mm_len :: u64
  mm_type :: u32

record elf_section_header =
  sh_name :: u32
  sh_type :: u32
  sh_flags :: u32
  sh_addr :: u32
  sh_offset :: u32
  sh_size :: u32
  sh_link :: u32
  sh_info :: u32
  sh_addralign :: u32
  sh_entsize :: u32

text \<open>
  The structures the boot loader left in memory, as the kernel reads them through pointers: the
  struct found at an address.
\<close>

record boot_mem =
  info_at :: "u32 \<Rightarrow> multiboot_info"
  mmap_entry_at :: "u32 \<Rightarrow> multiboot_memory_map"
  shdr_at :: "u32 \<Rightarrow> elf_section_header"

definition MULTIBOOT_MEMORY_RESERVED :: u32 where "MULTIBOOT_MEMORY_RESERVED = 2"

text \<open>\<open>sizeof(multiboot_info_t)\<close> and \<open>sizeof(elf_section_header_t)\<close>\<close>

definition sizeof_multiboot_info :: u32 where "sizeof_multiboot_info = 88"
definition sizeof_elf_section_header :: u32 where "sizeof_elf_section_header = 40"

section \<open>The state of the memory subsystem\<close>

definition EARLY_HEAP_MAXSIZE :: u32 where "EARLY_HEAP_MAXSIZE = 0x50000"

datatype mem_states_t = MEM_RESERVED | MEM_FREE | MEM_NONEXISTANT

record i386_mem_info =
  mboot_header :: uintptr_t
  mmap_length :: u32
  mmap :: uintptr_t
  elf_sec :: multiboot_elf_section_header_table
  kernel_reserved_start :: u32
  kernel_reserved_end :: u32
  multiboot_reserved_start :: u32
  multiboot_reserved_end :: u32
  kernel_heap_start :: u32
  kernel_heap_curpos :: u32
  mem_lower :: u32
  mem_upper :: u32
  highest_free_address :: u32

record mem_state = machine +
  meminfo :: i386_mem_info
  i386_mem_frame_bitset :: bitset

section \<open>Reserved memory\<close>

text \<open>The walk over the memory map entries from \<open>cur\<close> to \<open>stop\<close>.\<close>

partial_function (option) mmap_check_loop ::
  "(u32 \<Rightarrow> multiboot_memory_map) \<Rightarrow> u32 \<Rightarrow> u32 \<Rightarrow> u32 \<Rightarrow> mem_states_t option" where
  "mmap_check_loop entry_at addr cur stop =
     (if cur < stop then
        let e = entry_at cur;
            current_entry_end = ucast (mm_addr e + mm_len e) :: u32
        in if mm_addr e \<le> ucast addr \<and> addr \<le> current_entry_end then
             (if mm_type e = MULTIBOOT_MEMORY_RESERVED then Some MEM_RESERVED
              else if addr + PAGE_SIZE > current_entry_end then Some MEM_RESERVED
              else Some MEM_FREE)
           else mmap_check_loop entry_at addr (cur + (mm_size e + 4)) stop
      else Some MEM_NONEXISTANT)"

definition i386_mmap_check_reserved ::
  "boot_mem \<Rightarrow> i386_mem_info \<Rightarrow> u32 \<Rightarrow> mem_states_t option" where
  "i386_mmap_check_reserved bm mi addr =
     mmap_check_loop (mmap_entry_at bm) addr (mmap mi) (mmap mi + mmap_length mi)"

definition i386_mem_check_reserved ::
  "boot_mem \<Rightarrow> i386_mem_info \<Rightarrow> u32 \<Rightarrow> mem_states_t option" where
  "i386_mem_check_reserved bm mi addr =
     (let addr_end = addr + PAGE_SIZE
      in if addr_end \<le> 0x1000 then Some MEM_RESERVED
         else if (kernel_reserved_start mi \<le> addr \<and> addr \<le> kernel_reserved_end mi) \<or>
                 (kernel_reserved_start mi \<le> addr_end \<and> addr_end \<le> kernel_reserved_end mi)
         then Some MEM_RESERVED
         else if (multiboot_reserved_start mi \<le> addr \<and> addr \<le> multiboot_reserved_end mi) \<or>
                 (multiboot_reserved_start mi \<le> addr_end \<and> addr_end \<le> multiboot_reserved_end mi)
         then Some MEM_RESERVED
         else case i386_mmap_check_reserved bm mi addr of
                None \<Rightarrow> None
              | Some mmap_reserved \<Rightarrow>
                  if mmap_reserved \<noteq> MEM_FREE then Some mmap_reserved else Some MEM_FREE)"

text \<open>The kernel image's extent from the ELF section headers.\<close>

definition i386_elf_sections_read :: "boot_mem \<Rightarrow> i386_mem_info \<Rightarrow> i386_mem_info res" where
  "i386_elf_sections_read bm mi =
     (let cur_header = elf_addr (elf_sec mi) + sizeof_elf_section_header;
          first = sh_addr (shdr_at bm cur_header)
      in bindr
           (for_loop 0 (elf_num (elf_sec mi) - 1)
              (\<lambda>i (cur_header, reserved_end).
                 let a = sh_addr (shdr_at bm cur_header)
                 in Inr (cur_header + sizeof_elf_section_header,
                         if a > reserved_end then a else reserved_end))
              (cur_header, 0))
           (\<lambda>(_, reserved_end).
              Inr (mi\<lparr>kernel_reserved_start := first,
                      kernel_reserved_end := reserved_end + reserved_end mod 0x1000\<rparr>)))"

text \<open>Marking the reserved frames: \<^verbatim>\<open>for (i = 0; i + PAGE_SIZE < highest; i += PAGE_SIZE)\<close>.\<close>

partial_function (option) mem_init_bitset_loop ::
  "boot_mem \<Rightarrow> i386_mem_info \<Rightarrow> u32 \<Rightarrow> bitset \<Rightarrow> bitset res option" where
  "mem_init_bitset_loop bm mi i b =
     (if i + PAGE_SIZE < highest_free_address mi then
        (case i386_mem_check_reserved bm mi i of
           None \<Rightarrow> None
         | Some st \<Rightarrow>
             (case (if st = MEM_RESERVED then bitset_set_bit b (i div PAGE_SIZE) else Inr b) of
                Inl e \<Rightarrow> Some (Inl e)
              | Inr b' \<Rightarrow> mem_init_bitset_loop bm mi (i + PAGE_SIZE) b'))
      else Some (Inr b))"

definition i386_mem_init_bitset ::
  "boot_mem \<Rightarrow> 'a mem_state_scheme \<Rightarrow> 'a mem_state_scheme res" where
  "i386_mem_init_bitset bm s =
     bindr (or_diverge (mem_init_bitset_loop bm (meminfo s) 0 (i386_mem_frame_bitset s)))
       (\<lambda>b. Inr (s\<lparr>i386_mem_frame_bitset := b\<rparr>))"

section \<open>Frames\<close>

definition i386_mem_get_next_free_frame :: "'a mem_state_scheme \<Rightarrow> u32 res" where
  "i386_mem_get_next_free_frame s =
     (let b = i386_mem_frame_bitset s
      in bindr
           (for_ret 0 (INDEX_FROM_BIT (highest_free_address (meminfo s) div PAGE_SIZE))
              (\<lambda>i _. bindr (cell_read b i) (\<lambda>entry.
                 if entry = 0xFFFFFFFF then Inr (Next ())
                 else for_ret 0 32
                        (\<lambda>j _. bindr (cell_read b i) (\<lambda>entry.
                           if entry AND bit_at j = 0 then Inr (Ret (i * 32 + j))
                           else Inr (Next ())))
                        ()))
              ())
           (\<lambda>c. case c of Next _ \<Rightarrow> Inr 0 | Ret frame \<Rightarrow> Inr frame))"

definition i386_mem_allocate_frame ::
  "'a mem_state_scheme \<Rightarrow> (u32 \<times> 'a mem_state_scheme) res" where
  "i386_mem_allocate_frame s =
     bindr (i386_mem_get_next_free_frame s) (\<lambda>next_free_frame.
       if next_free_frame \<noteq> 0
       then bindr (bitset_set_bit (i386_mem_frame_bitset s) next_free_frame) (\<lambda>b.
              Inr (next_free_frame, s\<lparr>i386_mem_frame_bitset := b\<rparr>))
       else Inr (next_free_frame, s))"

definition i386_mem_free_frame ::
  "u32 \<Rightarrow> 'a mem_state_scheme \<Rightarrow> 'a mem_state_scheme res" where
  "i386_mem_free_frame frame s =
     bindr (bitset_clear_bit (i386_mem_frame_bitset s) frame) (\<lambda>b.
       Inr (s\<lparr>i386_mem_frame_bitset := b\<rparr>))"

definition i386_mem_get_frame_start_addr :: "u32 \<Rightarrow> u32" where
  "i386_mem_get_frame_start_addr num = num * PAGE_SIZE"

definition i386_mem_get_frame_num :: "u32 \<Rightarrow> u32" where
  "i386_mem_get_frame_num addr = addr div PAGE_SIZE"

section \<open>The placement allocator\<close>

definition i386_mem_kfree :: "uintptr_t \<Rightarrow> 'a mem_state_scheme \<Rightarrow> 'a mem_state_scheme res" where
  "i386_mem_kfree tmp s = Inr s"

text \<open>Where the next allocation starts, after the alignment the flags ask for.\<close>

definition kmalloc_align :: "u32 \<Rightarrow> u32 \<Rightarrow> u32" where
  "kmalloc_align flags curpos =
     (if flags AND KALLOC_PAGE_ALIGN \<noteq> 0 \<and> curpos mod PAGE_SIZE \<noteq> 0
      then (curpos AND 0xFFFFF000) + PAGE_SIZE
      else if flags AND KALLOC_PAGE_ALIGN = 0 \<and> curpos mod 8 \<noteq> 0
      then curpos + (8 - curpos mod 8)
      else curpos)"

definition i386_mem_kmalloc_real :: "'a mem_state_scheme malloc_fn" where
  "i386_mem_kmalloc_real sz phys flags s =
     (if flags AND KALLOC_CRITICAL = 0 then Inr ((0, None), s)
      else if sz + kernel_heap_curpos (meminfo s) + PAGE_SIZE >
              kernel_heap_start (meminfo s) + EARLY_HEAP_MAXSIZE
      then Inr ((0, None), s)
      else let start = kmalloc_align flags (kernel_heap_curpos (meminfo s))
           in Inr ((start, if phys then Some start else None),
                   s\<lparr>meminfo := (meminfo s)\<lparr>kernel_heap_curpos := start + sz\<rparr>\<rparr>))"

definition i386_mem_kmalloc ::
  "u32 \<Rightarrow> 'a mem_state_scheme \<Rightarrow> (uintptr_t \<times> 'a mem_state_scheme) res" where
  "i386_mem_kmalloc sz s =
     bindr (i386_mem_kmalloc_real sz False KALLOC_CRITICAL s) (\<lambda>((a, _), s'). Inr (a, s'))"

definition i386_mem_kmalloc_a ::
  "u32 \<Rightarrow> 'a mem_state_scheme \<Rightarrow> (uintptr_t \<times> 'a mem_state_scheme) res" where
  "i386_mem_kmalloc_a sz s =
     bindr (i386_mem_kmalloc_real sz False (KALLOC_CRITICAL OR KALLOC_PAGE_ALIGN) s)
       (\<lambda>((a, _), s'). Inr (a, s'))"

definition i386_mem_kmalloc_p ::
  "u32 \<Rightarrow> bool \<Rightarrow> 'a mem_state_scheme \<Rightarrow> ((uintptr_t \<times> uintptr_t option) \<times> 'a mem_state_scheme) res" where
  "i386_mem_kmalloc_p sz phys s = i386_mem_kmalloc_real sz phys KALLOC_CRITICAL s"

definition i386_mem_kmalloc_ap ::
  "u32 \<Rightarrow> bool \<Rightarrow> 'a mem_state_scheme \<Rightarrow> ((uintptr_t \<times> uintptr_t option) \<times> 'a mem_state_scheme) res" where
  "i386_mem_kmalloc_ap sz phys s =
     i386_mem_kmalloc_real sz phys (KALLOC_CRITICAL OR KALLOC_PAGE_ALIGN) s"

section \<open>Initialisation\<close>

text \<open>
  \<open>i386_mem_init\<close> gives the allocation interface it installed beside the new state.
  \<open>mboot_header + sizeof(multiboot_info_t)\<close> is pointer arithmetic on a \<open>multiboot_info_t *\<close>.
\<close>

definition i386_mem_init ::
  "boot_mem \<Rightarrow> uintptr_t \<Rightarrow> 'a mem_state_scheme \<Rightarrow>
     ('a mem_state_scheme kalloc_interface \<times> 'a mem_state_scheme) res" where
  "i386_mem_init bm header s =
     (let hdr = info_at bm header
      in if mb_flags hdr AND bit_at 6 = 0 then Inl Aborted
         else if mb_flags hdr AND bit_at 5 = 0 then Inl Aborted
         else
           bindr (i386_elf_sections_read bm
                    ((meminfo s)\<lparr>mboot_header := header,
                       mmap_length := mb_mmap_length hdr,
                       mmap := mb_mmap_addr hdr,
                       elf_sec := mb_elf_sec hdr,
                       multiboot_reserved_start := header,
                       multiboot_reserved_end :=
                         header + sizeof_multiboot_info * sizeof_multiboot_info,
                       mem_upper := mb_mem_upper hdr,
                       mem_lower := mb_mem_lower hdr\<rparr>)) (\<lambda>mi1.
           let heap_start = (kernel_reserved_end mi1 + 0x1000) AND 0xFFFFF000;
               mi2 = mi1\<lparr>highest_free_address := mem_upper mi1 * 1024,
                         kernel_heap_start := heap_start,
                         kernel_heap_curpos := heap_start\<rparr>;
               bitset_length = highest_free_address mi2 div 0x1000;
               bitset_size = DIV_ROUND_UP bitset_length 32 * 4
           in bindr (i386_mem_kmalloc bitset_size (s\<lparr>meminfo := mi2\<rparr>)) (\<lambda>(bitset_start, s2).
              bindr (i386_mem_init_bitset bm
                       (s2\<lparr>i386_mem_frame_bitset := bitset_init bitset_start bitset_length\<rparr>))
                (\<lambda>s3. Inr (\<lparr>kalloc_malloc_real_fn = Some i386_mem_kmalloc_real,
                            kalloc_free_fn = Some i386_mem_kfree\<rparr>, s3)))))"

section \<open>The frame allocator hands out the first free frame\<close>

text \<open>
  The bitset has one bit for each frame below the highest address; the search covers the whole
  cells of it. A frame is used when its bit is one.
\<close>

definition frame_inv :: "'a mem_state_scheme \<Rightarrow> bool" where
  "frame_inv s \<longleftrightarrow> bitset_inv (i386_mem_frame_bitset s) \<and>
     bs_length (i386_mem_frame_bitset s) = highest_free_address (meminfo s) div PAGE_SIZE"

definition frame_limit :: "'a mem_state_scheme \<Rightarrow> nat" where
  "frame_limit s = 32 * unat (INDEX_FROM_BIT (highest_free_address (meminfo s) div PAGE_SIZE))"

definition used_frames :: "'a mem_state_scheme \<Rightarrow> nat set" where
  "used_frames s = bits (i386_mem_frame_bitset s)"

definition free_frames :: "'a mem_state_scheme \<Rightarrow> nat set" where
  "free_frames s = {..<frame_limit s} - used_frames s"

lemma frame_limit_le: "frame_inv s \<Longrightarrow> frame_limit s \<le> unat (bs_length (i386_mem_frame_bitset s))"
  by (simp add: frame_inv_def frame_limit_def)

lemma frame_limit_less: "frame_limit s \<le> 1048576"
proof -
  have "unat (highest_free_address (meminfo s)) div 4096 \<le> 1048575"
    using unat_u32_less [of "highest_free_address (meminfo s)"] by simp
  then show ?thesis
    by (simp add: frame_limit_def unat_div PAGE_SIZE_def)
qed

lemma all_ones_bit: "j < 32 \<Longrightarrow> bit (0xFFFFFFFF :: u32) j"
proof -
  assume "j < 32"
  moreover have "(0xFFFFFFFF :: u32) = mask 32"
    by (simp add: mask_eq_exp_minus_1)
  ultimately show ?thesis
    by (simp only: bit_mask_iff) simp
qed

lemma div_mod_32: "j < 32 \<Longrightarrow> (32 * i + j) div 32 = (i::nat)" "j < 32 \<Longrightarrow> (32 * i + j) mod 32 = j"
  by simp_all

lemma cell_bit_used:
  assumes "32 * i + j < unat (bs_length b)" and "j < 32"
  shows "32 * i + j \<in> bits b \<longleftrightarrow> bit (bs_cells b ! i) j"
  using assms by (simp add: in_bits)


text \<open>The first frame that is free, among those the search covers.\<close>

definition first_free :: "'a mem_state_scheme \<Rightarrow> u32 \<Rightarrow> bool" where
  "first_free s f \<longleftrightarrow> unat f \<in> free_frames s \<and> (\<forall>k \<in> free_frames s. unat f \<le> k)"

text \<open>The bounds of one cell of the bitset.\<close>

lemma searched_cell:
  assumes "frame_inv s" and "i < INDEX_FROM_BIT (highest_free_address (meminfo s) div PAGE_SIZE)"
  shows "32 * unat i + 32 \<le> frame_limit s"
    and "32 * unat i + 32 \<le> unat (bs_length (i386_mem_frame_bitset s))"
    and "unat i < length (bs_cells (i386_mem_frame_bitset s))"
proof -
  show lim: "32 * unat i + 32 \<le> frame_limit s"
    using assms(2) by (simp add: frame_limit_def word_less_nat_alt)
  then show len: "32 * unat i + 32 \<le> unat (bs_length (i386_mem_frame_bitset s))"
    using frame_limit_le [OF assms(1)] by linarith
  show "unat i < length (bs_cells (i386_mem_frame_bitset s))"
    using len assms(1) unfolding frame_inv_def bitset_inv_def by linarith
qed

lemma frame_number_no_wrap:
  fixes i j :: u32
  assumes "32 * unat i + 32 \<le> frame_limit s" and "j < 32"
  shows "unat (i * 32 + j) = 32 * unat i + unat j"
proof -
  have "unat j < 32"
    using assms(2) by (simp add: word_less_nat_alt)
  then have "unat i * 32 + unat j < 4294967296"
    using assms(1) frame_limit_less [of s] by linarith
  then show ?thesis
    using unat_mult_no_wrap [of i 32] unat_add_no_wrap [of "i * 32" j] by simp
qed

text \<open>The scan of one cell, when all earlier frames are used.\<close>

lemma scan_cell:
  fixes s :: "'a mem_state_scheme"
  defines "scan \<equiv> \<lambda>i. for_ret 0 32
     (\<lambda>j (_::unit). bindr (cell_read (i386_mem_frame_bitset s) i) (\<lambda>entry.
        if entry AND bit_at j = 0 then Inr (Ret (i * 32 + j)) else Inr (Next ()))) ()"
  assumes inv: "frame_inv s"
    and i: "i < INDEX_FROM_BIT (highest_free_address (meminfo s) div PAGE_SIZE)"
    and used: "{..<32 * unat i} \<subseteq> used_frames s"
  shows "(\<exists>u. scan i = Inr (Next u) \<and> {..<32 * unat (i + 1)} \<subseteq> used_frames s) \<or>
         (\<exists>f. scan i = Inr (Ret f) \<and> first_free s f)"
proof -
  let ?b = "i386_mem_frame_bitset s"
  let ?I = "\<lambda>j (_::unit). {..<32 * unat i + unat (j::u32)} \<subseteq> used_frames s"
  note cell = searched_cell [OF inv i]
  have "(\<exists>u. scan i = Inr (Next u) \<and> ?I 32 u) \<or> (\<exists>f. scan i = Inr (Ret f) \<and> first_free s f)"
    unfolding scan_def
  proof (rule for_ret_rule [where I = ?I])
    show "?I 0 ()"
      using used by simp
  next
    fix j :: u32 and u :: unit
    assume j: "j < 32" and upto: "?I j u"
    have j': "unat j < 32"
      using j by (simp add: word_less_nat_alt)
    have k: "32 * unat i + unat j \<in> used_frames s \<longleftrightarrow> bit (bs_cells ?b ! unat i) (unat j)"
      using j' cell(2) by (simp add: used_frames_def cell_bit_used)
    show "(\<exists>u. bindr (cell_read ?b i) (\<lambda>entry.
          if entry AND bit_at j = 0 then Inr (Ret (i * 32 + j)) else Inr (Next ())) = Inr (Next u) \<and>
          ?I (j + 1) u) \<or>
      (\<exists>f. bindr (cell_read ?b i) (\<lambda>entry.
          if entry AND bit_at j = 0 then Inr (Ret (i * 32 + j)) else Inr (Next ())) = Inr (Ret f) \<and>
          first_free s f)"
    proof (cases "32 * unat i + unat j \<in> used_frames s")
      case True
      then have "?I (j + 1) u"
        using upto unat_suc_less [OF j] by (simp add: lessThan_Suc)
      then show ?thesis
        using True k cell(3) by (simp add: cell_read_def and_bit_at_eq_0)
    next
      case False
      then have "first_free s (i * 32 + j)"
        using upto frame_number_no_wrap [OF cell(1) j] cell(1) j'
        by (auto simp: first_free_def free_frames_def subset_iff not_less [symmetric])
      then show ?thesis
        using False k cell(3) by (simp add: cell_read_def and_bit_at_eq_0)
    qed
  qed simp
  moreover have "32 * unat (i + 1) = 32 * unat i + unat (32::u32)"
    using unat_suc_less [OF i] by simp
  ultimately show ?thesis
    by (simp only:)
qed

lemma full_cell:
  assumes inv: "frame_inv s"
    and i: "i < INDEX_FROM_BIT (highest_free_address (meminfo s) div PAGE_SIZE)"
    and used: "{..<32 * unat i} \<subseteq> used_frames s"
    and full: "bs_cells (i386_mem_frame_bitset s) ! unat i = 0xFFFFFFFF"
  shows "{..<32 * unat (i + 1)} \<subseteq> used_frames s"
proof
  fix k
  assume k: "k \<in> {..<32 * unat (i + 1)}"
  show "k \<in> used_frames s"
  proof (cases "k < 32 * unat i")
    case False
    then have "k - 32 * unat i < 32"
      using k unat_suc_less [OF i] by simp
    then have "32 * unat i + (k - 32 * unat i) \<in> used_frames s"
      using all_ones_bit [of "k - 32 * unat i"] full searched_cell(2) [OF inv i] cell_bit_used [of "unat i" "k - 32 * unat i" "i386_mem_frame_bitset s"]
      by (simp add: used_frames_def)
    with False show ?thesis
      by simp
  qed (use used in auto)
qed

lemma get_next_free_frame_spec:
  assumes inv: "frame_inv s"
  shows "\<exists>f. i386_mem_get_next_free_frame s = Inr f \<and>
           (if free_frames s = {} then f = 0 else first_free s f)"
proof -
  let ?b = "i386_mem_frame_bitset s"
  let ?n = "INDEX_FROM_BIT (highest_free_address (meminfo s) div PAGE_SIZE)"
  let ?scan = "\<lambda>i. for_ret 0 32
     (\<lambda>j (_::unit). bindr (cell_read ?b i) (\<lambda>entry.
        if entry AND bit_at j = 0 then Inr (Ret (i * 32 + j)) else Inr (Next ()))) ()"
  let ?body = "\<lambda>i (_::unit). bindr (cell_read ?b i) (\<lambda>entry.
     if entry = 0xFFFFFFFF then Inr (Next ()) else ?scan i)"
  let ?I = "\<lambda>i (_::unit). {..<32 * unat i} \<subseteq> used_frames s"
  have "(\<exists>u. for_ret 0 ?n ?body () = Inr (Next u) \<and> ?I ?n u) \<or>
        (\<exists>f. for_ret 0 ?n ?body () = Inr (Ret f) \<and> first_free s f)"
  proof (rule for_ret_rule [where I = ?I])
    fix i :: u32 and u :: unit
    assume i: "i < ?n" and used: "?I i u"
    show "(\<exists>u. ?body i u = Inr (Next u) \<and> ?I (i + 1) u) \<or>
          (\<exists>f. ?body i u = Inr (Ret f) \<and> first_free s f)"
      using scan_cell [OF inv i used] full_cell [OF inv i used] searched_cell(3) [OF inv i]
      by (auto simp: cell_read_def)
  qed simp_all
  then show ?thesis
  proof (elim disjE exE conjE)
    fix u
    assume r: "for_ret 0 ?n ?body () = Inr (Next u)" and I: "?I ?n u"
    then have "free_frames s = {}"
      by (simp add: free_frames_def frame_limit_def)
    then show ?thesis
      using r by (simp add: i386_mem_get_next_free_frame_def Let_def)
  next
    fix f
    assume r: "for_ret 0 ?n ?body () = Inr (Ret f)" and Q: "first_free s f"
    then show ?thesis
      by (auto simp: i386_mem_get_next_free_frame_def Let_def first_free_def)
  qed
qed

text \<open>Allocation: the first free frame, marked used; or 0 with nothing changed.\<close>

lemma allocate_frame_none:
  assumes "frame_inv s" and "free_frames s = {}"
  shows "i386_mem_allocate_frame s = Inr (0, s)"
  using get_next_free_frame_spec [OF assms(1)] assms(2)
  by (auto simp: i386_mem_allocate_frame_def)

lemma allocate_frame_some:
  assumes inv: "frame_inv s" and ne: "free_frames s \<noteq> {}" and zero: "0 \<in> used_frames s"
  shows "\<exists>f b. i386_mem_allocate_frame s = Inr (f, s\<lparr>i386_mem_frame_bitset := b\<rparr>) \<and> f \<noteq> 0 \<and>
           first_free s f \<and> bitset_inv b \<and>
           bitset_frame b = bitset_frame (i386_mem_frame_bitset s) \<and>
           bits b = insert (unat f) (used_frames s)"
proof -
  obtain f where f: "i386_mem_get_next_free_frame s = Inr f" "first_free s f"
    using get_next_free_frame_spec [OF inv] ne by auto
  have nz: "f \<noteq> 0"
    using f(2) zero by (auto simp: first_free_def free_frames_def)
  have "f < bs_length (i386_mem_frame_bitset s)"
    using f(2) frame_limit_le [OF inv]
    by (auto simp: first_free_def free_frames_def word_less_nat_alt)
  then obtain b where "bitset_set_bit (i386_mem_frame_bitset s) f = Inr b" "bitset_inv b"
    "bitset_frame b = bitset_frame (i386_mem_frame_bitset s)"
    "bits b = insert (unat f) (bits (i386_mem_frame_bitset s))"
    using bs.set_ok inv unfolding frame_inv_def by blast
  then show ?thesis
    using f nz by (auto simp: i386_mem_allocate_frame_def used_frames_def)
qed

section \<open>The placement allocator\<close>

lemma flag_tests:
  "(flags AND KALLOC_CRITICAL = 0) = (\<not> bit flags 0)"
  "(flags AND KALLOC_PAGE_ALIGN = 0) = (\<not> bit flags 2)"
  using and_bit_at_eq_0 [of flags 0] and_bit_at_eq_0 [of flags 2]
  by (simp_all add: bit_at_def KALLOC_CRITICAL_def KALLOC_PAGE_ALIGN_def)

text \<open>Alignment rounds the position up to the next multiple of the page size, or of eight.\<close>

definition alignment :: "u32 \<Rightarrow> nat" where
  "alignment flags = (if bit flags 2 then 4096 else 8)"

lemma unat_kmalloc_align:
  assumes "unat curpos + 4096 < 4294967296"
  shows "unat (kmalloc_align flags curpos) = round_up (alignment flags) (unat curpos)"
proof -
  have m8: "unat (curpos mod 8) = unat curpos mod 8"
    by (simp add: unat_mod)
  have mp: "curpos mod PAGE_SIZE = 0 \<longleftrightarrow> unat curpos mod 4096 = 0"
    by (simp add: unat_eq_0 [symmetric] unat_mod PAGE_SIZE_def)
  have m0: "curpos mod 8 = 0 \<longleftrightarrow> unat curpos mod 8 = 0"
    by (simp add: unat_eq_0 [symmetric] unat_mod)
  have page: "unat ((curpos AND 0xFFFFF000) + PAGE_SIZE) = unat curpos div 4096 * 4096 + 4096"
    using assms unat_add_no_wrap [of "curpos AND 0xFFFFF000" PAGE_SIZE]
    by (simp add: unat_page_mask PAGE_SIZE_def)
  have le: "curpos mod 8 \<le> 8"
    by (simp add: word_le_nat_alt m8)
  have "unat (8 - curpos mod 8) = 8 - unat curpos mod 8"
    using unat_sub [OF le] m8 by simp
  then have "unat (curpos + (8 - curpos mod 8)) = unat curpos + (8 - unat curpos mod 8)"
    using assms by (subst unat_add_no_wrap) simp_all
  then have eight: "unat (curpos + (8 - curpos mod 8)) = unat curpos div 8 * 8 + 8"
    using div_mult_mod_eq [of "unat curpos" 8] mod_less_divisor [of 8 "unat curpos"] by linarith
  show ?thesis
    using page eight mp m0
    by (simp add: kmalloc_align_def flag_tests alignment_def round_up_def)
qed

text \<open>The early heap lies low in memory and its position stays inside it.\<close>

definition placement_ok :: "'a mem_state_scheme \<Rightarrow> bool" where
  "placement_ok s \<longleftrightarrow>
     0 < unat (kernel_heap_start (meminfo s)) \<and>
     unat (kernel_heap_start (meminfo s)) \<le> unat (kernel_heap_curpos (meminfo s)) \<and>
     unat (kernel_heap_curpos (meminfo s)) \<le> unat (kernel_heap_start (meminfo s)) + 0x50000 \<and>
     unat (kernel_heap_start (meminfo s)) \<le> 0x40000000"

definition placement_request :: "u32 \<Rightarrow> bool" where
  "placement_request sz \<longleftrightarrow> unat sz \<le> 0x40000000"

definition placement_owned :: "'a mem_state_scheme \<Rightarrow> nat set" where
  "placement_owned s =
     {unat (kernel_heap_start (meminfo s))..<unat (kernel_heap_curpos (meminfo s))}"

text \<open>Whether the request, with a page to spare for alignment, fits in what is left.\<close>

definition placement_fits :: "u32 \<Rightarrow> 'a mem_state_scheme \<Rightarrow> bool" where
  "placement_fits sz s \<longleftrightarrow>
     unat sz + unat (kernel_heap_curpos (meminfo s)) + 4096 \<le>
     unat (kernel_heap_start (meminfo s)) + 0x50000"

lemma kmalloc_real_unfold:
  assumes ok: "placement_ok s" and req: "placement_request sz"
  shows "i386_mem_kmalloc_real sz phys flags s =
     (if bit flags 0 \<and> placement_fits sz s
      then let a = kmalloc_align flags (kernel_heap_curpos (meminfo s))
           in Inr ((a, if phys then Some a else None),
                   s\<lparr>meminfo := (meminfo s)\<lparr>kernel_heap_curpos := a + sz\<rparr>\<rparr>)
      else Inr ((0, None), s))"
proof -
  let ?c = "kernel_heap_curpos (meminfo s)" and ?h = "kernel_heap_start (meminfo s)"
  have sum: "unat sz + unat ?c + 4096 < 4294967296"
    using ok req by (simp add: placement_ok_def placement_request_def)
  have "unat (sz + ?c) = unat sz + unat ?c"
    using sum by (intro unat_add_no_wrap) linarith
  then have l: "unat (sz + ?c + PAGE_SIZE) = unat sz + unat ?c + 4096"
    using sum unat_add_no_wrap [of "sz + ?c" PAGE_SIZE] by (simp add: PAGE_SIZE_def)
  have r: "unat (?h + EARLY_HEAP_MAXSIZE) = unat ?h + 0x50000"
    using ok unat_add_no_wrap [of ?h EARLY_HEAP_MAXSIZE]
    by (simp add: EARLY_HEAP_MAXSIZE_def placement_ok_def)
  show ?thesis
    using l r
    by (auto simp: i386_mem_kmalloc_real_def flag_tests placement_fits_def word_less_nat_alt Let_def)
qed

lemma kmalloc_real_success:
  assumes ok: "placement_ok s" and req: "placement_request sz"
    and crit: "bit flags 0" and fits: "placement_fits sz s"
  shows "\<exists>a. i386_mem_kmalloc_real sz phys flags s =
           Inr ((a, if phys then Some a else None),
                s\<lparr>meminfo := (meminfo s)\<lparr>kernel_heap_curpos := a + sz\<rparr>\<rparr>) \<and>
         unat a = round_up (alignment flags) (unat (kernel_heap_curpos (meminfo s))) \<and>
         unat (a + sz) = unat a + unat sz \<and> a \<noteq> 0 \<and>
         unat a + unat sz \<le> unat (kernel_heap_start (meminfo s)) + 0x50000"
proof -
  let ?c = "kernel_heap_curpos (meminfo s)"
  let ?a = "kmalloc_align flags ?c"
  have c: "unat ?c + 4096 < 4294967296" "0 < unat ?c"
    using ok by (simp_all add: placement_ok_def)
  have a: "unat ?a = round_up (alignment flags) (unat ?c)"
    using c(1) by (rule unat_kmalloc_align)
  have al: "0 < alignment flags" "alignment flags \<le> 4096"
    by (simp_all add: alignment_def)
  then have b: "unat ?c \<le> unat ?a" "unat ?a < unat ?c + 4096"
    using round_up_bounds [OF al(1), of "unat ?c"] a by linarith+
  have top: "unat ?a + unat sz \<le> unat (kernel_heap_start (meminfo s)) + 0x50000"
    using fits b by (simp add: placement_fits_def)
  then have "unat (?a + sz) = unat ?a + unat sz"
    using ok by (intro unat_add_no_wrap) (simp add: placement_ok_def)
  moreover have "?a \<noteq> 0"
    using b(1) c(2) by auto
  ultimately show ?thesis
    using kmalloc_real_unfold [OF ok req] crit fits a top by (simp add: Let_def)
qed

lemma kmalloc_real_failure:
  assumes "placement_ok s" and "placement_request sz" and "\<not> bit flags 0 \<or> \<not> placement_fits sz s"
  shows "i386_mem_kmalloc_real sz phys flags s = Inr ((0, None), s)"
  using kmalloc_real_unfold [OF assms(1,2)] assms(3) by auto

text \<open>The two outcomes of an allocation, read off its result.\<close>

lemma kmalloc_real_cases:
  assumes ok: "placement_ok s" and req: "placement_request sz"
    and ret: "i386_mem_kmalloc_real sz phys flags s = Inr ((a, p), s')"
  obtains (refused) "a = 0" "s' = s"
  | (given) "a \<noteq> 0" "s' = s\<lparr>meminfo := (meminfo s)\<lparr>kernel_heap_curpos := a + sz\<rparr>\<rparr>"
      "unat a = round_up (alignment flags) (unat (kernel_heap_curpos (meminfo s)))"
      "unat (kernel_heap_curpos (meminfo s)) \<le> unat a"
      "unat (a + sz) = unat a + unat sz"
      "unat a + unat sz \<le> unat (kernel_heap_start (meminfo s)) + 0x50000"
proof (cases "bit flags 0 \<and> placement_fits sz s")
  case True
  then obtain c where c: "i386_mem_kmalloc_real sz phys flags s =
           Inr ((c, if phys then Some c else None),
                s\<lparr>meminfo := (meminfo s)\<lparr>kernel_heap_curpos := c + sz\<rparr>\<rparr>)"
    and props: "unat c = round_up (alignment flags) (unat (kernel_heap_curpos (meminfo s)))"
      "unat (c + sz) = unat c + unat sz" "c \<noteq> 0"
      "unat c + unat sz \<le> unat (kernel_heap_start (meminfo s)) + 0x50000"
    using kmalloc_real_success [OF ok req] by blast
  from c ret have "a = c" "s' = s\<lparr>meminfo := (meminfo s)\<lparr>kernel_heap_curpos := c + sz\<rparr>\<rparr>"
    by (simp_all only: sum.inject prod.inject)
  moreover have "unat (kernel_heap_curpos (meminfo s)) \<le> unat c"
    using props(1) round_up_bounds(1) [of "alignment flags"] by (simp add: alignment_def)
  ultimately show ?thesis
    using props by (intro given) simp_all
next
  case False
  then show ?thesis
    using kmalloc_real_failure [OF ok req, of flags phys] ret by (intro refused) simp_all
qed

interpretation placement: kalloc_provider i386_mem_kmalloc_real placement_ok placement_request
  placement_owned
proof (unfold_locales, goal_cases)
  case (1 s sz phys flags a p s')
  from "1" show ?case
    using "1"(1)
    by (cases rule: kmalloc_real_cases) (auto simp: placement_ok_def placement_owned_def)
next
  case (2 s sz phys flags a p s')
  from "2"(1-3) show ?case
    using "2"(1,4)
    by (cases rule: kmalloc_real_cases)
      (auto simp: placement_owned_def region_def placement_ok_def)
next
  case (3 s sz phys flags a p s')
  from "3"(1-3) show ?case
    using "3"(4,5)
    by (cases rule: kmalloc_real_cases) (simp_all add: alignment_def round_up_dvd)
qed

section \<open>The memory map\<close>

text \<open>The memory map as the boot loader lays it out: entries back to back from \<open>cur\<close> to \<open>stop\<close>.\<close>

fun mmap_layout ::
  "(u32 \<Rightarrow> multiboot_memory_map) \<Rightarrow> u32 \<Rightarrow> u32 \<Rightarrow> multiboot_memory_map list \<Rightarrow> bool" where
  "mmap_layout entry_at cur stop [] \<longleftrightarrow> cur = stop"
| "mmap_layout entry_at cur stop (e # es) \<longleftrightarrow>
     cur < stop \<and> entry_at cur = e \<and> unat cur + unat (mm_size e) + 4 \<le> unat stop \<and>
     mmap_layout entry_at (cur + (mm_size e + 4)) stop es"

text \<open>The extent of an entry, and the state of the page at an address: the first entry decides.\<close>

definition entry_end :: "multiboot_memory_map \<Rightarrow> nat" where
  "entry_end e = unat (mm_addr e) + unat (mm_len e)"

fun mmap_state :: "multiboot_memory_map list \<Rightarrow> nat \<Rightarrow> mem_states_t" where
  "mmap_state [] a = MEM_NONEXISTANT"
| "mmap_state (e # es) a =
     (if unat (mm_addr e) \<le> a \<and> a \<le> entry_end e
      then if mm_type e = MULTIBOOT_MEMORY_RESERVED \<or> entry_end e < a + 4096
           then MEM_RESERVED else MEM_FREE
      else mmap_state es a)"

lemma entry_end_u32:
  assumes "entry_end e < 4294967296"
  shows "unat (ucast (mm_addr e + mm_len e) :: u32) = entry_end e"
proof -
  have "unat (mm_addr e + mm_len e) = entry_end e"
    using assms by (simp add: entry_end_def unat_word_ariths)
  then show ?thesis
    using assms by (simp add: unsigned_ucast_eq take_bit_nat_eq_self)
qed

lemma unat_ucast_64: "unat (ucast (a :: u32) :: u64) = unat a"
  using unat_u32_less [of a] by (simp add: unsigned_ucast_eq take_bit_nat_eq_self)

lemma mmap_check_loop_layout:
  assumes "mmap_layout entry_at cur stop es"
    and "\<forall>e \<in> set es. entry_end e < 4294967296"
    and "unat a + 4096 < 4294967296"
  shows "mmap_check_loop entry_at a cur stop = Some (mmap_state es (unat a))"
  using assms(1,2)
proof (induction es arbitrary: cur)
  case Nil
  then show ?case
    by (simp add: mmap_check_loop.simps)
next
  case (Cons e es)
  have ee: "unat (ucast (mm_addr e + mm_len e) :: u32) = entry_end e"
    using Cons.prems(2) by (intro entry_end_u32) simp
  have ap: "unat (a + PAGE_SIZE) = unat a + 4096"
    using assms(3) unat_add_no_wrap [of a PAGE_SIZE] by (simp add: PAGE_SIZE_def)
  have rest: "mmap_check_loop entry_at a (cur + (mm_size e + 4)) stop = Some (mmap_state es (unat a))"
    using Cons.prems by (intro Cons.IH) simp_all
  show ?case
    using Cons.prems(1) rest ee ap
    by (subst mmap_check_loop.simps)
      (auto simp: Let_def word_le_nat_alt word_less_nat_alt unat_ucast_64)
qed

text \<open>A page reported free lies inside one entry that is not marked reserved.\<close>

lemma mmap_state_free:
  assumes "mmap_state es a = MEM_FREE"
  shows "\<exists>e \<in> set es. mm_type e \<noteq> MULTIBOOT_MEMORY_RESERVED \<and>
           unat (mm_addr e) \<le> a \<and> a + 4096 \<le> entry_end e"
  using assms by (induction es) (auto split: if_splits)

text \<open>Marking: exactly the pages below the bound whose check says reserved.\<close>

definition checks_end :: "boot_mem \<Rightarrow> i386_mem_info \<Rightarrow> bool" where
  "checks_end bm mi \<longleftrightarrow> (\<forall>k. 4096 * k + 4096 < unat (highest_free_address mi) \<longrightarrow>
     i386_mem_check_reserved bm mi (of_nat (4096 * k)) \<noteq> None)"

definition reserved_frames :: "boot_mem \<Rightarrow> i386_mem_info \<Rightarrow> nat set" where
  "reserved_frames bm mi = {k. 4096 * k + 4096 < unat (highest_free_address mi) \<and>
     i386_mem_check_reserved bm mi (of_nat (4096 * k)) = Some MEM_RESERVED}"

lemma of_nat_page_step:
  assumes "4096 * k + 4096 < 4294967296"
  shows "unat (of_nat (4096 * k) + PAGE_SIZE :: u32) = 4096 * k + 4096"
    and "(of_nat (4096 * k) + PAGE_SIZE :: u32) = of_nat (4096 * Suc k)"
    and "unat (of_nat (4096 * k) div PAGE_SIZE :: u32) = k"
proof -
  have u: "unat (of_nat (4096 * k) :: u32) = 4096 * k"
    using assms by (intro unat_of_nat_u32) simp
  show "unat (of_nat (4096 * k) + PAGE_SIZE :: u32) = 4096 * k + 4096"
    using assms u unat_add_no_wrap [of "of_nat (4096 * k)" PAGE_SIZE] by (simp add: PAGE_SIZE_def)
  show "(of_nat (4096 * k) + PAGE_SIZE :: u32) = of_nat (4096 * Suc k)"
    by (simp add: PAGE_SIZE_def)
  have "unat (of_nat (4096 * k) div PAGE_SIZE :: u32) = unat (of_nat (4096 * k) :: u32) div 4096"
    by (simp only: unat_div PAGE_SIZE_def) simp
  then show "unat (of_nat (4096 * k) div PAGE_SIZE :: u32) = k"
    using u by simp
qed

lemma mem_init_bitset_round:
  assumes k: "4096 * k + 4096 < unat (highest_free_address mi)" "4096 * k + 4096 < 4294967296" and ends: "checks_end bm mi"
    and b: "bitset_inv b" "bs_length b = highest_free_address mi div PAGE_SIZE"
  shows "\<exists>b1. mem_init_bitset_loop bm mi (of_nat (4096 * k)) b = mem_init_bitset_loop bm mi (of_nat (4096 * Suc k)) b1 \<and>
           bitset_inv b1 \<and> bitset_frame b1 = bitset_frame b \<and> bits b1 = bits b \<union> ({k} \<inter> reserved_frames bm mi)"
proof -
  define i :: u32 where "i = of_nat (4096 * k)"
  note step = of_nat_page_step [OF k(2), folded i_def]
  have lt: "i + PAGE_SIZE < highest_free_address mi"
    using k(1) step(1) by (simp add: word_less_nat_alt)
  obtain st where st: "i386_mem_check_reserved bm mi i = Some st"
    using ends k(1) unfolding checks_end_def i_def by blast
  have klen: "i div PAGE_SIZE < bs_length b"
    using k(1) step(3) b(2) by (simp add: word_less_nat_alt unat_div PAGE_SIZE_def)
  obtain b1 where b1: "(if st = MEM_RESERVED then bitset_set_bit b (i div PAGE_SIZE) else Inr b) = Inr b1"
    "bitset_inv b1" "bitset_frame b1 = bitset_frame b" "bits b1 = bits b \<union> (if st = MEM_RESERVED then {k} else {})"
    using bs.set_ok [OF b(1) klen] step(3) b(1) by (cases "st = MEM_RESERVED") auto
  have "k \<in> reserved_frames bm mi \<longleftrightarrow> st = MEM_RESERVED"
    using k(1) st by (simp add: reserved_frames_def i_def)
  then have "bits b1 = bits b \<union> ({k} \<inter> reserved_frames bm mi)"
    using b1(4) by auto
  moreover have "mem_init_bitset_loop bm mi i b = mem_init_bitset_loop bm mi (of_nat (4096 * Suc k)) b1"
    using lt st b1(1) unfolding step(2) [symmetric] by (subst mem_init_bitset_loop.simps) simp
  ultimately show ?thesis
    using b1(2,3) unfolding i_def by blast
qed

lemma mem_init_bitset_loop_spec:
  assumes H: "unat (highest_free_address mi) \<le> 4294963200" and ends: "checks_end bm mi"
    and "bitset_inv b" and "bs_length b = highest_free_address mi div PAGE_SIZE"
    and "4096 * k + 4096 < 4294967296"
  shows "\<exists>b'. mem_init_bitset_loop bm mi (of_nat (4096 * k)) b = Some (Inr b') \<and>
           bitset_inv b' \<and> bitset_frame b' = bitset_frame b \<and>
           bits b' = bits b \<union> {j \<in> reserved_frames bm mi. k \<le> j}"
  using assms(3-5)
proof (induction "unat (highest_free_address mi) div 4096 - k" arbitrary: k b rule: less_induct)
  case less
  let ?h = "unat (highest_free_address mi)"
  show ?case
  proof (cases "4096 * k + 4096 < ?h")
    case False
    then have "{j \<in> reserved_frames bm mi. k \<le> j} = {}"
      by (auto simp: reserved_frames_def)
    moreover have "\<not> of_nat (4096 * k) + PAGE_SIZE < highest_free_address mi"
      using False of_nat_page_step(1) [OF less.prems(3)] by (simp add: word_less_nat_alt)
    ultimately show ?thesis
      using less.prems by (subst mem_init_bitset_loop.simps) auto
  next
    case True
    obtain b1 where b1: "mem_init_bitset_loop bm mi (of_nat (4096 * k)) b = mem_init_bitset_loop bm mi (of_nat (4096 * Suc k)) b1"
      "bitset_inv b1" "bitset_frame b1 = bitset_frame b" "bits b1 = bits b \<union> ({k} \<inter> reserved_frames bm mi)"
      using mem_init_bitset_round [OF True less.prems(3) ends less.prems(1,2)] by blast
    have "\<exists>b'. mem_init_bitset_loop bm mi (of_nat (4096 * Suc k)) b1 = Some (Inr b') \<and>
        bitset_inv b' \<and> bitset_frame b' = bitset_frame b1 \<and>
        bits b' = bits b1 \<union> {j \<in> reserved_frames bm mi. Suc k \<le> j}"
    proof (rule less.hyps)
      show "?h div 4096 - Suc k < ?h div 4096 - k"
        using True by linarith
      show "4096 * Suc k + 4096 < 4294967296"
        using True H by simp
    qed (use b1 less.prems(2) in \<open>simp_all add: bitset_frame_def\<close>)
    moreover have "{j \<in> reserved_frames bm mi. k \<le> j} = ({k} \<inter> reserved_frames bm mi) \<union> {j \<in> reserved_frames bm mi. Suc k \<le> j}"
      by (auto simp: Suc_le_eq nat_less_le)
    ultimately show ?thesis
      using b1 by (auto simp: Un_assoc)
  qed
qed

section \<open>The kernel image\<close>

text \<open>Section header \<open>i\<close> (from 0) of those the kernel looks at: the table without its first entry.\<close>

definition section_addr :: "boot_mem \<Rightarrow> i386_mem_info \<Rightarrow> nat \<Rightarrow> u32" where
  "section_addr bm mi i =
     sh_addr (shdr_at bm (elf_addr (elf_sec mi) + sizeof_elf_section_header * of_nat (Suc i)))"

definition highest_section :: "boot_mem \<Rightarrow> i386_mem_info \<Rightarrow> u32 \<Rightarrow> bool" where
  "highest_section bm mi e \<longleftrightarrow>
     (\<forall>i < unat (elf_num (elf_sec mi) - 1). section_addr bm mi i \<le> e) \<and>
     (e = 0 \<or> (\<exists>i < unat (elf_num (elf_sec mi) - 1). section_addr bm mi i = e))"

lemma elf_sections_read_spec:
  "\<exists>e. i386_elf_sections_read bm mi =
         Inr (mi\<lparr>kernel_reserved_start := section_addr bm mi 0,
                 kernel_reserved_end := e + e mod 0x1000\<rparr>) \<and> highest_section bm mi e"
proof -
  let ?n = "elf_num (elf_sec mi) - 1"
  let ?c = "\<lambda>i. elf_addr (elf_sec mi) + sizeof_elf_section_header * of_nat (Suc i)"
  let ?body = "\<lambda>i (c, e). let a = sh_addr (shdr_at bm c)
     in Inr (c + sizeof_elf_section_header, if a > e then a else e)"
  let ?I = "\<lambda>i (c, e). c = ?c (unat i) \<and> (\<forall>k < unat i. section_addr bm mi k \<le> e) \<and>
     (e = 0 \<or> (\<exists>k < unat i. section_addr bm mi k = e))"
  have "\<exists>st. for_loop 0 ?n ?body (?c 0, 0) = Inr st \<and> ?I ?n st"
  proof (rule for_loop_rule [where I = ?I])
    fix i :: u32 and st
    assume i: "i < ?n" and I: "?I i st"
    obtain c e where st: "st = (c, e)"
      by force
    have a: "sh_addr (shdr_at bm c) = section_addr bm mi (unat i)"
      using I by (simp add: st section_addr_def)
    have next_c: "c + sizeof_elf_section_header = ?c (Suc (unat i))"
      using I by (simp add: st algebra_simps)
    show "\<exists>st'. ?body i st = Inr st' \<and> ?I (i + 1) st'"
      using I a next_c unat_suc_less [OF i]
      by (auto simp: st less_Suc_eq Let_def not_less intro: order_trans less_imp_le)
  qed simp_all
  then obtain c e where "for_loop 0 ?n ?body (?c 0, 0) = Inr (c, e)" "highest_section bm mi e"
    by (auto simp: highest_section_def)
  then show ?thesis
    by (auto simp: i386_elf_sections_read_def Let_def section_addr_def)
qed

section \<open>Initialisation\<close>

text \<open>
  What initialisation expects of the boot loader: both tables are announced, the upper memory is
  larger than a page and ends at least a page below 4 GiB, the memory map is laid out as \<open>es\<close> with
  entries that end below 4 GiB, and the kernel image is linked low.
\<close>

definition boot_ok :: "boot_mem \<Rightarrow> uintptr_t \<Rightarrow> multiboot_memory_map list \<Rightarrow> bool" where
  "boot_ok bm header es \<longleftrightarrow>
     (let hdr = info_at bm header in
      bit (mb_flags hdr) 6 \<and> bit (mb_flags hdr) 5 \<and>
      4 < unat (mb_mem_upper hdr) \<and> unat (mb_mem_upper hdr) \<le> 4194300 \<and>
      mmap_layout (mmap_entry_at bm) (mb_mmap_addr hdr) (mb_mmap_addr hdr + mb_mmap_length hdr) es \<and>
      (\<forall>e \<in> set es. entry_end e < 4294967296) \<and>
      (\<forall>i < unat (elf_num (mb_elf_sec hdr) - 1).
         unat (sh_addr (shdr_at bm (elf_addr (mb_elf_sec hdr) +
           sizeof_elf_section_header * of_nat (Suc i)))) \<le> 0x30000000))"

text \<open>\<open>es\<close> is the memory map that \<open>mi\<close> points at.\<close>

definition mmap_of :: "boot_mem \<Rightarrow> i386_mem_info \<Rightarrow> multiboot_memory_map list \<Rightarrow> bool" where
  "mmap_of bm mi es \<longleftrightarrow>
     mmap_layout (mmap_entry_at bm) (mmap mi) (mmap mi + mmap_length mi) es \<and>
     (\<forall>e \<in> set es. entry_end e < 4294967296)"

lemma mmap_check_reserved_spec:
  assumes "mmap_of bm mi es" and "unat a + 4096 < 4294967296"
  shows "i386_mmap_check_reserved bm mi a = Some (mmap_state es (unat a))"
  using mmap_check_loop_layout [OF _ _ assms(2)] assms(1)
  by (simp add: i386_mmap_check_reserved_def mmap_of_def)

lemma checks_end_mmap:
  assumes "mmap_of bm mi es" and "unat (highest_free_address mi) \<le> 4294963200"
  shows "checks_end bm mi"
  unfolding checks_end_def
proof (intro allI impI)
  fix k
  assume k: "4096 * k + 4096 < unat (highest_free_address mi)"
  then have "unat (of_nat (4096 * k) :: u32) = 4096 * k"
    using assms(2) by (intro unat_of_nat_u32) linarith
  then have "unat (of_nat (4096 * k) :: u32) + 4096 < 4294967296"
    using k assms(2) by linarith
  then have "i386_mmap_check_reserved bm mi (of_nat (4096 * k)) \<noteq> None"
    using mmap_check_reserved_spec [OF assms(1)] by simp
  then show "i386_mem_check_reserved bm mi (of_nat (4096 * k)) \<noteq> None"
    by (auto simp: i386_mem_check_reserved_def Let_def)
qed

lemma mem_init_bitset_spec:
  assumes "unat (highest_free_address (meminfo s)) \<le> 4294963200"
    and "mmap_of bm (meminfo s) es" and "frame_inv s"
  shows "\<exists>b. i386_mem_init_bitset bm s = Inr (s\<lparr>i386_mem_frame_bitset := b\<rparr>) \<and> bitset_inv b \<and>
           bitset_frame b = bitset_frame (i386_mem_frame_bitset s) \<and>
           bits b = used_frames s \<union> reserved_frames bm (meminfo s)"
  using mem_init_bitset_loop_spec [OF assms(1) checks_end_mmap [OF assms(2,1)],
      of "i386_mem_frame_bitset s" 0] assms(3)
  by (auto simp: i386_mem_init_bitset_def frame_inv_def used_frames_def)

lemma frame_zero_reserved:
  assumes "4096 < unat (highest_free_address mi)"
  shows "0 \<in> reserved_frames bm mi"
  using assms by (simp add: reserved_frames_def i386_mem_check_reserved_def PAGE_SIZE_def)

text \<open>The bitset fits the early heap: at most 128 KiB of the 320 KiB.\<close>

lemma frame_bitset_fits:
  assumes "0 < unat n" and "unat n \<le> 1048576"
    and "kernel_heap_curpos (meminfo s) = kernel_heap_start (meminfo s)"
  shows "placement_fits (DIV_ROUND_UP n 32 * 4) s" and "placement_request (DIV_ROUND_UP n 32 * 4)"
proof -
  have n: "0 < n"
    using assms(1) by (simp add: word_gt_0 unat_gt_0)
  have "unat (DIV_ROUND_UP n 32) \<le> 32768"
    using unat_DIV_ROUND_UP [OF n, of 32] assms(2) by simp
  then have "unat (DIV_ROUND_UP n 32 * 4) \<le> 131072"
    using unat_mult_no_wrap [of "DIV_ROUND_UP n 32" 4] by simp
  then show "placement_fits (DIV_ROUND_UP n 32 * 4) s" "placement_request (DIV_ROUND_UP n 32 * 4)"
    using assms(3) by (simp_all add: placement_fits_def placement_request_def)
qed

text \<open>The fields of \<open>meminfo\<close> before the ELF sections are read, and once everything is known.\<close>

definition meminfo_header :: "multiboot_info \<Rightarrow> uintptr_t \<Rightarrow> i386_mem_info \<Rightarrow> i386_mem_info" where
  "meminfo_header hdr header mi =
     mi\<lparr>mboot_header := header, mmap_length := mb_mmap_length hdr, mmap := mb_mmap_addr hdr,
        elf_sec := mb_elf_sec hdr, multiboot_reserved_start := header,
        multiboot_reserved_end := header + sizeof_multiboot_info * sizeof_multiboot_info,
        mem_upper := mb_mem_upper hdr, mem_lower := mb_mem_lower hdr\<rparr>"

definition heap_start_after :: "u32 \<Rightarrow> u32" where
  "heap_start_after reserved_end = (reserved_end + 0x1000) AND 0xFFFFF000"

lemma heap_start_after_bounds:
  assumes "unat e \<le> 0x30000000"
  shows "unat (heap_start_after (e + e mod 0x1000)) \<le> 0x40000000"
    and "unat e < unat (heap_start_after (e + e mod 0x1000))"
    and "4096 dvd unat (heap_start_after (e + e mod 0x1000))"
proof -
  have m: "unat (e mod 0x1000) = unat e mod 4096"
    by (simp add: unat_mod)
  then have "unat (e + e mod 0x1000) = unat e + unat e mod 4096"
    using assms by (subst unat_add_no_wrap) simp_all
  then have s: "unat (e + e mod 0x1000 + 0x1000) = unat e + unat e mod 4096 + 4096"
    using assms by (subst unat_add_no_wrap) simp_all
  have h: "unat (heap_start_after (e + e mod 0x1000)) = (unat e + unat e mod 4096 + 4096) div 4096 * 4096"
    by (simp only: heap_start_after_def unat_page_mask s)
  show "unat (heap_start_after (e + e mod 0x1000)) \<le> 0x40000000"
    using h assms by simp
  show "unat e < unat (heap_start_after (e + e mod 0x1000))"
    using h div_mult_mod_eq [of "unat e + unat e mod 4096 + 4096" 4096]
      mod_less_divisor [of 4096 "unat e + unat e mod 4096 + 4096"] by linarith
  show "4096 dvd unat (heap_start_after (e + e mod 0x1000))"
    by (simp add: h)
qed

text \<open>Only the description of memory and the frame bitset change.\<close>

definition mem_info_only :: "'a mem_state_scheme \<Rightarrow> 'a mem_state_scheme \<Rightarrow> bool" where
  "mem_info_only s s' \<longleftrightarrow> (\<exists>mi b. s' = s\<lparr>meminfo := mi, i386_mem_frame_bitset := b\<rparr>)"

lemma mem_info_only_upd [simp]:
  "mem_info_only (s\<lparr>meminfo := mi\<rparr>) s' \<longleftrightarrow> mem_info_only s s'"
  "mem_info_only s (s\<lparr>meminfo := mi, i386_mem_frame_bitset := b\<rparr>)"
  by (auto simp: mem_info_only_def)

text \<open>Initialisation from the point where the ELF sections have been read.\<close>

lemma frame_bitset_placed:
  fixes s :: "'a mem_state_scheme"
  assumes ok: "placement_ok s" and cur: "kernel_heap_curpos (meminfo s) = kernel_heap_start (meminfo s)"
    and n: "0 < unat n" "unat n \<le> 1048576"
  defines "sz \<equiv> DIV_ROUND_UP n 32 * 4"
  obtains a where "i386_mem_kmalloc sz s = Inr (a, s\<lparr>meminfo := (meminfo s)\<lparr>kernel_heap_curpos := a + sz\<rparr>\<rparr>)"
    and "unat (a + sz) \<le> unat (kernel_heap_start (meminfo s)) + 0x20008"
    and "placement_ok (s\<lparr>meminfo := (meminfo s)\<lparr>kernel_heap_curpos := a + sz\<rparr>\<rparr>)"
    and "region a sz \<subseteq> placement_owned (s\<lparr>meminfo := (meminfo s)\<lparr>kernel_heap_curpos := a + sz\<rparr>\<rparr>)"
proof -
  have n0: "0 < n"
    using n(1) by (simp add: word_gt_0 unat_gt_0)
  note fits = frame_bitset_fits [OF n cur, folded sz_def]
  have crit: "bit KALLOC_CRITICAL 0"
    by (simp add: KALLOC_CRITICAL_def)
  obtain a where a: "i386_mem_kmalloc_real sz False KALLOC_CRITICAL s =
        Inr ((a, None), s\<lparr>meminfo := (meminfo s)\<lparr>kernel_heap_curpos := a + sz\<rparr>\<rparr>)" "a \<noteq> 0"
      "unat a = round_up (alignment KALLOC_CRITICAL) (unat (kernel_heap_curpos (meminfo s)))"
      "unat (a + sz) = unat a + unat sz"
    using kmalloc_real_success [OF ok fits(2) crit fits(1), of False] by auto
  have "unat sz \<le> 0x20000"
    using unat_DIV_ROUND_UP [OF n0, of 32] unat_mult_no_wrap [of "DIV_ROUND_UP n 32" 4] n(2) by (simp add: sz_def)
  moreover have "round_up 8 (unat (kernel_heap_curpos (meminfo s))) \<le> unat (kernel_heap_curpos (meminfo s)) + 8"
    by (simp add: round_up_def)
  ultimately have "unat (a + sz) \<le> unat (kernel_heap_start (meminfo s)) + 0x20008"
    using a(3,4) cur by (simp add: alignment_def KALLOC_CRITICAL_def)
  moreover have "i386_mem_kmalloc sz s = Inr (a, s\<lparr>meminfo := (meminfo s)\<lparr>kernel_heap_curpos := a + sz\<rparr>\<rparr>)"
    using a(1) by (simp add: i386_mem_kmalloc_def)
  ultimately show thesis
    using that placement.malloc_ok [OF ok fits(2) a(1)] placement.malloc_fresh [OF ok fits(2) a(1,2)] by simp
qed

lemma mem_init_frames:
  fixes s :: "'a mem_state_scheme"
  defines "n \<equiv> highest_free_address (meminfo s) div 0x1000"
  defines "sz \<equiv> DIV_ROUND_UP n 32 * 4"
  assumes ok: "placement_ok s"
    and cur: "kernel_heap_curpos (meminfo s) = kernel_heap_start (meminfo s)"
    and hi: "4096 < unat (highest_free_address (meminfo s))"
      "unat (highest_free_address (meminfo s)) \<le> 4294963200"
    and map: "mmap_of bm (meminfo s) es"
  shows "\<exists>a c s1 s2. i386_mem_kmalloc sz s = Inr (a, s1) \<and>
           i386_mem_init_bitset bm (s1\<lparr>i386_mem_frame_bitset := bitset_init a n\<rparr>) = Inr s2 \<and>
           frame_inv s2 \<and> used_frames s2 = reserved_frames bm (meminfo s2) \<and>
           meminfo s2 = (meminfo s)\<lparr>kernel_heap_curpos := c\<rparr> \<and>
           unat c \<le> unat (kernel_heap_start (meminfo s)) + 0x20008 \<and> mem_info_only s s2 \<and>
           placement_ok s2 \<and>
           region (bs_start (i386_mem_frame_bitset s2))
             (bitset_bytes (i386_mem_frame_bitset s2)) \<subseteq> placement_owned s2"
proof -
  have un: "unat n = unat (highest_free_address (meminfo s)) div 4096"
    by (simp add: n_def unat_div)
  have n: "0 < unat n" "unat n \<le> 1048576"
    using hi un by (simp_all add: div_greater_zero_iff)
  then have n0: "0 < n"
    by (simp add: word_gt_0 unat_gt_0)
  obtain a where km: "i386_mem_kmalloc sz s = Inr (a, s\<lparr>meminfo := (meminfo s)\<lparr>kernel_heap_curpos := a + sz\<rparr>\<rparr>)"
    and small: "unat (a + sz) \<le> unat (kernel_heap_start (meminfo s)) + 0x20008"
    and ok1: "placement_ok (s\<lparr>meminfo := (meminfo s)\<lparr>kernel_heap_curpos := a + sz\<rparr>\<rparr>)"
    and owned: "region a sz \<subseteq> placement_owned (s\<lparr>meminfo := (meminfo s)\<lparr>kernel_heap_curpos := a + sz\<rparr>\<rparr>)"
    using frame_bitset_placed [OF ok cur n] unfolding sz_def by blast
  let ?s1 = "s\<lparr>meminfo := (meminfo s)\<lparr>kernel_heap_curpos := a + sz\<rparr>\<rparr>"
  define s2 where "s2 = ?s1\<lparr>i386_mem_frame_bitset := bitset_init a n\<rparr>"
  have inv2: "frame_inv s2" "used_frames s2 = {}"
    using bitset_init_ok [OF n0, of a]
    by (simp_all add: s2_def frame_inv_def used_frames_def n_def PAGE_SIZE_def)
  have map2: "mmap_of bm (meminfo s2) es"
    using map by (simp add: s2_def mmap_of_def)
  have hi2: "unat (highest_free_address (meminfo s2)) \<le> 4294963200"
    using hi by (simp add: s2_def)
  obtain b where b: "i386_mem_init_bitset bm s2 = Inr (s2\<lparr>i386_mem_frame_bitset := b\<rparr>)"
    "bitset_inv b" "bitset_frame b = bitset_frame (bitset_init a n)"
    "bits b = reserved_frames bm (meminfo s2)"
    using mem_init_bitset_spec [OF hi2 map2 inv2(1)] inv2(2) by (auto simp: s2_def)
  have cells: "4 * length (bs_cells b) = unat sz" "bs_start b = a" "bs_length b = n"
    using b(3) bitset_init_ok(4) [OF n0, of a] unat_bitset_bytes [OF n0]
    by (simp_all add: bitset_frame_def bitset_init_def sz_def)
  then have "bitset_bytes b = sz"
    unfolding bitset_bytes_def by (simp only: of_nat_unat ucast_id)
  then show ?thesis
    using km b cells small ok1 inv2(1) owned bitset_init_ok(3) [OF n0, of a]
    by - (rule exI [of _ a], rule exI [of _ "a + sz"], rule exI [of _ ?s1],
        rule exI [of _ "s2\<lparr>i386_mem_frame_bitset := b\<rparr>"],
        simp add: s2_def frame_inv_def used_frames_def placement_ok_def placement_owned_def)
qed

lemma mem_init_ok:
  fixes s :: "'a mem_state_scheme"
  assumes boot: "boot_ok bm header es"
  shows "\<exists>kd s'. i386_mem_init bm header s = Inr (kd, s') \<and>
           kalloc_malloc_real_fn kd = Some i386_mem_kmalloc_real \<and>
           frame_inv s' \<and> used_frames s' = reserved_frames bm (meminfo s') \<and>
           mmap_of bm (meminfo s') es \<and>
           unat (highest_free_address (meminfo s')) = unat (mb_mem_upper (info_at bm header)) * 1024 \<and>
           placement_ok s' \<and>
           region (bs_start (i386_mem_frame_bitset s'))
             (bitset_bytes (i386_mem_frame_bitset s')) \<subseteq> placement_owned s' \<and>
           (\<exists>e. highest_section bm (meminfo s') e \<and> elf_sec (meminfo s') = mb_elf_sec (info_at bm header) \<and>
              kernel_heap_start (meminfo s') = heap_start_after (e + e mod 0x1000)) \<and>
           unat (kernel_heap_curpos (meminfo s')) \<le> unat (kernel_heap_start (meminfo s')) + 0x20008 \<and>
           mem_info_only s s'"
proof -
  define hdr where "hdr = info_at bm header"
  define mi0 where "mi0 = meminfo_header hdr header (meminfo s)"
  obtain e where elf: "i386_elf_sections_read bm mi0 =
      Inr (mi0\<lparr>kernel_reserved_start := section_addr bm mi0 0,
              kernel_reserved_end := e + e mod 0x1000\<rparr>)" and high: "highest_section bm mi0 e"
    using elf_sections_read_spec by blast
  have e: "unat e \<le> 0x30000000"
    using boot high
    by (auto simp: boot_ok_def highest_section_def section_addr_def mi0_def meminfo_header_def
        hdr_def Let_def)
  define hs where "hs = heap_start_after (e + e mod 0x1000)"
  define mi2 where "mi2 = mi0\<lparr>kernel_reserved_start := section_addr bm mi0 0,
     kernel_reserved_end := e + e mod 0x1000, highest_free_address := mem_upper mi0 * 1024,
     kernel_heap_start := hs, kernel_heap_curpos := hs\<rparr>"
  have up: "unat (mem_upper mi0 * 1024) = unat (mb_mem_upper hdr) * 1024"
    "4 < unat (mb_mem_upper hdr)" "unat (mb_mem_upper hdr) \<le> 4194300"
    using boot unat_mult_no_wrap [of "mb_mem_upper hdr" 1024]
    by (simp_all add: boot_ok_def hdr_def mi0_def meminfo_header_def Let_def)
  have ok: "placement_ok (s\<lparr>meminfo := mi2\<rparr>)"
    using heap_start_after_bounds [OF e] by (simp add: placement_ok_def mi2_def hs_def)
  have map: "mmap_of bm mi2 es"
    using boot by (simp add: boot_ok_def mmap_of_def mi2_def mi0_def meminfo_header_def hdr_def Let_def)
  have hi: "unat (highest_free_address mi2) = unat (mb_mem_upper hdr) * 1024"
    using up by (simp add: mi2_def)
  have cur: "kernel_heap_curpos mi2 = kernel_heap_start mi2"
    by (simp add: mi2_def)
  obtain a c s1 s2 where km: "i386_mem_kmalloc (DIV_ROUND_UP (highest_free_address mi2 div 0x1000) 32 * 4)
        (s\<lparr>meminfo := mi2\<rparr>) = Inr (a, s1)"
    and ib: "i386_mem_init_bitset bm
        (s1\<lparr>i386_mem_frame_bitset := bitset_init a (highest_free_address mi2 div 0x1000)\<rparr>) = Inr s2"
    and post: "frame_inv s2" "used_frames s2 = reserved_frames bm (meminfo s2)"
      "meminfo s2 = mi2\<lparr>kernel_heap_curpos := c\<rparr>" "placement_ok s2"
      "region (bs_start (i386_mem_frame_bitset s2))
         (bitset_bytes (i386_mem_frame_bitset s2)) \<subseteq> placement_owned s2"
      "unat c \<le> unat (kernel_heap_start mi2) + 0x20008"
      "mem_info_only s s2"
    using mem_init_frames [OF ok, of bm es] cur hi up map by auto
  have flags: "mb_flags hdr AND bit_at 6 \<noteq> 0" "mb_flags hdr AND bit_at 5 \<noteq> 0"
    using boot by (simp_all add: boot_ok_def hdr_def and_bit_at_eq_0 Let_def)
  have "highest_section bm (meminfo s2) e"
    using high by (simp add: post(3) mi2_def highest_section_def section_addr_def)
  moreover have "elf_sec (meminfo s2) = mb_elf_sec hdr" "kernel_heap_start (meminfo s2) = hs"
    "kernel_heap_start mi2 = hs" "kernel_heap_curpos (meminfo s2) = c"
    by (simp_all add: post(3) mi2_def mi0_def meminfo_header_def)
  moreover have "mmap_of bm (meminfo s2) es" "highest_free_address (meminfo s2) = highest_free_address mi2"
    using map by (simp_all add: post(3) mmap_of_def)
  moreover have "i386_mem_init bm header s =
      Inr (\<lparr>kalloc_malloc_real_fn = Some i386_mem_kmalloc_real, kalloc_free_fn = Some i386_mem_kfree\<rparr>, s2)"
    using flags elf km ib
    by (simp add: i386_mem_init_def hdr_def [symmetric] mi0_def meminfo_header_def mi2_def hs_def
        heap_start_after_def Let_def)
  ultimately show ?thesis
    using post(1,2,4-7) hi
    by (intro exI [of _ "\<lparr>kalloc_malloc_real_fn = Some i386_mem_kmalloc_real, kalloc_free_fn = Some i386_mem_kfree\<rparr>"] exI [of _ s2])
      (simp add: hdr_def hs_def, blast)
qed

section \<open>Runs of allocations\<close>

lemma frame_inv_bitset:
  assumes "frame_inv s" and "bitset_inv b" and "bitset_frame b = bitset_frame (i386_mem_frame_bitset s)"
  shows "frame_inv (s\<lparr>i386_mem_frame_bitset := b\<rparr>)"
  using assms by (simp add: frame_inv_def bitset_frame_def)

lemma finite_free_frames [simp]: "finite (free_frames s)"
  by (simp add: free_frames_def)

fun allocate_frames :: "nat \<Rightarrow> 'a mem_state_scheme \<Rightarrow> (u32 list \<times> 'a mem_state_scheme) res" where
  "allocate_frames 0 s = Inr ([], s)"
| "allocate_frames (Suc n) s =
     bindr (i386_mem_allocate_frame s) (\<lambda>(f, s).
     bindr (allocate_frames n s) (\<lambda>(fs, s). Inr (f # fs, s)))"

lemma allocate_frame_step:
  assumes "frame_inv s" and "free_frames s \<noteq> {}" and "0 \<in> used_frames s"
  shows "\<exists>f s'. i386_mem_allocate_frame s = Inr (f, s') \<and> f \<noteq> 0 \<and> first_free s f \<and>
           frame_inv s' \<and> used_frames s' = insert (unat f) (used_frames s) \<and>
           free_frames s' = free_frames s - {unat f} \<and> meminfo s' = meminfo s"
proof -
  obtain f b where fb: "i386_mem_allocate_frame s = Inr (f, s\<lparr>i386_mem_frame_bitset := b\<rparr>)" "f \<noteq> 0"
    "first_free s f" "bitset_inv b" "bitset_frame b = bitset_frame (i386_mem_frame_bitset s)"
    "bits b = insert (unat f) (used_frames s)"
    using allocate_frame_some [OF assms] by blast
  have "free_frames (s\<lparr>i386_mem_frame_bitset := b\<rparr>) = free_frames s - {unat f}"
    by (auto simp: free_frames_def used_frames_def [of "s\<lparr>i386_mem_frame_bitset := b\<rparr>"]
        frame_limit_def fb(6))
  moreover have "used_frames (s\<lparr>i386_mem_frame_bitset := b\<rparr>) = insert (unat f) (used_frames s)"
    by (simp add: used_frames_def [of "s\<lparr>i386_mem_frame_bitset := b\<rparr>"] fb(6))
  ultimately show ?thesis
    using fb(1-3) frame_inv_bitset [OF assms(1) fb(4,5)]
    by - (rule exI [of _ f], rule exI [of _ "s\<lparr>i386_mem_frame_bitset := b\<rparr>"], simp)
qed

lemma allocate_frames_distinct:
  assumes "frame_inv s" and "0 \<in> used_frames s" and "n \<le> card (free_frames s)"
  shows "\<exists>fs s'. allocate_frames n s = Inr (fs, s') \<and> length fs = n \<and> distinct (map unat fs) \<and>
           set (map unat fs) \<subseteq> free_frames s \<and> frame_inv s' \<and>
           used_frames s' = used_frames s \<union> set (map unat fs) \<and> meminfo s' = meminfo s"
  using assms
proof (induction n arbitrary: s)
  case 0
  then show ?case by simp
next
  case (Suc n)
  have ne: "free_frames s \<noteq> {}"
    using Suc.prems(3) by auto
  obtain f s1 where f: "i386_mem_allocate_frame s = Inr (f, s1)" "first_free s f" "frame_inv s1"
    "used_frames s1 = insert (unat f) (used_frames s)" "free_frames s1 = free_frames s - {unat f}"
    "meminfo s1 = meminfo s"
    using allocate_frame_step [OF Suc.prems(1) ne Suc.prems(2)] by blast
  have mem: "unat f \<in> free_frames s"
    using f(2) by (simp add: first_free_def)
  then have "n \<le> card (free_frames s1)"
    using Suc.prems(3) f(5) by simp
  then obtain fs s2 where fs: "allocate_frames n s1 = Inr (fs, s2)" "length fs = n" "distinct (map unat fs)"
    "set (map unat fs) \<subseteq> free_frames s1" "frame_inv s2"
    "used_frames s2 = used_frames s1 \<union> set (map unat fs)" "meminfo s2 = meminfo s1"
    using Suc.IH [OF f(3)] Suc.prems(2) f(4) by blast
  have "allocate_frames (Suc n) s = Inr (f # fs, s2)"
    using f(1) fs(1) by simp
  moreover have "distinct (map unat (f # fs))"
    using fs(3,4) f(5) by auto
  moreover have "set (map unat (f # fs)) \<subseteq> free_frames s"
    using fs(4) f(5) mem by auto
  moreover have "used_frames s2 = used_frames s \<union> set (map unat (f # fs))"
    using fs(6) f(4) by auto
  ultimately show ?case
    using fs(2,5,7) f(6) by (metis length_Cons)
qed

lemma free_frame_step:
  assumes "frame_inv s" and "unat f \<in> used_frames s"
  shows "\<exists>s'. i386_mem_free_frame f s = Inr s' \<and> frame_inv s' \<and>
           used_frames s' = used_frames s - {unat f} \<and> meminfo s' = meminfo s"
proof -
  have "f < bs_length (i386_mem_frame_bitset s)"
    using assms(2) bs.ones_bound by (auto simp: used_frames_def word_less_nat_alt)
  then obtain b where "bitset_clear_bit (i386_mem_frame_bitset s) f = Inr b" "bitset_inv b"
    "bitset_frame b = bitset_frame (i386_mem_frame_bitset s)"
    "bits b = bits (i386_mem_frame_bitset s) - {unat f}"
    using bs.clear_ok assms(1) frame_inv_def by blast
  then show ?thesis
    using frame_inv_bitset [OF assms(1)]
    by - (rule exI [of _ "s\<lparr>i386_mem_frame_bitset := b\<rparr>"], simp add: i386_mem_free_frame_def used_frames_def)
qed

text \<open>A frame that initialisation left free, the last frame apart.\<close>

lemma not_reserved_frame:
  assumes map: "mmap_of bm mi es" and hi: "unat (highest_free_address mi) \<le> 4294963200"
    and k: "4096 * k + 4096 < unat (highest_free_address mi)" and free: "k \<notin> reserved_frames bm mi"
  shows "0 < k"
    and "\<not> (unat (kernel_reserved_start mi) \<le> 4096 * k \<and> 4096 * k \<le> unat (kernel_reserved_end mi))"
    and "\<not> (unat (multiboot_reserved_start mi) \<le> 4096 * k \<and> 4096 * k \<le> unat (multiboot_reserved_end mi))"
    and "mmap_state es (4096 * k) \<noteq> MEM_RESERVED"
proof -
  define a :: u32 where "a = of_nat (4096 * k)"
  have a: "unat a = 4096 * k"
    using k hi unat_of_nat_u32 [of "4096 * k"] by (simp add: a_def)
  have lt: "4096 * k + 4096 < 4294967296"
    using k hi by linarith
  have "i386_mem_check_reserved bm mi a \<noteq> Some MEM_RESERVED"
    using free k by (simp add: reserved_frames_def a_def)
  note c = this [unfolded i386_mem_check_reserved_def Let_def mmap_check_reserved_spec [OF map lt [folded a]]]
  have e: "unat (a + PAGE_SIZE) = 4096 * k + 4096"
    using lt a unat_add_no_wrap [of a PAGE_SIZE] by (simp add: PAGE_SIZE_def)
  have c': "\<not> a + PAGE_SIZE \<le> 0x1000"
    "\<not> (kernel_reserved_start mi \<le> a \<and> a \<le> kernel_reserved_end mi)"
    "\<not> (multiboot_reserved_start mi \<le> a \<and> a \<le> multiboot_reserved_end mi)"
    "mmap_state es (unat a) \<noteq> MEM_RESERVED"
    using c by (auto split: if_splits)
  show "0 < k"
    using c'(1) e by (simp add: word_le_nat_alt)
  show "\<not> (unat (kernel_reserved_start mi) \<le> 4096 * k \<and> 4096 * k \<le> unat (kernel_reserved_end mi))"
    using c'(2) a by (simp add: word_le_nat_alt)
  show "\<not> (unat (multiboot_reserved_start mi) \<le> 4096 * k \<and> 4096 * k \<le> unat (multiboot_reserved_end mi))"
    using c'(3) a by (simp add: word_le_nat_alt)
  show "mmap_state es (4096 * k) \<noteq> MEM_RESERVED"
    using c'(4) a by simp
qed

section \<open>A small machine\<close>

text \<open>Sixty-four frames, an early heap with a little in use, and a boot image with one memory region.\<close>

definition sample_meminfo :: i386_mem_info where
  "sample_meminfo =
     \<lparr>mboot_header = 0x10000, mmap_length = 24, mmap = 0x9000,
      elf_sec = \<lparr>elf_num = 2, elf_size = 40, elf_addr = 0x8000, elf_shndx = 0\<rparr>,
      kernel_reserved_start = 0x100000, kernel_reserved_end = 0x100000,
      multiboot_reserved_start = 0x10000, multiboot_reserved_end = 0x11e40,
      kernel_heap_start = 0x101000, kernel_heap_curpos = 0x101010,
      mem_lower = 640, mem_upper = 8192, highest_free_address = 0x40000\<rparr>"

definition sample_mem :: mem_state where
  "sample_mem =
     \<lparr>phys_mem = (\<lambda>_. 0), cr3 = 0, paging_on = False, tlb = Map.empty, meminfo = sample_meminfo,
      i386_mem_frame_bitset = \<lparr>bs_length = 64, bs_start = 0x101000, bs_cells = [1, 0]\<rparr>\<rparr>"

lemma sample_mem_frames:
  "frame_inv sample_mem" "used_frames sample_mem = {0}" "free_frames sample_mem = {1..<64}"
proof -
  show "frame_inv sample_mem"
    by (simp add: frame_inv_def bitset_inv_def sample_mem_def sample_meminfo_def PAGE_SIZE_def)
  have "k \<in> used_frames sample_mem \<longleftrightarrow> k = 0" for k
    by (cases "k < 32") (auto simp: used_frames_def in_bits sample_mem_def bit_1_iff nth_Cons split: nat.splits)
  then show u: "used_frames sample_mem = {0}"
    by auto
  show "free_frames sample_mem = {1..<64}"
  proof -
    have "frame_limit sample_mem = 64"
      by (simp add: frame_limit_def sample_mem_def sample_meminfo_def PAGE_SIZE_def)
    then show ?thesis
      by (auto simp: free_frames_def u)
  qed
qed

lemma sample_placement_ok: "placement_ok sample_mem"
  by (simp add: placement_ok_def sample_mem_def sample_meminfo_def)

definition sample_entry :: multiboot_memory_map where
  "sample_entry = \<lparr>mm_size = 20, mm_addr = 0x100000, mm_len = 0x700000, mm_type = 1\<rparr>"

definition sample_boot :: boot_mem where
  "sample_boot =
     \<lparr>info_at = (\<lambda>_. \<lparr>mb_flags = 0x60, mb_mem_lower = 640, mb_mem_upper = 7168, mb_boot_device = 0,
        mb_cmdline = 0, mb_mods_count = 0, mb_mods_addr = 0,
        mb_elf_sec = \<lparr>elf_num = 2, elf_size = 40, elf_addr = 0x8000, elf_shndx = 0\<rparr>,
        mb_mmap_length = 24, mb_mmap_addr = 0x9000\<rparr>),
      mmap_entry_at = (\<lambda>_. sample_entry),
      shdr_at = (\<lambda>_. \<lparr>sh_name = 0, sh_type = 1, sh_flags = 0, sh_addr = 0x100000, sh_offset = 0,
        sh_size = 0x20000, sh_link = 0, sh_info = 0, sh_addralign = 4096, sh_entsize = 0\<rparr>)\<rparr>"

lemma sample_entry_end: "entry_end sample_entry = 0x800000"
  by (simp add: entry_end_def sample_entry_def)

lemma sample_boot_ok: "boot_ok sample_boot 0x10000 [sample_entry]"
proof -
  have "bit (0x60::u32) 6" "bit (0x60::u32) 5"
    by (simp_all add: bit_iff_odd_drop_bit drop_bit_eq_div)
  then show ?thesis
    by (simp add: boot_ok_def sample_boot_def sample_entry_end) (simp add: sample_entry_def)
qed

section \<open>Properties\<close>

text \<open>
  Allocating a frame always returns. When frames are free it gives the lowest one, which is not frame 0,
  marks it used and changes nothing else of the allocator; otherwise it gives 0 and leaves the state alone.
\<close>

theorem allocate_frame_spec:
  assumes "frame_inv s" and "0 \<in> used_frames s"
  shows "\<exists>f s'. i386_mem_allocate_frame s = Inr (f, s') \<and> frame_inv s' \<and>
           (if free_frames s = {} then f = 0 \<and> s' = s
            else f \<noteq> 0 \<and> first_free s f \<and> used_frames s' = insert (unat f) (used_frames s) \<and>
                 meminfo s' = meminfo s)"
proof (cases "free_frames s = {}")
  case True
  then show ?thesis
    using allocate_frame_none [OF assms(1)] assms(1) by simp
next
  case False
  then show ?thesis
    using allocate_frame_step [OF assms(1) False assms(2)] by auto
qed

theorem allocate_frame_spec_witness:
  "\<exists>f s'. i386_mem_allocate_frame sample_mem = Inr (f, s') \<and> unat f = 1 \<and> used_frames s' = {0, 1}"
proof -
  obtain f s' where fs: "i386_mem_allocate_frame sample_mem = Inr (f, s')" "first_free sample_mem f"
    "used_frames s' = insert (unat f) (used_frames sample_mem)"
    using allocate_frame_spec [of sample_mem] by (auto simp: sample_mem_frames)
  moreover have "unat f = 1"
  proof (rule antisym)
    show "unat f \<le> 1"
      using fs(2) unfolding first_free_def sample_mem_frames by (elim conjE bspec) simp
    show "1 \<le> unat f"
      using fs(2) by (simp add: first_free_def sample_mem_frames)
  qed
  ultimately show ?thesis
    by (auto simp: sample_mem_frames)
qed



text \<open>
  C16: Freeing the frame just allocated restores the set of used frames, and the next allocation hands out
  the same frame again.
\<close>

theorem free_frame_roundtrip:
  assumes "frame_inv s" and "0 \<in> used_frames s" and "free_frames s \<noteq> {}"
  shows "\<exists>f s1 s2. i386_mem_allocate_frame s = Inr (f, s1) \<and> i386_mem_free_frame f s1 = Inr s2 \<and>
           frame_inv s2 \<and> used_frames s2 = used_frames s \<and>
           (\<exists>s3. i386_mem_allocate_frame s2 = Inr (f, s3))"
proof -
  obtain f s1 where f: "i386_mem_allocate_frame s = Inr (f, s1)" "first_free s f" "frame_inv s1"
    "used_frames s1 = insert (unat f) (used_frames s)" "meminfo s1 = meminfo s"
    using allocate_frame_step [OF assms(1,3,2)] by blast
  obtain s2 where s2: "i386_mem_free_frame f s1 = Inr s2" "frame_inv s2"
    "used_frames s2 = used_frames s1 - {unat f}" "meminfo s2 = meminfo s1"
    using free_frame_step [OF f(3)] f(4) by blast
  have used: "used_frames s2 = used_frames s"
    using s2(3) f(2,4) by (auto simp: first_free_def free_frames_def)
  have free: "free_frames s2 = free_frames s"
    using used s2(4) f(5) by (simp add: free_frames_def frame_limit_def)
  obtain g s3 where g: "i386_mem_allocate_frame s2 = Inr (g, s3)" "first_free s2 g"
    using allocate_frame_step [OF s2(2)] free used assms(2,3) by metis
  have "unat g = unat f"
    using g(2) f(2) unfolding first_free_def free by (meson le_antisym)
  then show ?thesis
    using f(1) s2(1,2) used g(1) by (metis word_unat_eq_iff)
qed

theorem free_frame_roundtrip_witness:
  "\<exists>f s1 s2. i386_mem_allocate_frame sample_mem = Inr (f, s1) \<and>
     i386_mem_free_frame f s1 = Inr s2 \<and> used_frames s2 = {0}"
  using free_frame_roundtrip [of sample_mem] by (auto simp: sample_mem_frames)



text \<open>
  A critical request that fits is placed at the current position rounded up to the alignment asked for
  and ends inside the early heap, without wrap-around; every other request gives 0 and changes nothing.
\<close>

theorem kmalloc_real_spec:
  assumes "placement_ok s" and "unat sz \<le> 0x40000000"
  shows "if bit flags 0 \<and> placement_fits sz s
    then \<exists>a. i386_mem_kmalloc_real sz phys flags s =
           Inr ((a, if phys then Some a else None),
                s\<lparr>meminfo := (meminfo s)\<lparr>kernel_heap_curpos := a + sz\<rparr>\<rparr>) \<and> a \<noteq> 0 \<and>
         unat a = round_up (alignment flags) (unat (kernel_heap_curpos (meminfo s))) \<and>
         unat (a + sz) = unat a + unat sz \<and>
         unat a + unat sz \<le> unat (kernel_heap_start (meminfo s)) + 0x50000
    else i386_mem_kmalloc_real sz phys flags s = Inr ((0, None), s)"
proof (cases "bit flags 0 \<and> placement_fits sz s")
  case True
  then show ?thesis
    using kmalloc_real_success [OF assms(1), of sz flags phys] assms(2)
    by (simp only: placement_request_def if_True simp_thms) blast
next
  case False
  then show ?thesis
    using kmalloc_real_failure [OF assms(1), of sz flags phys] assms(2)
    by (simp only: placement_request_def if_False simp_thms) blast
qed

theorem kmalloc_real_spec_witness:
  "\<exists>a. i386_mem_kmalloc_real 0x1000 True 5 sample_mem =
     Inr ((a, Some a), sample_mem\<lparr>meminfo := (meminfo sample_mem)\<lparr>kernel_heap_curpos := a + 0x1000\<rparr>\<rparr>) \<and>
     unat a = 0x102000"
proof -
  have b: "bit (5::u32) 0" "bit (5::u32) 2"
    by (simp_all add: bit_iff_odd_drop_bit drop_bit_eq_div)
  have "placement_fits 0x1000 sample_mem"
    by (simp add: placement_fits_def sample_mem_def sample_meminfo_def)
  then show ?thesis
    using kmalloc_real_spec [OF sample_placement_ok, of "0x1000" 5 True] b
    by (auto simp: alignment_def sample_mem_def sample_meminfo_def round_up_def)
qed



text \<open>
  Initialisation on a well-formed boot image returns with the early allocator installed, a frame bitset
  whose one bits are exactly the frames the reservation check rejects, stored inside the early heap.
\<close>

theorem mem_init_marks_reserved:
  fixes s :: "'a mem_state_scheme"
  assumes "boot_ok bm header es"
  shows "\<exists>kd s'. i386_mem_init bm header s = Inr (kd, s') \<and>
           kalloc_malloc_real_fn kd = Some i386_mem_kmalloc_real \<and> placement_ok s' \<and>
           frame_inv s' \<and> used_frames s' = reserved_frames bm (meminfo s') \<and>
           unat (highest_free_address (meminfo s')) = unat (mb_mem_upper (info_at bm header)) * 1024 \<and>
           region (bs_start (i386_mem_frame_bitset s'))
             (bitset_bytes (i386_mem_frame_bitset s')) \<subseteq> placement_owned s'"
  using mem_init_ok [OF assms, of s] by blast

theorem mem_init_marks_reserved_witness:
  "\<exists>kd s'. i386_mem_init sample_boot 0x10000 sample_mem = Inr (kd, s') \<and>
     used_frames s' = reserved_frames sample_boot (meminfo s') \<and>
     unat (highest_free_address (meminfo s')) = 0x700000"
  using mem_init_marks_reserved [OF sample_boot_ok, of sample_mem] by (auto simp: sample_boot_def)



end
