(* ===== verification/Isr.thy ===== *)
theory Isr
  imports Prelude
begin

text \<open>
  The table of exception handlers of \<^verbatim>\<open>kernel/arch/i386/isr.c\<close> and the dispatch through it.
\<close>

text \<open>The registers an interrupt stub saves on the stack.\<close>

record i386_registers =
  r_gs :: u32
  r_fs :: u32
  r_es :: u32
  r_ds :: u32
  r_edi :: u32
  r_esi :: u32
  r_ebp :: u32
  r_esp :: u32
  r_ebx :: u32
  r_edx :: u32
  r_ecx :: u32
  r_eax :: u32
  int_no :: u32
  err_code :: u32
  r_eip :: u32
  r_cs :: u32
  r_eflags :: u32
  r_useresp :: u32
  r_ss :: u32

text \<open>
  \<open>'h\<close> is the type of handler functions; \<open>None\<close> is the NULL pointer. The table has 32 entries.
\<close>

definition isr_routines_init :: "'h option list" where
  "isr_routines_init = replicate 32 None"

definition isr_install_handler :: "u32 \<Rightarrow> 'h \<Rightarrow> 'h option list \<Rightarrow> 'h option list res" where
  "isr_install_handler isr handler routines =
     (if unat isr < length routines then Inr (routines[unat isr := Some handler])
      else Inl Wild_access)"

end
