(* ===== verification/Kpaging.thy ===== *)
theory Kpaging
  imports Machine
begin

text \<open>
  The kernel's paging interface, \<^verbatim>\<open>kernel/mm/paging.c\<close> and \<^verbatim>\<open>kernel/include/mm/paging.h\<close>: a table of
  function pointers that the architecture installs and the wrappers that call through it, with the
  contract that clients rely on.
\<close>

definition KPAGE_PRESENT :: u32 where "KPAGE_PRESENT = 1"
definition KPAGE_RW :: u32 where "KPAGE_RW = 2"
definition KPAGE_USER :: u32 where "KPAGE_USER = 4"
definition KPAGE_WRITETHROUGH :: u32 where "KPAGE_WRITETHROUGH = 8"

text \<open>\<open>None\<close> is the NULL function pointer.\<close>

record 's kpaging_interface =
  kpage_allocate_fn :: "(uintptr_t \<Rightarrow> u32 \<Rightarrow> 's \<Rightarrow> (k_return_t \<times> 's) res) option"
  kpage_free_fn :: "(uintptr_t \<Rightarrow> 's \<Rightarrow> (k_return_t \<times> 's) res) option"
  kpage_identity_map_fn :: "(uintptr_t \<Rightarrow> u32 \<Rightarrow> 's \<Rightarrow> (k_return_t \<times> 's) res) option"
  kpage_get_phys_fn :: "(uintptr_t \<Rightarrow> 's \<Rightarrow> (uintptr_t \<times> 's) res) option"

definition kpage_allocate ::
  "'s kpaging_interface \<Rightarrow> uintptr_t \<Rightarrow> u32 \<Rightarrow> 's \<Rightarrow> (k_return_t \<times> 's) res" where
  "kpage_allocate iface addr flags s =
     (case kpage_allocate_fn iface of
        None \<Rightarrow> Inl (Assert_failed ''kpaging_data.interface->kpage_allocate'')
      | Some f \<Rightarrow> f addr flags s)"

definition kpage_free :: "'s kpaging_interface \<Rightarrow> uintptr_t \<Rightarrow> 's \<Rightarrow> (k_return_t \<times> 's) res" where
  "kpage_free iface addr s =
     (case kpage_free_fn iface of
        None \<Rightarrow> Inl (Assert_failed ''kpaging_data.interface->kpage_free'')
      | Some f \<Rightarrow> f addr s)"

definition kpage_identity_map ::
  "'s kpaging_interface \<Rightarrow> uintptr_t \<Rightarrow> u32 \<Rightarrow> 's \<Rightarrow> (k_return_t \<times> 's) res" where
  "kpage_identity_map iface addr flags s =
     (case kpage_identity_map_fn iface of
        None \<Rightarrow> Inl (Assert_failed ''kpaging_data.interface->kpage_identity_map'')
      | Some f \<Rightarrow> f addr flags s)"

definition kpage_get_phys :: "'s kpaging_interface \<Rightarrow> uintptr_t \<Rightarrow> 's \<Rightarrow> (uintptr_t \<times> 's) res" where
  "kpage_get_phys iface addr s =
     (case kpage_get_phys_fn iface of
        None \<Rightarrow> Inl (Assert_failed ''kpaging_data.interface->kpage_get_phys'')
      | Some f \<Rightarrow> f addr s)"

section \<open>The contract\<close>

text \<open>
  \<open>mapping\<close> is the translation of page numbers that clients see, \<open>rest\<close> what page operations leave
  alone, \<open>usable\<close> the addresses clients may map, \<open>spare\<close> the number of frames left. Mapping a page
  takes a frame that no page uses, or fails and changes nothing a client sees.
\<close>

locale page_mapper =
  fixes allocate :: "uintptr_t \<Rightarrow> u32 \<Rightarrow> 's \<Rightarrow> (k_return_t \<times> 's) res"
    and release :: "uintptr_t \<Rightarrow> 's \<Rightarrow> (k_return_t \<times> 's) res"
    and get_phys :: "uintptr_t \<Rightarrow> 's \<Rightarrow> (uintptr_t \<times> 's) res"
    and ok :: "'s \<Rightarrow> bool"
    and mapping :: "'s \<Rightarrow> u32 \<rightharpoonup> u32"
    and rest :: "'s \<Rightarrow> 'r"
    and usable :: "'r \<Rightarrow> uintptr_t \<Rightarrow> bool"
    and flags_ok :: "u32 \<Rightarrow> bool"
    and spare :: "'s \<Rightarrow> nat"
  assumes allocate_ok: "ok s \<Longrightarrow> usable (rest s) a \<Longrightarrow> flags_ok fl \<Longrightarrow> mapping s (a div PAGE_SIZE) = None \<Longrightarrow>
      \<exists>r s'. allocate a fl s = Inr (r, s') \<and> ok s' \<and> rest s' = rest s \<and>
        (if r = K_SUCCESS
         then spare s' < spare s \<and> spare s \<le> spare s' + 2 \<and>
              (\<exists>f. f \<notin> ran (mapping s) \<and> mapping s' = (mapping s)(a div PAGE_SIZE \<mapsto> f))
         else r = K_OOM \<and> spare s < 2 \<and> spare s' = spare s \<and> mapping s' = mapping s)"
    and release_ok: "ok s \<Longrightarrow> usable (rest s) a \<Longrightarrow> mapping s (a div PAGE_SIZE) = Some f \<Longrightarrow>
      \<exists>s'. release a s = Inr (K_SUCCESS, s') \<and> ok s' \<and> rest s' = rest s \<and>
        spare s' = Suc (spare s) \<and> mapping s' = (mapping s)(a div PAGE_SIZE := None)"
    and get_phys_ok: "ok s \<Longrightarrow> usable (rest s) a \<Longrightarrow>
      \<exists>s'. get_phys a s = Inr (case mapping s (a div PAGE_SIZE) of None \<Rightarrow> 0 | Some f \<Rightarrow> f, s') \<and>
        ok s' \<and> rest s' = rest s \<and> spare s' = spare s \<and> mapping s' = mapping s"
begin

text \<open>Mapping a page and releasing it again gives back the translation of before.\<close>

lemma allocate_release:
  assumes "ok s" and "usable (rest s) a" and "flags_ok fl" and "mapping s (a div PAGE_SIZE) = None"
    and "2 \<le> spare s"
  shows "\<exists>s1 s2. allocate a fl s = Inr (K_SUCCESS, s1) \<and> release a s1 = Inr (K_SUCCESS, s2) \<and>
           ok s2 \<and> mapping s2 = mapping s"
proof -
  obtain r s1 where a: "allocate a fl s = Inr (r, s1)" "ok s1" "rest s1 = rest s"
    "if r = K_SUCCESS then spare s1 < spare s \<and> spare s \<le> spare s1 + 2 \<and>
              (\<exists>f. f \<notin> ran (mapping s) \<and> mapping s1 = (mapping s)(a div PAGE_SIZE \<mapsto> f))
     else r = K_OOM \<and> spare s < 2 \<and> spare s1 = spare s \<and> mapping s1 = mapping s"
    using allocate_ok [OF assms(1-4)] by blast
  then obtain f where f: "r = K_SUCCESS" "mapping s1 = (mapping s)(a div PAGE_SIZE \<mapsto> f)"
    using assms(5) by (auto split: if_splits)
  obtain s2 where "release a s1 = Inr (K_SUCCESS, s2)" "ok s2" "mapping s2 = (mapping s1)(a div PAGE_SIZE := None)"
    using release_ok [OF a(2), of a f] assms(2) a(3) f(2) by auto
  then show ?thesis
    using a(1) f assms(4) by (auto simp: fun_upd_idem)
qed

end

end
