(* ===== verification/I386_Paging.thy ===== *)
theory I386_Paging
  imports I386_Mem Isr Kpaging
begin

text \<open>
  Paging, \<^verbatim>\<open>kernel/arch/i386/paging.c\<close>: page directories and tables in physical memory, reached
  through one movable virtual page (the window) once paging is on.
\<close>

section \<open>Flags, data and state\<close>

definition PT_PRESENT :: u32 where "PT_PRESENT = 1"
definition PT_RW :: u32 where "PT_RW = 2"
definition PT_USER :: u32 where "PT_USER = 4"
definition PT_WRITETHROUGH :: u32 where "PT_WRITETHROUGH = 8"

definition PD_PRESENT :: u32 where "PD_PRESENT = 1"
definition PD_RW :: u32 where "PD_RW = 2"
definition PD_USER :: u32 where "PD_USER = 4"
definition PD_WRITETHROUGH :: u32 where "PD_WRITETHROUGH = 8"
definition PD_DISABLECACHE :: u32 where "PD_DISABLECACHE = 16"

text \<open>\<open>page_directory\<close> is the physical address of the directory.\<close>

record i386_mmu_data =
  page_directory :: u32

text \<open>\<open>kpaging_data_t\<close> of \<^verbatim>\<open>kernel/include/mm/paging.h\<close>, without the function table.\<close>

record kpaging_data =
  kp_kernel_start :: uintptr_t
  kp_kernel_end :: uintptr_t
  kp_highest_page :: uintptr_t
  kp_page_size :: u32
  kp_mem_total :: size_t

datatype isr_handler = I386_page_fault_handler

record paging_state = mem_state +
  i386_kernel_mmu_data :: i386_mmu_data
  WINDOW_PAGE :: u32
  early_init_done :: bool
  kpaging_data :: kpaging_data
  isr_routines :: "isr_handler option list"

section \<open>Reaching a paging structure\<close>

text \<open>\<open>TABLE_IN_DIR(table, dir)\<close> reads entry \<open>table\<close> through the pointer \<open>dir\<close>.\<close>

definition TABLE_IN_DIR :: "u32 \<Rightarrow> u32 \<Rightarrow> 'a machine_scheme \<Rightarrow> (u32 \<times> 'a machine_scheme) res" where
  "TABLE_IN_DIR table dir s = bindr (load32 (dir + 4 * table) s) (\<lambda>(e, s). Inr (e AND 0xFFFFF000, s))"

definition get_virt_ptr ::
  "u32 \<Rightarrow> 'a paging_state_scheme \<Rightarrow> (u32 \<times> 'a paging_state_scheme) res" where
  "get_virt_ptr phys_addr s =
     bindr (ASSERT (phys_addr mod 0x1000 = 0) ''phys_addr % 0x1000 == 0'') (\<lambda>_.
     if \<not> early_init_done s then Inr (phys_addr, s)
     else let page_index = WINDOW_PAGE s div PAGE_SIZE;
              table_index = page_index div 1024;
              page_index_in_table = page_index mod 1024
          in bindr (TABLE_IN_DIR table_index (page_directory (i386_kernel_mmu_data s)) s) (\<lambda>(t, s).
             bindr (store32 (t + 4 * page_index_in_table)
                      (phys_addr OR PT_PRESENT OR PT_RW) s) (\<lambda>s.
             Inr (WINDOW_PAGE s, invlpg (WINDOW_PAGE s) s))))"

text \<open>\<open>phys_out\<close> is written on success only, and then is the second component.\<close>

definition allocate_page_table ::
  "'a paging_state_scheme kalloc_interface \<Rightarrow> 'a paging_state_scheme \<Rightarrow>
     ((k_return_t \<times> u32) \<times> 'a paging_state_scheme) res" where
  "allocate_page_table kd s =
     (if early_init_done s
      then bindr (i386_mem_allocate_frame s) (\<lambda>(frame, s).
           if frame = 0 then Inr ((K_OOM, 0), s)
           else bindr (get_virt_ptr (frame * PAGE_SIZE) s) (\<lambda>(virt, s).
                bindr (memset32 virt PT_RW 1024 s) (\<lambda>s.
                Inr ((K_SUCCESS, frame * PAGE_SIZE), s))))
      else bindr (kmalloc_ap kd PAGE_SIZE True KALLOC_CRITICAL s) (\<lambda>((virt, phys), s).
           if virt = 0 then Inr ((K_OOM, 0), s)
           else bindr (memset32 virt PT_RW 1024 s) (\<lambda>s.
                case phys of
                  None \<Rightarrow> Inl Wild_access
                | Some phys \<Rightarrow> Inr ((K_SUCCESS, phys), s))))"

section \<open>Operations on pages\<close>

definition i386_page_get_phys ::
  "i386_mmu_data \<Rightarrow> u32 \<Rightarrow> 'a paging_state_scheme \<Rightarrow> (u32 \<times> 'a paging_state_scheme) res" where
  "i386_page_get_phys this address s =
     (let page_index = address div PAGE_SIZE;
          table_index = page_index div 1024;
          page_index_in_table = page_index mod 1024
      in bindr (get_virt_ptr (page_directory this) s) (\<lambda>(pd_virt, s).
         bindr (load32 (pd_virt + 4 * table_index) s) (\<lambda>(pde, s).
         if pde AND PD_PRESENT = 0 then Inr (0, s)
         else bindr (TABLE_IN_DIR table_index (page_directory this) s) (\<lambda>(t, s).
              bindr (get_virt_ptr t s) (\<lambda>(pt_virt, s).
              bindr (load32 (pt_virt + 4 * page_index_in_table) s) (\<lambda>(page, s).
              if page AND PT_PRESENT = 0 then Inr (0, s)
              else Inr (page AND 0xFFFFF000, s)))))))"

text \<open>The common prefix of \<open>i386_allocate_page\<close> and \<open>i386_identity_map_page\<close>: make sure the table exists.\<close>

definition ensure_table ::
  "'a paging_state_scheme kalloc_interface \<Rightarrow> i386_mmu_data \<Rightarrow> u32 \<Rightarrow> u32 \<Rightarrow>
     'a paging_state_scheme \<Rightarrow> ((k_return_t \<times> u32) \<times> 'a paging_state_scheme) res" where
  "ensure_table kd this table_index pd_flags s =
     bindr (get_virt_ptr (page_directory this) s) (\<lambda>(pd_virt, s).
     bindr (load32 (pd_virt + 4 * table_index) s) (\<lambda>(pde, s).
     if pde AND PD_PRESENT = 0
     then bindr (allocate_page_table kd s) (\<lambda>((ret, pt_phys), s).
          if K_FAILED ret then Inr ((ret, pd_virt), s)
          else bindr (get_virt_ptr (page_directory this) s) (\<lambda>(pd_virt, s).
               bindr (store32 (pd_virt + 4 * table_index) (pt_phys OR pd_flags) s) (\<lambda>s.
               Inr ((K_SUCCESS, pd_virt), s))))
     else Inr ((K_SUCCESS, pd_virt), s)))"

text \<open>The result code and, on success, what is stored through \<open>out\<close>.\<close>

definition i386_allocate_page ::
  "'a paging_state_scheme kalloc_interface \<Rightarrow> i386_mmu_data \<Rightarrow> u32 \<Rightarrow> u32 \<Rightarrow> u32 \<Rightarrow>
     'a paging_state_scheme \<Rightarrow> ((k_return_t \<times> u32 option) \<times> 'a paging_state_scheme) res" where
  "i386_allocate_page kd this address pt_flags pd_flags s =
     bindr (ASSERT (address mod PAGE_SIZE = 0) ''address % PAGE_SIZE == 0'') (\<lambda>_.
     let page_index = address div PAGE_SIZE;
         table_index = page_index div 1024;
         page_index_in_table = page_index mod 1024
     in bindr (i386_mem_allocate_frame s) (\<lambda>(frame, s).
        if frame = 0 then Inr ((K_OOM, None), s)
        else bindr (ensure_table kd this table_index pd_flags s) (\<lambda>((ret, pd_virt), s).
             if K_FAILED ret
             then bindr (i386_mem_free_frame frame s) (\<lambda>s. Inr ((ret, None), s))
             else bindr (TABLE_IN_DIR table_index pd_virt s) (\<lambda>(t, s).
                  bindr (get_virt_ptr t s) (\<lambda>(pt_virt, s).
                  let page = (frame * PAGE_SIZE) OR pt_flags
                  in bindr (store32 (pt_virt + 4 * page_index_in_table) page s) (\<lambda>s.
                     Inr ((K_SUCCESS, Some (page AND 0xFFFFF000)), s)))))))"

definition i386_free_page ::
  "i386_mmu_data \<Rightarrow> u32 \<Rightarrow> 'a paging_state_scheme \<Rightarrow> (k_return_t \<times> 'a paging_state_scheme) res" where
  "i386_free_page this address s =
     bindr (ASSERT (address mod PAGE_SIZE = 0) ''address % PAGE_SIZE == 0'') (\<lambda>_.
     let page_index = address div PAGE_SIZE;
         table_index = page_index div 1024;
         page_index_in_table = page_index mod 1024
     in bindr (get_virt_ptr (page_directory this) s) (\<lambda>(pd_virt, s).
        bindr (load32 (pd_virt + 4 * table_index) s) (\<lambda>(pde, s).
        if pde AND PD_PRESENT = 0 then Inr (K_INVALOP, s)
        else bindr (TABLE_IN_DIR table_index pd_virt s) (\<lambda>(t, s).
             bindr (get_virt_ptr t s) (\<lambda>(pt_virt, s).
             bindr (load32 (pt_virt + 4 * page_index_in_table) s) (\<lambda>(page, s).
             bindr (store32 (pt_virt + 4 * page_index_in_table) PT_RW s) (\<lambda>s.
             bindr (bitset_clear_bit (i386_mem_frame_bitset s) (page div PAGE_SIZE)) (\<lambda>b.
             Inr (K_SUCCESS, invlpg address (s\<lparr>i386_mem_frame_bitset := b\<rparr>))))))))))"

text \<open>On failure the result is the (non-zero) result code, as in the source.\<close>

definition i386_identity_map_page ::
  "'a paging_state_scheme kalloc_interface \<Rightarrow> i386_mmu_data \<Rightarrow> u32 \<Rightarrow> u32 \<Rightarrow> u32 \<Rightarrow>
     'a paging_state_scheme \<Rightarrow> (u32 \<times> 'a paging_state_scheme) res" where
  "i386_identity_map_page kd this address pt_flags pd_flags s =
     bindr (ASSERT (address mod PAGE_SIZE = 0) ''address % PAGE_SIZE == 0'') (\<lambda>_.
     let page_index = address div PAGE_SIZE;
         table_index = page_index div 1024;
         page_index_in_table = page_index mod 1024
     in bindr (ensure_table kd this table_index pd_flags s) (\<lambda>((ret, pd_virt), s).
        if K_FAILED ret then Inr (ret, s)
        else bindr (TABLE_IN_DIR table_index pd_virt s) (\<lambda>(t, s).
             bindr (get_virt_ptr t s) (\<lambda>(pt_virt, s).
             let page = (page_index * PAGE_SIZE) OR pt_flags
             in bindr (store32 (pt_virt + 4 * page_index_in_table) page s) (\<lambda>s.
                bindr (bitset_set_bit (i386_mem_frame_bitset s) page_index) (\<lambda>b.
                Inr (page, s\<lparr>i386_mem_frame_bitset := b\<rparr>)))))))"

section \<open>Initialisation\<close>

definition i386_mmu_data_init ::
  "'a paging_state_scheme kalloc_interface \<Rightarrow> i386_mmu_data \<Rightarrow> 'a paging_state_scheme \<Rightarrow>
     ((k_return_t \<times> i386_mmu_data) \<times> 'a paging_state_scheme) res" where
  "i386_mmu_data_init kd this s =
     bindr (kmalloc_a kd (4 * 1024) KALLOC_CRITICAL s) (\<lambda>(tmp, s).
     if tmp = 0 then Inr ((K_OOM, this), s)
     else bindr (memset32 tmp PD_RW 1024 s) (\<lambda>s.
          Inr ((K_SUCCESS, this\<lparr>page_directory := tmp\<rparr>), s)))"

text \<open>
  The loop \<^verbatim>\<open>for (i = 0; i < KVIRT_RESERVED; i += 0x1000)\<close> counts pages here; its second test,
  \<^verbatim>\<open>i > KVIRT_RESERVED\<close>, cannot hold inside it. The results of the mappings are not looked at.
\<close>

definition identity_map_reserved ::
  "'a paging_state_scheme kalloc_interface \<Rightarrow> 'a paging_state_scheme \<Rightarrow> 'a paging_state_scheme res" where
  "identity_map_reserved kd s =
     for_loop 0 (KVIRT_RESERVED div 0x1000)
       (\<lambda>k s. bindr (i386_identity_map_page kd (i386_kernel_mmu_data s) (k * 0x1000)
                       (PT_PRESENT OR PT_RW) (PD_PRESENT OR PD_RW) s) (\<lambda>(_, s). Inr s)) s"

definition i386_paging_init ::
  "'a paging_state_scheme kalloc_interface \<Rightarrow> 'a paging_state_scheme \<Rightarrow> 'a paging_state_scheme res" where
  "i386_paging_init kd s =
     bindr (i386_mmu_data_init kd (i386_kernel_mmu_data s) s) (\<lambda>((ret, mmu), s).
     if K_FAILED ret
     then PANIC ''Unable to allocate kernel mmu data! Not enough RAM?''
     else
       bindr (identity_map_reserved kd (s\<lparr>i386_kernel_mmu_data := mmu\<rparr>)) (\<lambda>s.
       bindr (isr_install_handler 14 I386_page_fault_handler (isr_routines s)) (\<lambda>routines.
       let s = enable_paging (load_page_dir (page_directory (i386_kernel_mmu_data s))
                 (s\<lparr>isr_routines := routines\<rparr>));
           highest_page = kernel_heap_start (meminfo s) + EARLY_HEAP_MAXSIZE;
           s = s\<lparr>kpaging_data := (kpaging_data s)\<lparr>
                    kp_kernel_start := kernel_reserved_start (meminfo s),
                    kp_kernel_end := kernel_heap_curpos (meminfo s),
                    kp_highest_page := highest_page\<rparr>\<rparr>
       in bindr (ASSERT (highest_page + PAGE_SIZE \<le> KVIRT_RESERVED)
                   ''kpaging_data.highest_page + PAGE_SIZE <= KVIRT_RESERVED'') (\<lambda>_.
          Inr (s\<lparr>WINDOW_PAGE := highest_page + PAGE_SIZE,
                 kpaging_data := (kpaging_data s)\<lparr>
                    kp_page_size := PAGE_SIZE,
                    kp_mem_total := mem_lower (meminfo s) + mem_upper (meminfo s)\<rparr>,
                 early_init_done := True\<rparr>)))))"

section \<open>The kernel's paging interface\<close>

definition i386_kpage_allocate ::
  "'a paging_state_scheme kalloc_interface \<Rightarrow> uintptr_t \<Rightarrow> u32 \<Rightarrow> 'a paging_state_scheme \<Rightarrow>
     (k_return_t \<times> 'a paging_state_scheme) res" where
  "i386_kpage_allocate kd addr flags s =
     bindr (i386_allocate_page kd (i386_kernel_mmu_data s) addr flags flags s)
       (\<lambda>((ret, _), s). Inr (ret, s))"

definition i386_kpage_free ::
  "uintptr_t \<Rightarrow> 'a paging_state_scheme \<Rightarrow> (k_return_t \<times> 'a paging_state_scheme) res" where
  "i386_kpage_free addr s = i386_free_page (i386_kernel_mmu_data s) addr s"

definition i386_kpage_identity_map ::
  "'a paging_state_scheme kalloc_interface \<Rightarrow> uintptr_t \<Rightarrow> u32 \<Rightarrow> 'a paging_state_scheme \<Rightarrow>
     (k_return_t \<times> 'a paging_state_scheme) res" where
  "i386_kpage_identity_map kd addr flags s =
     bindr (i386_identity_map_page kd (i386_kernel_mmu_data s) addr flags flags s)
       (\<lambda>(tmp, s). Inr (if tmp \<noteq> 0 then K_SUCCESS else K_OOM, s))"

definition i386_kpage_get_phys ::
  "uintptr_t \<Rightarrow> 'a paging_state_scheme \<Rightarrow> (uintptr_t \<times> 'a paging_state_scheme) res" where
  "i386_kpage_get_phys addr s = i386_page_get_phys (i386_kernel_mmu_data s) addr s"

text \<open>The table of functions that \<open>i386_paging_init\<close> installs.\<close>

definition i386_paging_interface ::
  "'a paging_state_scheme kalloc_interface \<Rightarrow> 'a paging_state_scheme kpaging_interface" where
  "i386_paging_interface kd =
     \<lparr>kpage_allocate_fn = Some (i386_kpage_allocate kd),
      kpage_free_fn = Some i386_kpage_free,
      kpage_identity_map_fn = Some (i386_kpage_identity_map kd),
      kpage_get_phys_fn = Some i386_kpage_get_phys\<rparr>"

end
