(* ===== verification/Asa.thy ===== *)
theory Asa
  imports Bitset Kalloc
begin

text \<open>
  The allocator of kernel virtual addresses, \<^verbatim>\<open>kernel/mm/asa.c\<close>: a bitset over the pages of the
  kernel's address space, searched first fit.
\<close>

record kasa_data =
  asa_pages :: bitset
  asa_page_size :: u32

text \<open>\<open>kd\<close> is the installed allocation interface.\<close>

definition asa_init ::
  "'s kalloc_interface \<Rightarrow> u32 \<Rightarrow> kasa_data \<Rightarrow> 's \<Rightarrow> ((k_return_t \<times> kasa_data) \<times> 's) res" where
  "asa_init kd page_size ka s =
     (let ka = ka\<lparr>asa_page_size := page_size\<rparr>
      in bindr (udiv KVIRT_MAX (asa_page_size ka)) (\<lambda>n_entries.
         bindr (kmalloc kd (DIV_ROUND_UP n_entries 32 * 4) KALLOC_CRITICAL s) (\<lambda>(bitset_start, s).
         if bitset_start = 0 then Inr ((K_OOM, ka), s)
         else bindr (udiv KVIRT_RESERVED (asa_page_size ka)) (\<lambda>max_page.
              bindr (for_loop 0 max_page (\<lambda>i b. bitset_set_bit b i) (bitset_init bitset_start n_entries)) (\<lambda>b.
              Inr ((K_SUCCESS, ka\<lparr>asa_pages := b\<rparr>), s))))))"

text \<open>
  One iteration of the search, whose locals are \<open>first_free\<close> and \<open>continuous_pages\<close>; the early
  exit carries the address and the updated bitset.
\<close>

definition asa_search_step ::
  "u32 \<Rightarrow> kasa_data \<Rightarrow> u32 \<Rightarrow> u32 \<times> u32 \<Rightarrow> (u32 \<times> u32, uintptr_t \<times> kasa_data) ctl res" where
  "asa_search_step n_pages ka i = (\<lambda>(first_free, continuous_pages).
     bindr (bitset_get_bit (asa_pages ka) i) (\<lambda>v.
     if v = 0 then
       let first_free = (if continuous_pages = 0 then i else first_free);
           continuous_pages = continuous_pages + 1
       in if continuous_pages = n_pages then
            bindr (for_loop first_free (first_free + continuous_pages)
                     (\<lambda>j b. bitset_set_bit b j) (asa_pages ka)) (\<lambda>b.
            Inr (Ret (first_free * asa_page_size ka, ka\<lparr>asa_pages := b\<rparr>)))
          else Inr (Next (first_free, continuous_pages))
     else Inr (Next (first_free, 0))))"

definition asa_alloc :: "u32 \<Rightarrow> kasa_data \<Rightarrow> (uintptr_t \<times> kasa_data) res" where
  "asa_alloc n_pages ka =
     bindr (for_ret 0 (bs_length (asa_pages ka)) (asa_search_step n_pages ka) (0, 0))
       (\<lambda>c. case c of Next _ \<Rightarrow> Inr (0, ka) | Ret r \<Rightarrow> Inr r)"

definition asa_free :: "uintptr_t \<Rightarrow> u32 \<Rightarrow> kasa_data \<Rightarrow> (k_return_t \<times> kasa_data) res" where
  "asa_free addr n_pages ka =
     bindr (udiv addr (asa_page_size ka)) (\<lambda>start.
     bindr (for_loop start n_pages (\<lambda>i b. bitset_clear_bit b i) (asa_pages ka)) (\<lambda>b.
     Inr (K_SUCCESS, ka\<lparr>asa_pages := b\<rparr>)))"

section \<open>First fit\<close>

definition asa_used :: "kasa_data \<Rightarrow> nat set" where
  "asa_used ka = bits (asa_pages ka)"

text \<open>The bitset is well formed and every page lies below 4 GiB.\<close>

definition asa_inv :: "kasa_data \<Rightarrow> bool" where
  "asa_inv ka \<longleftrightarrow> bitset_inv (asa_pages ka) \<and> asa_page_size ka \<noteq> 0 \<and>
     unat (bs_length (asa_pages ka)) * unat (asa_page_size ka) < 4294967296"

text \<open>\<open>n\<close> free pages from page \<open>f\<close> on.\<close>

definition free_run :: "kasa_data \<Rightarrow> nat \<Rightarrow> nat \<Rightarrow> bool" where
  "free_run ka n f \<longleftrightarrow> f + n \<le> unat (bs_length (asa_pages ka)) \<and> {f..<f + n} \<inter> asa_used ka = {}"

text \<open>
  The search at index \<open>i\<close>: the last \<open>c\<close> pages are free, the one before them is not, and no run
  long enough ends before \<open>i\<close>.
\<close>

definition search_inv :: "kasa_data \<Rightarrow> u32 \<Rightarrow> u32 \<Rightarrow> u32 \<times> u32 \<Rightarrow> bool" where
  "search_inv ka n i st \<longleftrightarrow> (case st of (ff, c) \<Rightarrow>
     unat c \<le> unat i \<and> unat c < unat n \<and> (c \<noteq> 0 \<longrightarrow> unat ff = unat i - unat c) \<and>
     {unat i - unat c..<unat i} \<inter> asa_used ka = {} \<and>
     (unat c < unat i \<longrightarrow> unat i - unat c - 1 \<in> asa_used ka) \<and>
     (\<forall>f. f + unat n \<le> unat i \<longrightarrow> \<not> free_run ka (unat n) f))"

text \<open>A run that ends at \<open>i + 1\<close> lies within the free pages seen last.\<close>

lemma run_ends:
  assumes "search_inv ka n i (ff, c)" and "free_run ka (unat n) f" and "f + unat n = Suc (unat i)"
  shows "unat n = Suc (unat c)" and "unat i \<notin> asa_used ka"
proof -
  note s = assms(1) [unfolded search_inv_def, simplified]
  have r: "{f..<Suc (unat i)} \<inter> asa_used ka = {}"
    using assms(2,3) by (simp add: free_run_def)
  have fi: "f \<le> unat i"
    using s assms(3) by linarith
  then show "unat i \<notin> asa_used ka"
    using r by auto
  have "\<not> (f \<le> unat i - unat c - 1 \<and> unat c < unat i)"
    using r s by force
  then show "unat n = Suc (unat c)"
    using s assms(3) fi by linarith
qed

lemma search_used:
  assumes s: "search_inv ka n i (ff, c)" and i: "i < bs_length (asa_pages ka)" and used: "unat i \<in> asa_used ka"
  shows "search_inv ka n (i + 1) (ff, 0)"
proof -
  have "\<not> free_run ka (unat n) f" if "f + unat n \<le> unat (i + 1)" for f
    using that s used run_ends(2) [OF s, of f]
    by (cases "f + unat n \<le> unat i") (auto simp: search_inv_def unat_suc_less [OF i] le_Suc_eq)
  moreover have "0 < unat n"
    using s by (simp add: search_inv_def)
  ultimately show ?thesis
    using used by (simp add: search_inv_def unat_suc_less [OF i])
qed

lemma search_free:
  assumes s: "search_inv ka n i (ff, c)" and i: "i < bs_length (asa_pages ka)" and free: "unat i \<notin> asa_used ka"
    and more: "c + 1 \<noteq> n"
  shows "search_inv ka n (i + 1) (if c = 0 then i else ff, c + 1)"
proof -
  note s' = s [unfolded search_inv_def, simplified]
  have c: "unat (c + 1) = Suc (unat c)"
    using unat_suc_less [of c n] s' by (simp add: word_less_nat_alt)
  have "\<not> free_run ka (unat n) f" if "f + unat n \<le> unat (i + 1)" for f
    using that s' more run_ends(1) [OF s, of f] c
    by (cases "f + unat n \<le> unat i") (auto simp: unat_suc_less [OF i] le_Suc_eq word_unat_eq_iff)
  moreover have "unat (c + 1) < unat n"
    using s' more c by (metis Suc_leI le_neq_implies_less word_unat_eq_iff)
  moreover have "{unat i - unat c..<Suc (unat i)} \<inter> asa_used ka = {}"
    using s' free by (auto simp: less_Suc_eq)
  moreover have "c \<noteq> 0 \<longrightarrow> unat ff = unat i - unat c"
    using s' by blast
  ultimately show ?thesis
    using s' by (auto simp: search_inv_def unat_suc_less [OF i] c)
qed

text \<open>The run found is the lowest one.\<close>

lemma search_found:
  assumes s: "search_inv ka n i (ff, c)" and i: "i < bs_length (asa_pages ka)" and free: "unat i \<notin> asa_used ka"
    and full: "c + 1 = n"
  defines "g \<equiv> if c = 0 then i else ff"
  shows "unat (g + n) = unat g + unat n" and "free_run ka (unat n) (unat g)"
    and "free_run ka (unat n) f \<Longrightarrow> unat g \<le> f"
proof -
  note s' = s [unfolded search_inv_def, simplified]
  have n: "unat n = Suc (unat c)"
    using unat_suc_less [of c n] s' full by (simp add: word_less_nat_alt)
  have g: "unat g = unat i - unat c" "unat c \<le> unat i"
    using s' by (auto simp: g_def)
  have i': "unat i < unat (bs_length (asa_pages ka))"
    using i by (simp add: word_less_nat_alt)
  have "unat g + unat n < 4294967296"
    using g n i' unat_u32_less [of "bs_length (asa_pages ka)"] by linarith
  then show "unat (g + n) = unat g + unat n"
    by (rule unat_add_no_wrap)
  have "{unat i - unat c..<Suc (unat i)} \<inter> asa_used ka = {}"
    using s' free by (auto simp: less_Suc_eq)
  then show "free_run ka (unat n) (unat g)"
    using g n i' by (simp add: free_run_def)
  show "unat g \<le> f" if "free_run ka (unat n) f"
  proof (rule ccontr)
    assume "\<not> unat g \<le> f"
    then have "f + unat n \<le> unat i"
      using g n by linarith
    then show False
      using s' that by blast
  qed
qed

text \<open>The outcome of a successful search: the lowest free run, marked.\<close>

definition asa_found :: "kasa_data \<Rightarrow> u32 \<Rightarrow> uintptr_t \<times> kasa_data \<Rightarrow> bool" where
  "asa_found ka n r \<longleftrightarrow> (\<exists>g b. r = (g * asa_page_size ka, ka\<lparr>asa_pages := b\<rparr>) \<and>
     free_run ka (unat n) (unat g) \<and> (\<forall>f. free_run ka (unat n) f \<longrightarrow> unat g \<le> f) \<and>
     bitset_inv b \<and> bitset_frame b = bitset_frame (asa_pages ka) \<and>
     bits b = asa_used ka \<union> {unat g..<unat g + unat n})"

lemma asa_search_step_ok:
  assumes inv: "asa_inv ka" and i: "i < bs_length (asa_pages ka)" and s: "search_inv ka n i (ff, c)"
  shows "(\<exists>st. asa_search_step n ka i (ff, c) = Inr (Next st) \<and> search_inv ka n (i + 1) st) \<or>
         (\<exists>r. asa_search_step n ka i (ff, c) = Inr (Ret r) \<and> asa_found ka n r)"
proof -
  have bi: "bitset_inv (asa_pages ka)"
    using inv by (simp add: asa_inv_def)
  obtain v where v: "bitset_get_bit (asa_pages ka) i = Inr v" "v \<noteq> 0 \<longleftrightarrow> unat i \<in> asa_used ka"
    using bs.get_ok [OF bi i] by (auto simp: asa_used_def)
  consider (used) "unat i \<in> asa_used ka" | (grow) "unat i \<notin> asa_used ka" "c + 1 \<noteq> n"
    | (found) "unat i \<notin> asa_used ka" "c + 1 = n"
    by blast
  then show ?thesis
  proof cases
    case used
    then show ?thesis
      using v search_used [OF s i] by (simp add: asa_search_step_def)
  next
    case grow
    then show ?thesis
      using v search_free [OF s i] by (simp add: asa_search_step_def Let_def)
  next
    case found
    define g where "g = (if c = 0 then i else ff)"
    note g = search_found [OF s i found, folded g_def]
    have "g \<le> g + n" "g + n \<le> bs_length (asa_pages ka)"
      using g(1,2) by (simp_all add: word_le_nat_alt free_run_def)
    then obtain b where b: "for_loop g (g + n) (\<lambda>i b. bitset_set_bit b i) (asa_pages ka) = Inr b" "bitset_inv b"
      "bitset_frame b = bitset_frame (asa_pages ka)" "bits b = bits (asa_pages ka) \<union> {unat g..<unat (g + n)}"
      using bs.set_range [OF bi] by blast
    then have "asa_found ka n (g * asa_page_size ka, ka\<lparr>asa_pages := b\<rparr>)"
      using g unfolding asa_found_def asa_used_def by auto
    then show ?thesis
      using v found b(1) by (simp add: asa_search_step_def Let_def g_def [symmetric])
  qed
qed

lemma asa_alloc_ok:
  assumes inv: "asa_inv ka" and n: "n \<noteq> 0"
  shows "(\<exists>r. asa_alloc n ka = Inr r \<and> asa_found ka n r) \<or>
         (asa_alloc n ka = Inr (0, ka) \<and> (\<forall>f. \<not> free_run ka (unat n) f))"
proof -
  let ?len = "bs_length (asa_pages ka)"
  have "(\<exists>st. for_ret 0 ?len (asa_search_step n ka) (0, 0) = Inr (Next st) \<and> search_inv ka n ?len st) \<or>
        (\<exists>r. for_ret 0 ?len (asa_search_step n ka) (0, 0) = Inr (Ret r) \<and> asa_found ka n r)"
  proof (rule for_ret_rule [where I = "search_inv ka n"])
    show "search_inv ka n 0 (0, 0)"
      using n unat_gt_0 [of n] by (auto simp: search_inv_def)
  next
    fix i and st :: "u32 \<times> u32"
    assume "i < ?len" "search_inv ka n i st"
    then show "(\<exists>st'. asa_search_step n ka i st = Inr (Next st') \<and> search_inv ka n (i + 1) st') \<or>
        (\<exists>r. asa_search_step n ka i st = Inr (Ret r) \<and> asa_found ka n r)"
      using asa_search_step_ok [OF inv] by (cases st) blast
  qed simp
  then show ?thesis
  proof
    assume "\<exists>st. for_ret 0 ?len (asa_search_step n ka) (0, 0) = Inr (Next st) \<and> search_inv ka n ?len st"
    then show ?thesis
      by (auto simp: asa_alloc_def search_inv_def free_run_def split: prod.splits)
  next
    assume "\<exists>r. for_ret 0 ?len (asa_search_step n ka) (0, 0) = Inr (Ret r) \<and> asa_found ka n r"
    then show ?thesis
      by (auto simp: asa_alloc_def)
  qed
qed

text \<open>What the caller gets: an address inside the managed space, and the pages behind it.\<close>

lemma asa_foundD:
  assumes inv: "asa_inv ka" and "asa_found ka n (a, ka')"
  shows "asa_inv ka'" "asa_page_size ka' = asa_page_size ka"
    "bs_length (asa_pages ka') = bs_length (asa_pages ka)"
    "\<exists>g. unat a = g * unat (asa_page_size ka) \<and> free_run ka (unat n) g \<and>
       (\<forall>f. free_run ka (unat n) f \<longrightarrow> g \<le> f) \<and> asa_used ka' = asa_used ka \<union> {g..<g + unat n}"
proof -
  obtain g b where r: "a = g * asa_page_size ka" "ka' = ka\<lparr>asa_pages := b\<rparr>" "free_run ka (unat n) (unat g)"
    "\<forall>f. free_run ka (unat n) f \<longrightarrow> unat g \<le> f" "bitset_inv b" "bitset_frame b = bitset_frame (asa_pages ka)"
    "bits b = asa_used ka \<union> {unat g..<unat g + unat n}"
    using assms(2) by (auto simp: asa_found_def)
  have "unat g * unat (asa_page_size ka) \<le> unat (bs_length (asa_pages ka)) * unat (asa_page_size ka)"
    using r(3) by (simp add: free_run_def)
  also have "\<dots> < 4294967296"
    using inv by (simp add: asa_inv_def)
  finally have "unat a = unat g * unat (asa_page_size ka)"
    unfolding r(1) by (rule unat_mult_no_wrap)
  then show "\<exists>g. unat a = g * unat (asa_page_size ka) \<and> free_run ka (unat n) g \<and>
       (\<forall>f. free_run ka (unat n) f \<longrightarrow> g \<le> f) \<and> asa_used ka' = asa_used ka \<union> {g..<g + unat n}"
    using r by (auto simp: asa_used_def)
  show "bs_length (asa_pages ka') = bs_length (asa_pages ka)" "asa_page_size ka' = asa_page_size ka" "asa_inv ka'"
    using inv r by (auto simp: asa_inv_def bitset_frame_def)
qed

section \<open>Initialisation and release\<close>

lemma asa_init_ok:
  assumes ps: "unat page_size \<noteq> 0" "unat page_size \<le> 0x17c000"
    and mem: "kmalloc kd (DIV_ROUND_UP (KVIRT_MAX div page_size) 32 * 4) KALLOC_CRITICAL s = Inr (a, s')" "a \<noteq> 0"
  shows "\<exists>ka'. asa_init kd page_size ka s = Inr ((K_SUCCESS, ka'), s') \<and> asa_inv ka' \<and>
           asa_page_size ka' = page_size \<and> bs_start (asa_pages ka') = a \<and>
           unat (bs_length (asa_pages ka')) = 0x3FFFFFFF div unat page_size \<and>
           asa_used ka' = {..<0x17c000 div unat page_size}"
proof -
  let ?n = "KVIRT_MAX div page_size" and ?m = "KVIRT_RESERVED div page_size"
  have u: "unat ?n = 0x3FFFFFFF div unat page_size" "unat ?m = 0x17c000 div unat page_size"
    by (simp_all add: KVIRT_MAX_def KVIRT_RESERVED_def unat_div)
  have nz: "page_size \<noteq> 0"
    using ps(1) by auto
  have "1 \<le> 0x3FFFFFFF div unat page_size"
    using ps div_le_mono2 [of "unat page_size" "0x17c000" "0x3FFFFFFF"] by (simp add: div_greater_zero_iff Suc_le_eq)
  then have n: "0 < ?n" and le: "?m \<le> ?n"
    using u div_le_mono [of "0x17c000" "0x3FFFFFFF" "unat page_size"] by (simp_all add: word_less_nat_alt word_le_nat_alt)
  note init = bitset_init_ok [OF n, of a]
  obtain b where b: "for_loop 0 ?m (\<lambda>i b. bitset_set_bit b i) (bitset_init a ?n) = Inr b" "bitset_inv b"
    "bitset_frame b = bitset_frame (bitset_init a ?n)" "bits b = {..<unat ?m}"
    using bs.set_range [OF init(1), of 0 ?m] le init(2,3) by (auto simp: atLeast0LessThan)
  have fr: "bs_length b = ?n" "bs_start b = a"
    using b(3) init(3) by (simp_all add: bitset_frame_def) (simp add: bitset_init_def)
  have "0x3FFFFFFF div unat page_size * unat page_size \<le> 0x3FFFFFFF"
    by (rule div_times_less_eq_dividend)
  then have "unat ?n * unat page_size < 4294967296"
    unfolding u by linarith
  then show ?thesis
    using mem b fr nz u
    by (intro exI [of _ "ka\<lparr>asa_page_size := page_size, asa_pages := b\<rparr>"])
      (simp add: asa_init_def Let_def asa_inv_def asa_used_def)
qed

lemma asa_free_ok:
  assumes inv: "asa_inv ka" and "start \<le> n" and "n \<le> bs_length (asa_pages ka)"
    and "addr div asa_page_size ka = start"
  shows "\<exists>ka'. asa_free addr n ka = Inr (K_SUCCESS, ka') \<and> asa_inv ka' \<and>
           asa_page_size ka' = asa_page_size ka \<and> asa_used ka' = asa_used ka - {unat start..<unat n}"
proof -
  have bi: "bitset_inv (asa_pages ka)" and nz: "asa_page_size ka \<noteq> 0"
    using inv by (simp_all add: asa_inv_def)
  obtain b where b: "for_loop start n (\<lambda>i b. bitset_clear_bit b i) (asa_pages ka) = Inr b" "bitset_inv b"
    "bitset_frame b = bitset_frame (asa_pages ka)" "bits b = bits (asa_pages ka) - {unat start..<unat n}"
    using bs.clear_range [OF bi assms(2,3)] by blast
  then show ?thesis
    using inv nz assms(4)
    by (intro exI [of _ "ka\<lparr>asa_pages := b\<rparr>"]) (simp add: asa_free_def asa_inv_def asa_used_def bitset_frame_def)
qed

section \<open>Properties\<close>

text \<open>Sixty-four pages of 64 KiB, the first twenty-four taken.\<close>

definition sample_asa :: kasa_data where
  "sample_asa = \<lparr>asa_pages = \<lparr>bs_length = 64, bs_start = 0x102000, bs_cells = [0x00FFFFFF, 0]\<rparr>,
     asa_page_size = 0x10000\<rparr>"

lemma sample_asa_ok: "asa_inv sample_asa" "asa_used sample_asa = {..<24}"
proof -
  show "asa_inv sample_asa"
    by (simp add: asa_inv_def sample_asa_def bitset_inv_def)
  have b: "bit (0x00FFFFFF :: u32) k \<longleftrightarrow> k < 24" for k
  proof -
    have "(0x00FFFFFF :: u32) = mask 24"
      by (simp add: mask_eq_exp_minus_1)
    then show ?thesis
      by (simp only: bit_mask_iff) auto
  qed
  have "k \<in> asa_used sample_asa \<longleftrightarrow> k < 24" for k
  proof (cases "k < 32")
    case True
    then show ?thesis
      using b [of k] by (simp add: asa_used_def in_bits sample_asa_def)
  next
    case False
    then show ?thesis
      by (cases "k < 64") (simp_all add: asa_used_def in_bits sample_asa_def nth_Cons' div_less_iff_less_mult)
  qed
  then show "asa_used sample_asa = {..<24}"
    by auto
qed

text \<open>
  C20: Asking for pages returns. If some run of that many free pages exists, the result is the
  address of the lowest such run, without wrap-around, and exactly its pages become used; otherwise
  the result is NULL and nothing changes.
\<close>

theorem asa_alloc_first_fit:
  assumes "asa_inv ka" and "n \<noteq> 0"
  shows "\<exists>a ka'. asa_alloc n ka = Inr (a, ka') \<and> asa_inv ka' \<and>
           (if \<exists>f. free_run ka (unat n) f
            then \<exists>g. unat a = g * unat (asa_page_size ka) \<and> free_run ka (unat n) g \<and>
                   (\<forall>f. free_run ka (unat n) f \<longrightarrow> g \<le> f) \<and>
                   asa_used ka' = asa_used ka \<union> {g..<g + unat n}
            else a = 0 \<and> ka' = ka)"
proof -
  consider (found) r where "asa_alloc n ka = Inr r" "asa_found ka n r"
    | (none) "asa_alloc n ka = Inr (0, ka)" "\<forall>f. \<not> free_run ka (unat n) f"
    using asa_alloc_ok [OF assms] by blast
  then show ?thesis
  proof cases
    case found
    obtain a ka' where r: "r = (a, ka')"
      by force
    note f = asa_foundD [OF assms(1) found(2) [unfolded r]]
    show ?thesis
      using found(1) f(1,4) by (auto simp: r)
  next
    case none
    then show ?thesis
      using assms(1) by simp
  qed
qed

theorem asa_alloc_first_fit_witness:
  "\<exists>a ka'. asa_alloc 5 sample_asa = Inr (a, ka') \<and> unat a = 24 * 0x10000 \<and> asa_used ka' = {..<29}"
proof -
  have run: "free_run sample_asa 5 f \<longleftrightarrow> 24 \<le> f \<and> f \<le> 59" for f
  proof -
    have "f \<in> {f..<f + 5}"
      by simp
    then have "{f..<f + 5} \<inter> {..<24} = {} \<longleftrightarrow> 24 \<le> f"
      by (metis atLeastLessThan_iff disjoint_iff lessThan_iff linorder_not_less order.strict_trans2)
    then show ?thesis
      by (auto simp: free_run_def sample_asa_ok) (auto simp: sample_asa_def)
  qed
  have five: "(5 :: u32) \<noteq> 0" "unat (5 :: u32) = 5"
    by simp_all
  obtain a ka' where "asa_alloc 5 sample_asa = Inr (a, ka')"
    and r: "if \<exists>f. free_run sample_asa 5 f
            then \<exists>g. unat a = g * unat (asa_page_size sample_asa) \<and> free_run sample_asa 5 g \<and>
                   (\<forall>f. free_run sample_asa 5 f \<longrightarrow> g \<le> f) \<and>
                   asa_used ka' = asa_used sample_asa \<union> {g..<g + 5}
            else a = 0 \<and> ka' = sample_asa"
    using asa_alloc_first_fit [OF sample_asa_ok(1) five(1), unfolded five(2)] by blast
  moreover have "\<exists>f. free_run sample_asa 5 f"
    unfolding run by (rule exI [of _ 24]) simp
  ultimately obtain g where g: "unat a = g * unat (asa_page_size sample_asa)" "free_run sample_asa 5 g"
    "\<forall>f. free_run sample_asa 5 f \<longrightarrow> g \<le> f" "asa_used ka' = asa_used sample_asa \<union> {g..<g + 5}"
    by auto
  have "g = 24"
    using g(2) g(3) [rule_format, of 24] by (simp add: run)
  then have "unat a = 24 * 0x10000" and "asa_used ka' = {..<24} \<union> {24..<24 + 5}"
    using g(1,4) by (simp_all add: sample_asa_ok) (simp add: sample_asa_def)
  moreover have "{..<24} \<union> {24..<24 + 5} = {..<29 :: nat}"
    by auto
  ultimately show ?thesis
    using \<open>asa_alloc 5 sample_asa = Inr (a, ka')\<close> by blast
qed

text \<open>
  Initialisation with the pages of the machine, when its memory request is granted, gives a
  well-formed allocator over the whole kernel address space in which exactly the pages of the
  reserved memory are taken.
\<close>

theorem asa_init_reserves:
  assumes "unat page_size \<noteq> 0" and "unat page_size \<le> 0x17c000"
    and "kmalloc kd (DIV_ROUND_UP (KVIRT_MAX div page_size) 32 * 4) KALLOC_CRITICAL s = Inr (a, s')" and "a \<noteq> 0"
  shows "\<exists>ka'. asa_init kd page_size ka s = Inr ((K_SUCCESS, ka'), s') \<and> asa_inv ka' \<and>
           unat (bs_length (asa_pages ka')) = 0x3FFFFFFF div unat page_size \<and>
           asa_used ka' = {..<0x17c000 div unat page_size}"
  using asa_init_ok [OF assms] by blast

theorem asa_init_reserves_witness:
  "\<exists>ka'. asa_init \<lparr>kalloc_malloc_real_fn = Some (\<lambda>sz ph fl s. Inr ((0x102000, None), s)),
       kalloc_free_fn = None\<rparr> 0x1000 sample_asa () = Inr ((K_SUCCESS, ka'), ()) \<and>
     asa_used ka' = {..<0x17c}"
  using asa_init_reserves [of "0x1000" "\<lparr>kalloc_malloc_real_fn = Some (\<lambda>sz ph fl s. Inr ((0x102000, None), s)),
       kalloc_free_fn = None\<rparr>" "()" "0x102000" "()" sample_asa]
  by (auto simp: kmalloc_def call_malloc_def)

text \<open>
  Giving pages back does nothing when their first page number is not below their count: the
  loop runs from the first page to the count instead of to the end of the run. Pages from the
  dynamic part of the address space are therefore never reused unless the run is very long.
\<close>

theorem asa_free_leaks:
  assumes "asa_page_size ka \<noteq> 0" and "n \<le> addr div asa_page_size ka"
  shows "asa_free addr n ka = Inr (K_SUCCESS, ka)"
  using assms by (simp add: asa_free_def)

theorem asa_free_leaks_witness:
  "asa_free 0x180000 5 sample_asa = Inr (K_SUCCESS, sample_asa)"
  using asa_free_leaks [of sample_asa 5 "0x180000"] by (simp add: sample_asa_def)

end
