(* ===== verification/Kheap.thy ===== *)
theory Kheap
  imports I386_Paging Asa
begin

text \<open>
  The kernel heap, \<^verbatim>\<open>kernel/mm/heap.c\<close>: a linked list of blocks of mapped pages. Each block starts
  with a header and two bitsets over its sections of equal size, one for the sections in use and one
  that marks the last section of every allocation.

  Block headers are kept in a typed store indexed by address: the header that the kernel finds at
  the address of a block. The bitsets own their cells (theory Bitset), and the contents of the
  allocations themselves are not modelled.
\<close>

section \<open>Data\<close>

definition MIN_BLOCK_SIZE_DEFAULT :: u32 where "MIN_BLOCK_SIZE_DEFAULT = 0x100000"
definition SECTION_SIZE_DEFAULT :: u32 where "SECTION_SIZE_DEFAULT = 0x10"
definition KHEAP_AUTO_EXPAND :: u32 where "KHEAP_AUTO_EXPAND = 1"

text \<open>The header of a block (without \<open>KHEAP_DEBUG\<close>), and its size in bytes.\<close>

record kheap_block =
  kb_next :: uintptr_t
  kb_block_size :: size_t
  kb_section_size :: u32
  kb_first_free_section :: u32
  kb_free_sections :: size_t
  kb_start :: uintptr_t
  kb_used_sections :: bitset
  kb_delimiters :: bitset

definition sizeof_kheap_block :: u32 where "sizeof_kheap_block = 40"

record kheap =
  kh_first :: uintptr_t
  kh_default_section_size :: u32
  kh_min_block_size :: u32
  kh_flags :: u32
  kh_effective_size :: size_t
  kh_total_free_sections :: size_t

record heap_state = paging_state +
  kasa_data :: kasa_data
  kheap_default :: kheap
  kheap_blocks :: "uintptr_t \<rightharpoonup> kheap_block"

text \<open>Reading and writing a header through a pointer.\<close>

definition block_read :: "uintptr_t \<Rightarrow> 'a heap_state_scheme \<Rightarrow> kheap_block res" where
  "block_read p s = (case kheap_blocks s p of None \<Rightarrow> Inl Wild_access | Some b \<Rightarrow> Inr b)"

definition block_write :: "uintptr_t \<Rightarrow> kheap_block \<Rightarrow> 'a heap_state_scheme \<Rightarrow> 'a heap_state_scheme" where
  "block_write p b s = s\<lparr>kheap_blocks := (kheap_blocks s)(p \<mapsto> b)\<rparr>"

text \<open>\<open>DIV_ROUND_UP\<close> by a divisor that is not a constant.\<close>

definition div_round_up :: "u32 \<Rightarrow> u32 \<Rightarrow> u32 res" where
  "div_round_up a b = bindr (udiv (a - 1) b) (\<lambda>q. Inr (q + 1))"

section \<open>Initialisation\<close>

definition kheap_init :: "u32 \<Rightarrow> u32 \<Rightarrow> u32 \<Rightarrow> kheap" where
  "kheap_init default_section_size min_block_size flags =
     \<lparr>kh_first = 0, kh_default_section_size = default_section_size, kh_min_block_size = min_block_size,
      kh_flags = flags, kh_effective_size = 0, kh_total_free_sections = 0\<rparr>"

section \<open>Growing the heap\<close>

definition kheap_add_block ::
  "kheap \<Rightarrow> uintptr_t \<Rightarrow> size_t \<Rightarrow> u32 \<Rightarrow> 'a heap_state_scheme \<Rightarrow> (kheap \<times> 'a heap_state_scheme) res" where
  "kheap_add_block heap addr block_size section_size s =
     bindr (ASSERT (addr mod 0x1000 = 0) ''addr % 0x1000 == 0'') (\<lambda>_.
     bindr (ASSERT (section_size \<ge> 4) ''section_size >= 4'') (\<lambda>_.
     let bytes_per_int = section_size * 32
     in bindr (div_round_up block_size bytes_per_int) (\<lambda>num_int_required.
        let bitset_size = num_int_required * 4
        in bindr (div_round_up block_size section_size) (\<lambda>bitset_length.
           let used_bitset_start = addr + sizeof_kheap_block;
               delimiter_bitset_start = addr + sizeof_kheap_block + bitset_size
           in bindr (ASSERT (block_size > sizeof_kheap_block + bitset_size * 2)
                       ''block_size > sizeof(kheap_block_t) + (bitset_size*2)'') (\<lambda>_.
              bindr (div_round_up (sizeof_kheap_block + bitset_size * 2) section_size) (\<lambda>reserved.
              bindr (for_loop 0 reserved (\<lambda>i b. bitset_set_bit b i)
                       (bitset_init used_bitset_start bitset_length)) (\<lambda>used.
              let block = \<lparr>kb_next = kh_first heap, kb_block_size = block_size,
                           kb_section_size = section_size, kb_first_free_section = reserved,
                           kb_free_sections = bitset_length - reserved, kb_start = addr,
                           kb_used_sections = used,
                           kb_delimiters = bitset_init delimiter_bitset_start bitset_length\<rparr>
              in Inr (heap\<lparr>kh_first := addr,
                           kh_total_free_sections := kh_total_free_sections heap + (bitset_length - reserved),
                           kh_effective_size := kh_effective_size heap +
                             (block_size - sizeof_kheap_block + bitset_size * 2)\<rparr>,
                      block_write addr block s))))))))"

text \<open>The number of pages a block of \<open>size\<close> usable bytes takes: the loop with its stale \<open>bitset_size\<close>.\<close>

partial_function (option) expand_pages :: "u32 \<Rightarrow> size_t \<Rightarrow> u32 \<Rightarrow> u32 \<Rightarrow> u32 option" where
  "expand_pages page_size sz pages_required bitset_size =
     (if pages_required * page_size - sizeof_kheap_block - bitset_size * 2 < sz
      then expand_pages page_size sz (pages_required + 1)
             (DIV_ROUND_UP (pages_required * page_size) (SECTION_SIZE_DEFAULT * 32) * 4)
      else Some pages_required)"

text \<open>\<^verbatim>\<open>while (i-- > 0) kpage_free(block_location + (i * page_size))\<close>\<close>

fun unmap_pages ::
  "'s kpaging_interface \<Rightarrow> uintptr_t \<Rightarrow> u32 \<Rightarrow> nat \<Rightarrow> 's \<Rightarrow> 's res" where
  "unmap_pages iface block_location page_size 0 s = Inr s"
| "unmap_pages iface block_location page_size (Suc i) s =
     bindr (kpage_free iface (block_location + of_nat i * page_size) s) (\<lambda>(_, s).
       unmap_pages iface block_location page_size i s)"

text \<open>The mapping loop; it leaves with the number of pages mapped so far when a page fails.\<close>

definition map_pages ::
  "'s kpaging_interface \<Rightarrow> uintptr_t \<Rightarrow> u32 \<Rightarrow> u32 \<Rightarrow> 's \<Rightarrow> ('s, u32 \<times> 's) ctl res" where
  "map_pages iface block_location page_size pages_required s =
     for_ret 0 pages_required
       (\<lambda>i s. bindr (kpage_allocate iface (block_location + i * page_size) (KPAGE_PRESENT OR KPAGE_RW) s)
          (\<lambda>(ret, s). if K_FAILED ret then Inr (Ret (i, s)) else Inr (Next s))) s"

definition kheap_expand ::
  "'a heap_state_scheme kpaging_interface \<Rightarrow> kheap \<Rightarrow> size_t \<Rightarrow> 'a heap_state_scheme \<Rightarrow>
     ((k_return_t \<times> kheap) \<times> 'a heap_state_scheme) res" where
  "kheap_expand iface heap sz s =
     (let page_size = kp_page_size (kpaging_data s)
      in bindr (div_round_up sz page_size) (\<lambda>pages_required.
         let block_size = pages_required * page_size;
             bitset_size = DIV_ROUND_UP block_size (SECTION_SIZE_DEFAULT * 32) * 4
         in bindr (or_diverge (map_option Inr (expand_pages page_size sz pages_required bitset_size)))
              (\<lambda>pages_required.
            let block_size = pages_required * page_size
            in bindr (asa_alloc pages_required (kasa_data s)) (\<lambda>(block_location, ka).
               let s = s\<lparr>kasa_data := ka\<rparr>
               in if block_location = 0 then Inr ((K_OOM, heap), s)
                  else bindr (map_pages iface block_location page_size pages_required s) (\<lambda>c. case c of
                     Ret (i, s) \<Rightarrow>
                       bindr (asa_free block_location pages_required (kasa_data s)) (\<lambda>(_, ka).
                       bindr (unmap_pages iface block_location page_size (unat i) (s\<lparr>kasa_data := ka\<rparr>)) (\<lambda>s.
                       Inr ((K_OOM, heap), s)))
                   | Next s \<Rightarrow>
                       bindr (kheap_add_block heap block_location block_size (kh_default_section_size heap) s)
                         (\<lambda>(heap, s). Inr ((K_SUCCESS, heap), s)))))))"

section \<open>Allocation\<close>

text \<open>
  The scan of a block for \<open>n_sec\<close> free sections in a row, from the first free section on and wrapping
  around; the early exit carries the first section of the run.
\<close>

definition block_scan_step ::
  "kheap_block \<Rightarrow> u32 \<Rightarrow> u32 \<Rightarrow> u32 \<times> u32 \<Rightarrow> (u32 \<times> u32, u32) ctl res" where
  "block_scan_step cur n_sec k = (\<lambda>(first_free, continuous_pages).
     bindr (umod (kb_first_free_section cur + k) (bs_length (kb_used_sections cur))) (\<lambda>i.
     bindr (bitset_get_bit (kb_used_sections cur) i) (\<lambda>v.
     if v = 0 then
       let (first_free, continuous_pages) =
             (if i < first_free then (first_free, 0)
              else if continuous_pages = 0 then (i, continuous_pages)
              else (first_free, continuous_pages));
           continuous_pages = continuous_pages + 1
       in if continuous_pages = n_sec then Inr (Ret first_free)
          else Inr (Next (first_free, continuous_pages))
     else Inr (Next (first_free, 0)))))"

definition block_scan :: "kheap_block \<Rightarrow> u32 \<Rightarrow> (u32 \<times> u32, u32) ctl res" where
  "block_scan cur n_sec =
     for_ret 0 (bs_length (kb_used_sections cur)) (block_scan_step cur n_sec) (0, 0)"

text \<open>Marking the sections from \<open>j\<close> to \<open>stop\<close>, whole cells at once where possible.\<close>

partial_function (option) mark_sections :: "u32 \<Rightarrow> u32 \<Rightarrow> bitset \<Rightarrow> bitset res option" where
  "mark_sections j stop b =
     (if j < stop then
        if j mod 32 = 0 \<and> j + 32 < stop then
          (case cell_write b (j div 32) 0xFFFFFFFF of
             Inl e \<Rightarrow> Some (Inl e)
           | Inr b' \<Rightarrow> mark_sections (j + 32) stop b')
        else
          (case bitset_set_bit b j of
             Inl e \<Rightarrow> Some (Inl e)
           | Inr b' \<Rightarrow> mark_sections (j + 1) stop b')
      else Some (Inr b))"

text \<open>Taking the run that the scan found.\<close>

definition block_take ::
  "kheap_block \<Rightarrow> u32 \<Rightarrow> u32 \<Rightarrow> kheap_block res" where
  "block_take cur start n_sec =
     bindr (or_diverge (mark_sections start (start + n_sec) (kb_used_sections cur))) (\<lambda>used.
     bindr (bitset_set_bit (kb_delimiters cur) (start + n_sec - 1)) (\<lambda>delims.
     Inr (cur\<lparr>kb_used_sections := used, kb_delimiters := delims,
              kb_free_sections := kb_free_sections cur - n_sec,
              kb_first_free_section := start + n_sec\<rparr>)))"

text \<open>
  One block of the list, at address \<open>p\<close>: \<open>Some\<close> address when the request is served from it. The
  request is skipped when the block is too small or has too few free sections.
\<close>

definition kheap_try_block ::
  "kheap \<Rightarrow> size_t \<Rightarrow> size_t \<Rightarrow> bool \<Rightarrow> uintptr_t \<Rightarrow> 'a heap_state_scheme \<Rightarrow>
     ((uintptr_t option \<times> kheap) \<times> 'a heap_state_scheme) res" where
  "kheap_try_block heap sz align manual_align p s =
     bindr (block_read p s) (\<lambda>cur.
     let max_free_space = kb_block_size cur - sizeof_kheap_block -
           (bs_length (kb_delimiters cur) div 32) * 4 - (bs_length (kb_used_sections cur) div 32) * 4
     in bindr (div_round_up sz (kb_section_size cur)) (\<lambda>n_sec.
        if sz > max_free_space \<or> n_sec > kb_free_sections cur then Inr ((None, heap), s)
        else bindr (block_scan cur n_sec) (\<lambda>c. case c of
           Next _ \<Rightarrow> Inr ((None, heap), s)
         | Ret found \<Rightarrow>
             bindr (block_take cur found n_sec) (\<lambda>cur'.
             let section_start = p + found * kb_section_size cur
             in bindr (if manual_align
                       then bindr (umod section_start align) (\<lambda>r.
                              Inr (if r > 0 then section_start + (align - r) else section_start))
                       else Inr section_start) (\<lambda>out.
                Inr ((Some out, heap\<lparr>kh_total_free_sections := kh_total_free_sections heap - n_sec\<rparr>),
                     block_write p cur' s))))))"

text \<open>
  The walk over the list; at its end the heap is expanded and the walk starts again. It may not end,
  so it is a partial function. The result is the code and, on success, the address.
\<close>

partial_function (option) kheap_malloc_loop ::
  "'a heap_state_scheme kpaging_interface \<Rightarrow> size_t \<Rightarrow> size_t \<Rightarrow> bool \<Rightarrow> uintptr_t \<Rightarrow> kheap \<Rightarrow>
     'a heap_state_scheme \<Rightarrow> (((k_return_t \<times> uintptr_t option) \<times> kheap) \<times> 'a heap_state_scheme) res option" where
  "kheap_malloc_loop iface sz align manual_align cur heap s =
     (if cur = 0 then Some (Inr (((K_OOM, None), heap), s))
      else case kheap_try_block heap sz align manual_align cur s of
        Inl e \<Rightarrow> Some (Inl e)
      | Inr ((Some out, heap), s) \<Rightarrow> Some (Inr (((K_SUCCESS, Some out), heap), s))
      | Inr ((None, heap), s) \<Rightarrow>
          (case block_read cur s of
             Inl e \<Rightarrow> Some (Inl e)
           | Inr b \<Rightarrow>
               if kb_next b \<noteq> 0
               then kheap_malloc_loop iface sz align manual_align (kb_next b) heap s
               else case kheap_expand iface heap (MAX_uint (kh_min_block_size heap) sz) s of
                      Inl e \<Rightarrow> Some (Inl e)
                    | Inr ((ret, heap), s) \<Rightarrow>
                        if K_FAILED ret then Some (Inr (((ret, None), heap), s))
                        else kheap_malloc_loop iface sz align manual_align (kh_first heap) heap s))"

definition kheap_malloc ::
  "'a heap_state_scheme kpaging_interface \<Rightarrow> kheap \<Rightarrow> size_t \<Rightarrow> size_t \<Rightarrow> 'a heap_state_scheme \<Rightarrow>
     (((k_return_t \<times> uintptr_t option) \<times> kheap) \<times> 'a heap_state_scheme) res" where
  "kheap_malloc iface heap sz align s =
     (let manual_align = (align > 0 \<and> kh_default_section_size heap \<noteq> align);
          sz = (if manual_align then sz + align else sz)
      in if kh_first heap = 0
         then bindr (kheap_expand iface heap (MAX_uint (kh_min_block_size heap) sz) s) (\<lambda>((ret, heap), s).
              if K_FAILED ret then Inr (((ret, None), heap), s)
              else or_diverge (kheap_malloc_loop iface sz align manual_align (kh_first heap) heap s))
         else or_diverge (kheap_malloc_loop iface sz align manual_align (kh_first heap) heap s))"

section \<open>Release\<close>

text \<open>The search for the delimiter stops at the first one from \<open>k\<close> on and clears it.\<close>

definition find_delimiter :: "bitset \<Rightarrow> u32 \<Rightarrow> (unit, bitset \<times> u32) ctl res" where
  "find_delimiter d k =
     for_ret k (bs_length d)
       (\<lambda>i _. bindr (bitset_get_bit d i) (\<lambda>v.
          if v \<noteq> 0 then bindr (bitset_clear_bit d i) (\<lambda>d. Inr (Ret (d, i))) else Inr (Next ()))) ()"

text \<open>
  Releasing the allocation that \<open>addr\<close> lies in, when \<open>addr\<close> is inside the block. The last section
  is below the length of the bitset, so the bound \<^verbatim>\<open>i <= last_section\<close> does not wrap.
\<close>

definition block_release :: "uintptr_t \<Rightarrow> kheap \<Rightarrow> kheap_block \<Rightarrow> (kheap \<times> kheap_block) res" where
  "block_release addr heap cur =
     bindr (udiv (addr - kb_start cur) (kb_section_size cur)) (\<lambda>sect_num.
     bindr (bitset_get_bit (kb_used_sections cur) sect_num) (\<lambda>v.
     bindr (ASSERT (v \<noteq> 0) ''bitset_get_bit(&cur->used_sections, sect_num)'') (\<lambda>_.
     bindr (find_delimiter (kb_delimiters cur) sect_num) (\<lambda>c.
     let (delims, last_section) = (case c of Next _ \<Rightarrow> (kb_delimiters cur, 0) | Ret r \<Rightarrow> r)
     in bindr (ASSERT (last_section \<noteq> 0) ''last_section'') (\<lambda>_.
        bindr (for_loop sect_num (last_section + 1) (\<lambda>i b. bitset_clear_bit b i) (kb_used_sections cur)) (\<lambda>used.
        let freed = last_section - sect_num + 1
        in Inr (heap\<lparr>kh_total_free_sections := kh_total_free_sections heap + freed\<rparr>,
                cur\<lparr>kb_used_sections := used, kb_delimiters := delims, kb_first_free_section := sect_num,
                    kb_free_sections := kb_free_sections cur + freed\<rparr>)))))))"

partial_function (option) kheap_free_loop ::
  "uintptr_t \<Rightarrow> uintptr_t \<Rightarrow> kheap \<Rightarrow> 'a heap_state_scheme \<Rightarrow> ((bool \<times> kheap) \<times> 'a heap_state_scheme) res option" where
  "kheap_free_loop addr cur heap s =
     (if cur = 0 then Some (Inr ((False, heap), s))
      else case block_read cur s of
        Inl e \<Rightarrow> Some (Inl e)
      | Inr b \<Rightarrow>
          if addr > kb_start b \<and> addr < kb_start b + kb_block_size b
          then Some (bindr (block_release addr heap b) (\<lambda>(heap, b). Inr ((True, heap), block_write cur b s)))
          else kheap_free_loop addr (kb_next b) heap s)"

definition kheap_free ::
  "kheap \<Rightarrow> uintptr_t \<Rightarrow> 'a heap_state_scheme \<Rightarrow> ((bool \<times> kheap) \<times> 'a heap_state_scheme) res" where
  "kheap_free heap addr s = or_diverge (kheap_free_loop addr (kh_first heap) heap s)"

section \<open>The heap as the kernel's allocator\<close>

definition kheap_kalloc_malloc_real ::
  "'a heap_state_scheme kpaging_interface \<Rightarrow> 'a heap_state_scheme malloc_fn" where
  "kheap_kalloc_malloc_real iface sz phys flags s =
     bindr (kheap_malloc iface (kheap_default s) sz
              (if flags AND KALLOC_PAGE_ALIGN \<noteq> 0 then kp_page_size (kpaging_data s) else 0) s)
       (\<lambda>(((ret, out), heap), s).
          let s = s\<lparr>kheap_default := heap\<rparr>
          in if K_FAILED ret then PANIC ''kheap OOM!''
             else case out of
                    None \<Rightarrow> Inl Wild_access
                  | Some addr \<Rightarrow>
                      if phys
                      then bindr (kpage_get_phys iface addr s) (\<lambda>(p, s). Inr ((addr, Some p), s))
                      else Inr ((addr, None), s))"

definition kheap_kalloc_free :: "'a heap_state_scheme free_fn" where
  "kheap_kalloc_free addr s =
     bindr (kheap_free (kheap_default s) addr s) (\<lambda>((_, heap), s). Inr (s\<lparr>kheap_default := heap\<rparr>))"

definition kheap_kalloc_install ::
  "'a heap_state_scheme kpaging_interface \<Rightarrow> 'a heap_state_scheme \<Rightarrow>
     'a heap_state_scheme kalloc_interface \<times> 'a heap_state_scheme" where
  "kheap_kalloc_install iface s =
     (\<lparr>kalloc_malloc_real_fn = Some (kheap_kalloc_malloc_real iface),
       kalloc_free_fn = Some kheap_kalloc_free\<rparr>,
      s\<lparr>kheap_default := kheap_init SECTION_SIZE_DEFAULT MIN_BLOCK_SIZE_DEFAULT KHEAP_AUTO_EXPAND\<rparr>)"

end
