(* ===== verification/Kheap_Block.thy ===== *)
theory Kheap_Block
  imports Kheap
begin

text \<open>
  One block of the kernel heap: the scan for free sections finds a run that is free, the marking loop
  with its whole-cell fast path marks exactly the run, and taking and releasing a run refine a map
  from first sections to lengths.
\<close>

section \<open>The scan of a block\<close>

abbreviation sections :: "kheap_block \<Rightarrow> nat" where
  "sections cur \<equiv> unat (bs_length (kb_used_sections cur))"

abbreviation used_secs :: "kheap_block \<Rightarrow> nat set" where
  "used_secs cur \<equiv> bits (kb_used_sections cur)"

text \<open>The sections \<open>f\<close> to \<open>f + n - 1\<close> of the block are free.\<close>

definition sec_run :: "kheap_block \<Rightarrow> nat \<Rightarrow> nat \<Rightarrow> bool" where
  "sec_run cur n f \<longleftrightarrow> f + n \<le> sections cur \<and> {f..<f + n} \<inter> used_secs cur = {}"

text \<open>Where the scan starts.\<close>

definition scan_from :: "kheap_block \<Rightarrow> nat" where
  "scan_from cur = unat (kb_first_free_section cur) mod sections cur"

definition block_ok :: "kheap_block \<Rightarrow> bool" where
  "block_ok cur \<longleftrightarrow> bitset_inv (kb_used_sections cur) \<and> bitset_inv (kb_delimiters cur) \<and>
     bs_length (kb_delimiters cur) = bs_length (kb_used_sections cur) \<and>
     0 < sections cur \<and> sections cur \<le> 0x10000000 \<and>
     unat (kb_first_free_section cur) \<le> sections cur"

text \<open>The \<open>c\<close> sections before \<open>i\<close> are free, and \<open>ff\<close> is the first of them.\<close>

definition run_before :: "kheap_block \<Rightarrow> nat \<Rightarrow> nat \<Rightarrow> nat \<Rightarrow> bool" where
  "run_before cur i ff c \<longleftrightarrow> c \<le> i \<and> {i - c..<i} \<inter> used_secs cur = {} \<and>
     (c \<noteq> 0 \<longrightarrow> ff = i - c) \<and> (c = 0 \<longrightarrow> ff = 0 \<or> ff < i)"

text \<open>
  The scan after \<open>k\<close> sections. Before it wraps around, every run has been looked at; after that it
  follows runs only when it had seen no free section before, and otherwise counts none longer than 1.
\<close>

definition scan_inv :: "kheap_block \<Rightarrow> nat \<Rightarrow> nat \<Rightarrow> nat \<Rightarrow> nat \<Rightarrow> bool" where
  "scan_inv cur n k ff c \<longleftrightarrow> c < n \<and> (ff \<noteq> 0 \<longrightarrow> 2 \<le> n) \<and>
     (if scan_from cur + k \<le> sections cur
      then run_before cur (scan_from cur + k) ff c \<and> c \<le> k \<and> (ff \<noteq> 0 \<longrightarrow> scan_from cur \<le> ff) \<and>
           (c < k \<longrightarrow> scan_from cur + k - c - 1 \<in> used_secs cur) \<and>
           (\<forall>f. scan_from cur \<le> f \<and> f + n \<le> scan_from cur + k \<longrightarrow> \<not> sec_run cur n f)
      else (run_before cur (scan_from cur + k - sections cur) ff c \<or> (scan_from cur \<le> ff \<and> 0 < ff \<and> c \<le> 1)) \<and>
           (\<forall>f. scan_from cur \<le> f \<and> f + n \<le> sections cur \<longrightarrow> \<not> sec_run cur n f))"

definition scan_index :: "kheap_block \<Rightarrow> nat \<Rightarrow> nat" where
  "scan_index cur k = (if scan_from cur + k < sections cur then scan_from cur + k
     else scan_from cur + k - sections cur)"

lemma run_before_grow:
  assumes "run_before cur i ff c" and "i \<notin> used_secs cur"
  shows "run_before cur (Suc i) (if c = 0 then i else ff) (Suc c)" and "\<not> i < ff"
proof -
  have "{i - c..<Suc i} \<inter> used_secs cur = {}"
    using assms by (auto simp: run_before_def less_Suc_eq)
  then show "run_before cur (Suc i) (if c = 0 then i else ff) (Suc c)"
    using assms(1) by (auto simp: run_before_def)
  show "\<not> i < ff"
    using assms(1) by (auto simp: run_before_def)
qed

lemma run_before_reset:
  assumes "run_before cur i ff c"
  shows "run_before cur (Suc i) ff 0"
  using assms by (auto simp: run_before_def)

lemma run_before_found:
  assumes "run_before cur (Suc i) ff (Suc c)" and "i < sections cur"
  shows "sec_run cur (Suc c) ff" and "ff + Suc c = Suc i"
  using assms by (auto simp: run_before_def sec_run_def)

text \<open>No run ends at a used section, and one that ends at a free section is the one counted.\<close>

lemma scan_no_run_used:
  assumes "scan_inv cur n k ff c" and "scan_from cur + k < sections cur" and "scan_from cur + k \<in> used_secs cur"
    and "scan_from cur \<le> f" and "f + n \<le> Suc (scan_from cur + k)"
  shows "\<not> sec_run cur n f"
proof (cases "f + n = Suc (scan_from cur + k)")
  case True
  moreover have "0 < n"
    using assms(1) by (simp add: scan_inv_def)
  ultimately have "scan_from cur + k \<in> {f..<f + n}"
    by simp
  then show ?thesis
    using assms(3) by (auto simp: sec_run_def)
next
  case False
  then show ?thesis
    using assms by (simp add: scan_inv_def)
qed

lemma scan_no_run_free:
  assumes "scan_inv cur n k ff c" and "scan_from cur + k < sections cur" and "Suc c \<noteq> n"
    and "scan_from cur \<le> f" and "f + n \<le> Suc (scan_from cur + k)"
  shows "\<not> sec_run cur n f"
proof (cases "f + n = Suc (scan_from cur + k)")
  case True
  have s: "c < n" "c \<le> k" "c < k \<Longrightarrow> scan_from cur + k - c - 1 \<in> used_secs cur"
    using assms(1,2) by (simp_all add: scan_inv_def)
  have "Suc c < n"
    using s(1) assms(3) by simp
  then have "c < k"
    using True assms(4) by linarith
  moreover from this have "scan_from cur + k - c - 1 \<in> {f..<f + n}"
    using True \<open>Suc c < n\<close> by auto
  ultimately show ?thesis
    using s(3) by (auto simp: sec_run_def)
next
  case False
  then show ?thesis
    using assms by (simp add: scan_inv_def)
qed

text \<open>One step of the scan, in natural numbers.\<close>

definition scan_next :: "nat \<Rightarrow> nat \<Rightarrow> nat \<Rightarrow> nat \<times> nat" where
  "scan_next i ff c = (if i < ff then (ff, 1) else if c = 0 then (i, 1) else (ff, Suc c))"

lemma scan_step_used:
  assumes s: "scan_inv cur n k ff c" and k: "k < sections cur" and u: "scan_index cur k \<in> used_secs cur"
    and f0: "scan_from cur < sections cur"
  shows "scan_inv cur n (Suc k) ff 0"
proof -
  consider (before) "scan_from cur + k < sections cur" | (wrap) "scan_from cur + k = sections cur"
    | (after) "sections cur < scan_from cur + k"
    by linarith
  then show ?thesis
  proof cases
    case before
    then show ?thesis
      using s u scan_no_run_used [OF s before] run_before_reset
      by (auto simp: scan_inv_def scan_index_def)
  next
    case wrap
    then have "run_before cur 0 ff 0 \<or> (scan_from cur \<le> ff \<and> 0 < ff)"
      using s by (auto simp: scan_inv_def run_before_def)
    then show ?thesis
      using s wrap run_before_reset [of cur 0 ff 0] by (auto simp: scan_inv_def)
  next
    case after
    then have "scan_from cur + Suc k - sections cur = Suc (scan_from cur + k - sections cur)"
      by simp
    then have "run_before cur (scan_from cur + k - sections cur) ff c \<Longrightarrow>
        run_before cur (scan_from cur + Suc k - sections cur) ff 0"
      using run_before_reset by metis
    then show ?thesis
      using s after by (auto simp: scan_inv_def)
  qed
qed

text \<open>The step at the end of the block, where the scan goes on from its start, and the steps after it.\<close>

lemma scan_step_wrap:
  assumes s: "scan_inv cur n k ff c" and k: "k < sections cur" and u: "scan_index cur k \<notin> used_secs cur"
    and f0: "scan_from cur < sections cur" and nx: "scan_next (scan_index cur k) ff c = (ff', c')"
    and wrap: "scan_from cur + k = sections cur"
  shows "if c' = n then sec_run cur n ff' else scan_inv cur n (Suc k) ff' c'"
proof -
  have i: "scan_index cur k = 0"
    using wrap by (simp add: scan_index_def)
  have free: "0 \<notin> used_secs cur"
    using u i by simp
  consider "ff = 0" "c = 0" | "ff \<noteq> 0" "scan_from cur \<le> ff" "2 \<le> n"
    using s wrap k by (auto simp: scan_inv_def run_before_def)
  then show ?thesis
  proof cases
    case 1
    then have "run_before cur 0 ff c"
      by (simp add: run_before_def)
    from run_before_grow [OF this free] show ?thesis
      using s wrap nx 1 f0 run_before_found(1) [of cur 0 0 0] by (auto simp: scan_inv_def scan_next_def i)
  next
    case 2
    then show ?thesis
      using s wrap nx by (auto simp: scan_inv_def scan_next_def i)
  qed
qed

lemma scan_step_after:
  assumes s: "scan_inv cur n k ff c" and k: "k < sections cur" and u: "scan_index cur k \<notin> used_secs cur"
    and f0: "scan_from cur < sections cur" and nx: "scan_next (scan_index cur k) ff c = (ff', c')"
    and after: "sections cur < scan_from cur + k"
  shows "if c' = n then sec_run cur n ff' else scan_inv cur n (Suc k) ff' c'"
proof -
  have i: "scan_index cur k = scan_from cur + k - sections cur" and lt: "scan_index cur k < scan_from cur"
    and suc: "scan_from cur + Suc k - sections cur = Suc (scan_index cur k)"
    using k after by (simp_all add: scan_index_def)
  consider "run_before cur (scan_index cur k) ff c" | "scan_from cur \<le> ff" "0 < ff" "c \<le> 1" "2 \<le> n"
    using s after by (auto simp: scan_inv_def i)
  then show ?thesis
  proof cases
    case 1
    note g = run_before_grow [OF 1 u]
    have e: "ff' = (if c = 0 then scan_index cur k else ff)" "c' = Suc c"
      using nx g(2) by (auto simp: scan_next_def split: if_splits)
    show ?thesis
      using s after g(1) e suc run_before_found(1) [OF g(1)] lt f0
      by (auto simp: scan_inv_def split: if_splits)
  next
    case 2
    then show ?thesis
      using s after nx lt by (auto simp: scan_inv_def scan_next_def)
  qed
qed

lemma scan_step_free:
  assumes s: "scan_inv cur n k ff c" and k: "k < sections cur" and u: "scan_index cur k \<notin> used_secs cur"
    and f0: "scan_from cur < sections cur" and nx: "scan_next (scan_index cur k) ff c = (ff', c')"
  shows "if c' = n then sec_run cur n ff' else scan_inv cur n (Suc k) ff' c'"
proof -
  consider (before) "scan_from cur + k < sections cur" | (wrap) "scan_from cur + k = sections cur"
    | (after) "sections cur < scan_from cur + k"
    by linarith
  then show ?thesis
  proof cases
    case before
    then have i: "scan_index cur k = scan_from cur + k" and rb: "run_before cur (scan_from cur + k) ff c"
      using s by (simp_all add: scan_index_def scan_inv_def)
    have free: "scan_from cur + k \<notin> used_secs cur"
      using u i by simp
    note g = run_before_grow [OF rb free]
    have e: "ff' = (if c = 0 then scan_from cur + k else ff)" "c' = Suc c"
      using nx g(2) by (auto simp: scan_next_def i split: if_splits)
    show ?thesis
    proof (cases "c' = n")
      case True
      then show ?thesis
        using run_before_found(1) [OF g(1) before] e by simp
    next
      case False
      then show ?thesis
        using s before g(1) scan_no_run_free [OF s before] e
        by (auto simp: scan_inv_def split: if_splits)
    qed
  next
    case wrap
    then show ?thesis
      by (rule scan_step_wrap [OF s k u f0 nx])
  next
    case after
    then show ?thesis
      by (rule scan_step_after [OF s k u f0 nx])
  qed
qed

lemma scan_position:
  assumes ok: "block_ok cur" and k: "k < bs_length (kb_used_sections cur)"
  shows "\<exists>i. umod (kb_first_free_section cur + k) (bs_length (kb_used_sections cur)) = Inr i \<and>
           i < bs_length (kb_used_sections cur) \<and> unat i = scan_index cur (unat k)"
proof -
  let ?L = "bs_length (kb_used_sections cur)" and ?f = "kb_first_free_section cur"
  have b: "0 < unat ?L" "unat ?L \<le> 0x10000000" "unat ?f \<le> unat ?L" "unat k < unat ?L"
    using ok k by (simp_all add: block_ok_def word_less_nat_alt)
  have nz: "?L \<noteq> 0"
    using b(1) by auto
  have sum: "unat (?f + k) = unat ?f + unat k"
    using b by (intro unat_add_no_wrap) linarith
  have i: "unat ((?f + k) mod ?L) = (unat ?f + unat k) mod unat ?L"
    by (simp add: unat_mod sum)
  have "(unat ?f + unat k) mod unat ?L = scan_index cur (unat k)"
  proof (cases "unat ?f = unat ?L")
    case True
    then show ?thesis
      using b by (simp add: scan_index_def scan_from_def)
  next
    case False
    then show ?thesis
      using b by (auto simp: scan_index_def scan_from_def mod_if [of "unat ?f + unat k"])
  qed
  moreover have "(?f + k) mod ?L < ?L"
    using b(1) by (simp add: word_less_nat_alt unat_mod)
  ultimately show ?thesis
    using nz i by simp
qed

lemma block_scan_step_ok:
  assumes ok: "block_ok cur" and k: "k < bs_length (kb_used_sections cur)"
    and s: "scan_inv cur (unat n) (unat k) (unat ff) (unat c)"
  shows "(\<exists>ff' c'. block_scan_step cur n k (ff, c) = Inr (Next (ff', c')) \<and>
            scan_inv cur (unat n) (unat (k + 1)) (unat ff') (unat c')) \<or>
         (\<exists>f. block_scan_step cur n k (ff, c) = Inr (Ret f) \<and> sec_run cur (unat n) (unat f))"
proof -
  let ?L = "bs_length (kb_used_sections cur)"
  obtain i where i: "umod (kb_first_free_section cur + k) ?L = Inr i" "i < ?L" "unat i = scan_index cur (unat k)"
    using scan_position [OF ok k] by blast
  obtain v where v: "bitset_get_bit (kb_used_sections cur) i = Inr v" "v \<noteq> 0 \<longleftrightarrow> unat i \<in> used_secs cur"
    using bs.get_ok [OF _ i(2)] ok by (auto simp: block_ok_def)
  have kl: "unat k < sections cur" and f0: "scan_from cur < sections cur" and suc: "unat (k + 1) = Suc (unat k)"
    using k ok unat_suc_less [OF k] by (simp_all add: word_less_nat_alt scan_from_def block_ok_def)
  show ?thesis
  proof (cases "v = 0")
    case False
    then have "scan_inv cur (unat n) (unat (k + 1)) (unat ff) (unat 0)"
      using scan_step_used [OF s kl _ f0] v(2) i(3) suc by simp
    then show ?thesis
      using i(1) v(1) False by (simp add: block_scan_step_def)
  next
    case True
    have cn: "unat c < unat n"
      using s by (simp add: scan_inv_def)
    then have c1: "unat (c + 1) = Suc (unat c)"
      using unat_suc_less [of c n] by (simp add: word_less_nat_alt)
    define ff' where "ff' = (if i < ff then ff else if c = 0 then i else ff)"
    define c' where "c' = (if i < ff then 1 else c + 1)"
    have st: "block_scan_step cur n k (ff, c) = (if c' = n then Inr (Ret ff') else Inr (Next (ff', c')))"
      using i(1) v(1) True by (simp add: block_scan_step_def ff'_def c'_def Let_def)
    have "scan_next (scan_index cur (unat k)) (unat ff) (unat c) = (unat ff', unat c')"
      by (auto simp: scan_next_def ff'_def c'_def i(3) [symmetric] word_less_nat_alt c1 unat_eq_zero)
    then have "if unat c' = unat n then sec_run cur (unat n) (unat ff')
        else scan_inv cur (unat n) (unat (k + 1)) (unat ff') (unat c')"
      using scan_step_free [OF s kl _ f0] v(2) True i(3) suc by simp
    then show ?thesis
      using st by (auto simp: word_unat_eq_iff split: if_splits)
  qed
qed

lemma block_scan_ok:
  assumes ok: "block_ok cur" and n: "n \<noteq> 0"
  shows "(\<exists>f. block_scan cur n = Inr (Ret f) \<and> sec_run cur (unat n) (unat f)) \<or>
         (\<exists>st. block_scan cur n = Inr (Next st) \<and>
            (\<forall>f. scan_from cur \<le> f \<longrightarrow> \<not> sec_run cur (unat n) f))"
proof -
  let ?L = "bs_length (kb_used_sections cur)"
  let ?I = "\<lambda>k (ff, c). scan_inv cur (unat n) (unat k) (unat ff) (unat c)"
  have f0: "scan_from cur < sections cur"
    using ok by (simp add: scan_from_def block_ok_def)
  have "(\<exists>st. for_ret 0 ?L (block_scan_step cur n) (0, 0) = Inr (Next st) \<and> ?I ?L st) \<or>
        (\<exists>f. for_ret 0 ?L (block_scan_step cur n) (0, 0) = Inr (Ret f) \<and> sec_run cur (unat n) (unat f))"
  proof (rule for_ret_rule [where I = ?I])
    show "?I 0 (0, 0)"
      using n f0 unat_gt_0 [of n] by (auto simp: scan_inv_def run_before_def sec_run_def)
  next
    fix k and st :: "u32 \<times> u32"
    assume "k < ?L" and "?I k st"
    then show "(\<exists>st'. block_scan_step cur n k st = Inr (Next st') \<and> ?I (k + 1) st') \<or>
        (\<exists>f. block_scan_step cur n k st = Inr (Ret f) \<and> sec_run cur (unat n) (unat f))"
      using block_scan_step_ok [OF ok] by (cases st) fastforce
  qed simp
  moreover have "\<not> sec_run cur (unat n) f" if "?I ?L st" "scan_from cur \<le> f" for f st
    using that f0 by (cases st) (auto simp: scan_inv_def sec_run_def split: if_splits)
  ultimately show ?thesis
    unfolding block_scan_def by blast
qed

section \<open>Marking a run\<close>

lemma bits_whole_cell:
  assumes inv: "bitset_inv b" and j: "unat j mod 32 = 0" "unat j + 32 \<le> unat (bs_length b)"
  shows "\<exists>b'. cell_write b (j div 32) 0xFFFFFFFF = Inr b' \<and> bitset_inv b' \<and> bitset_frame b' = bitset_frame b \<and>
           bits b' = bits b \<union> {unat j..<unat j + 32}"
proof -
  let ?i = "unat j div 32"
  let ?b' = "b\<lparr>bs_cells := (bs_cells b)[?i := 0xFFFFFFFF]\<rparr>"
  have i: "?i < length (bs_cells b)"
    using inv j(2) by (simp add: bitset_inv_def less_mult_imp_div_less mult.commute)
  have ones: "bit (0xFFFFFFFF :: u32) m \<longleftrightarrow> m < 32" for m
  proof -
    have "(0xFFFFFFFF :: u32) = mask 32"
      by (simp add: mask_eq_exp_minus_1)
    then show ?thesis
      by (simp only: bit_mask_iff) simp
  qed
  have cell: "k div 32 = ?i \<longleftrightarrow> k \<in> {unat j..<unat j + 32}" for k
    using j(1) by auto
  have "k \<in> bits ?b' \<longleftrightarrow> k \<in> bits b \<union> {unat j..<unat j + 32}" for k
    using bits_update_cell [OF i, of k "0xFFFFFFFF"] cell [of k] j(2) ones [of "k mod 32"] by (auto simp: in_bits [of _ b])
  then have "bits ?b' = bits b \<union> {unat j..<unat j + 32}"
    by blast
  then show ?thesis
    using inv i by (auto simp: cell_write_def unat_div bitset_inv_def bitset_frame_def)
qed

text \<open>One round of the loop marks a whole cell or one section.\<close>

lemma mark_sections_cell:
  assumes inv: "bitset_inv b" and j: "j mod 32 = 0" "j + 32 < stop" "j < stop" and stop: "stop \<le> bs_length b" "unat stop \<le> 0x10000000"
  shows "\<exists>c. mark_sections j stop b = mark_sections (j + 32) stop c \<and> unat (j + 32) = unat j + 32 \<and> unat j + 32 < unat stop \<and>
           bitset_inv c \<and> bitset_frame c = bitset_frame b \<and> bits c = bits b \<union> {unat j..<unat j + 32}"
proof -
  have u: "unat (j + 32) = unat j + 32"
    using unat_add_no_wrap [of j 32] j(3) stop(2) by (simp add: word_less_nat_alt)
  have lt: "unat j + 32 < unat stop"
    using j(2) u by (simp add: word_less_nat_alt)
  have "unat j mod 32 = 0"
    using j(1) by (simp add: word_unat_eq_iff unat_mod)
  then obtain c where c: "cell_write b (j div 32) 0xFFFFFFFF = Inr c" "bitset_inv c" "bitset_frame c = bitset_frame b"
    "bits c = bits b \<union> {unat j..<unat j + 32}"
    using bits_whole_cell [OF inv, of j] lt stop(1) by (auto simp: word_le_nat_alt)
  have "mark_sections j stop b = mark_sections (j + 32) stop c"
    using j c(1) by (subst mark_sections.simps) simp
  then show ?thesis
    using u lt c(2-4) by blast
qed

lemma mark_sections_bit:
  assumes inv: "bitset_inv b" and j: "\<not> (j mod 32 = 0 \<and> j + 32 < stop)" "j < stop" and stop: "stop \<le> bs_length b"
  shows "\<exists>c. mark_sections j stop b = mark_sections (j + 1) stop c \<and> unat (j + 1) = Suc (unat j) \<and> unat j < unat stop \<and>
           bitset_inv c \<and> bitset_frame c = bitset_frame b \<and> bits c = bits b \<union> {unat j..<Suc (unat j)}"
proof -
  have u: "unat (j + 1) = Suc (unat j)" "unat j < unat stop" "j < bs_length b"
    using j(2) stop by (simp_all add: unat_suc_less word_less_nat_alt word_le_nat_alt)
  obtain c where c: "bitset_set_bit b j = Inr c" "bitset_inv c" "bitset_frame c = bitset_frame b" "bits c = insert (unat j) (bits b)"
    using bs.set_ok [OF inv u(3)] by blast
  have "mark_sections j stop b = mark_sections (j + 1) stop c"
    using j c(1) by (subst mark_sections.simps) auto
  then show ?thesis
    using u c(2-4) by auto
qed

text \<open>The loop marks what a loop over \<open>bitset_set_bit\<close> would; the fast path changes nothing.\<close>

lemma mark_sections_ok:
  assumes "bitset_inv b" and "unat j \<le> unat stop" and "stop \<le> bs_length b" and "unat stop \<le> 0x10000000"
  shows "\<exists>b'. mark_sections j stop b = Some (Inr b') \<and> bitset_inv b' \<and> bitset_frame b' = bitset_frame b \<and>
           bits b' = bits b \<union> {unat j..<unat stop}"
  using assms
proof (induction "unat stop - unat j" arbitrary: j b rule: less_induct)
  case less
  show ?case
  proof (cases "j < stop")
    case False
    then show ?thesis
      using less.prems by (subst mark_sections.simps) (auto simp: word_less_nat_alt)
  next
    case True
    then obtain i c where i: "mark_sections j stop b = mark_sections i stop c" "unat j < unat i" "unat i \<le> unat stop"
      and c: "bitset_inv c" "bitset_frame c = bitset_frame b" "bits c = bits b \<union> {unat j..<unat i}"
      using mark_sections_cell [OF less.prems(1) _ _ True less.prems(3,4)] mark_sections_bit [OF less.prems(1) _ True less.prems(3)]
      by (metis Suc_leI less_add_same_cancel1 less_imp_le lessI zero_less_numeral)
    have "bs_length c = bs_length b"
      using c(2) by (simp add: bitset_frame_def)
    moreover have "unat stop - unat i < unat stop - unat j"
      using i(2,3) by linarith
    ultimately obtain b' where b': "mark_sections i stop c = Some (Inr b')" "bitset_inv b'" "bitset_frame b' = bitset_frame c"
      "bits b' = bits c \<union> {unat i..<unat stop}"
      using less.hyps [of i c, OF _ c(1) i(3)] less.prems(3,4) by auto
    then have "bits b' = bits b \<union> {unat j..<unat stop}"
      using c(3) i(2,3) by auto
    then show ?thesis
      using b'(1-3) i(1) c(2) by simp
  qed
qed

section \<open>A block as a map of allocations\<close>

text \<open>
  The allocations of a block, by their first section; the first \<open>r\<close> sections hold the header and the
  bitsets.
\<close>

type_synonym allocs = "nat \<rightharpoonup> nat"

definition taken :: "allocs \<Rightarrow> nat set" where
  "taken A = {k. \<exists>f n. A f = Some n \<and> f \<le> k \<and> k < f + n}"

definition ends :: "allocs \<Rightarrow> nat set" where
  "ends A = {k. \<exists>f n. A f = Some n \<and> Suc k = f + n}"

definition apart :: "allocs \<Rightarrow> bool" where
  "apart A \<longleftrightarrow> (\<forall>f n g m. A f = Some n \<and> A g = Some m \<and> f < g \<longrightarrow> f + n \<le> g)"

text \<open>
  Every section of an allocation is marked used. A marked section need not belong to an allocation:
  releasing at an address past the first section leaves the ones before it marked.
\<close>

definition block_rel :: "nat \<Rightarrow> allocs \<Rightarrow> kheap_block \<Rightarrow> bool" where
  "block_rel r A cur \<longleftrightarrow> block_ok cur \<and> 0 < r \<and> r \<le> sections cur \<and>
     (\<forall>f n. A f = Some n \<longrightarrow> 0 < n \<and> r \<le> f \<and> f + n \<le> sections cur) \<and> apart A \<and>
     {..<r} \<union> taken A \<subseteq> used_secs cur \<and> bits (kb_delimiters cur) = ends A \<and>
     unat (kb_free_sections cur) + card (used_secs cur) = sections cur"

lemma alloc_taken: "A f = Some n \<Longrightarrow> {f..<f + n} \<subseteq> taken A"
  unfolding taken_def by fastforce

lemma taken_upd: "A f = None \<Longrightarrow> taken (A(f \<mapsto> n)) = taken A \<union> {f..<f + n}"
  unfolding taken_def fun_upd_apply by (auto 4 4 split: if_splits)

lemma ends_upd:
  assumes "A f = None" and "0 < n"
  shows "ends (A(f \<mapsto> n)) = insert (f + n - 1) (ends A)"
proof -
  have "(\<exists>g m. (A(f \<mapsto> n)) g = Some m \<and> Suc k = g + m) \<longleftrightarrow>
      Suc k = f + n \<or> (\<exists>g m. A g = Some m \<and> Suc k = g + m)" for k
    using assms(1) by (metis fun_upd_other fun_upd_same option.distinct(1) option.inject)
  then show ?thesis
    using assms(2) unfolding ends_def by auto
qed

lemma apart_upd:
  assumes "apart A" and "\<And>g m. A g = Some m \<Longrightarrow> 0 < m" and "{f..<f + n} \<inter> taken A = {}" and "0 < n"
  shows "A f = None" and "apart (A(f \<mapsto> n))"
proof -
  have d: "f + n \<le> g \<or> g + m \<le> f" if "A g = Some m" for g m
  proof (rule ccontr)
    assume c: "\<not> ?thesis"
    have m: "max f g \<in> {f..<f + n}" "g \<le> max f g" "max f g < g + m"
      using c assms(2) [OF that] assms(4) by (auto simp: max_def)
    moreover have "max f g \<in> taken A"
      using that m unfolding taken_def by blast
    ultimately have "max f g \<in> {f..<f + n}" "max f g \<in> taken A"
      by blast+
    then show False
      using assms(3) by blast
  qed
  show "A f = None"
    using d [of f] assms(2,4) by (cases "A f") fastforce+
  show "apart (A(f \<mapsto> n))"
    using assms(1) d assms(2) unfolding apart_def by (auto dest!: d)
qed

lemma apart_drop: "apart A \<Longrightarrow> apart (A(f := None))"
  by (auto simp: apart_def)

lemma taken_drop:
  assumes "apart A" and "A f = Some n"
  shows "taken (A(f := None)) = taken A - {f..<f + n}"
proof -
  have "k \<notin> {f..<f + n}" if "A g = Some m" "g \<noteq> f" "g \<le> k" "k < g + m" for g m k
    using assms that by (cases "g < f") (fastforce simp: apart_def)+
  moreover have "(\<exists>g m. (A(f := None)) g = Some m \<and> g \<le> k \<and> k < g + m) \<longleftrightarrow>
      (\<exists>g m. A g = Some m \<and> g \<noteq> f \<and> g \<le> k \<and> k < g + m)" for k
    by auto
  ultimately show ?thesis
    using assms(2) unfolding taken_def by (auto 4 4)
qed

lemma ends_drop:
  assumes "apart A" and "A f = Some n" and "\<And>g m. A g = Some m \<Longrightarrow> 0 < m"
  shows "ends (A(f := None)) = ends A - {f + n - 1}"
proof -
  have "k \<noteq> f + n - 1" if "A g = Some m" "g \<noteq> f" "Suc k = g + m" for g m k
    using assms(1,2) that assms(3) [OF that(1)] assms(3) [OF assms(2)]
    by (cases "g < f") (fastforce simp: apart_def)+
  moreover have "(\<exists>g m. (A(f := None)) g = Some m \<and> Suc k = g + m) \<longleftrightarrow>
      (\<exists>g m. A g = Some m \<and> g \<noteq> f \<and> Suc k = g + m)" for k
    by auto
  ultimately show ?thesis
    using assms(2) assms(3) [OF assms(2)] unfolding ends_def by (auto 4 4)
qed

lemma block_relD:
  assumes "block_rel r A cur"
  shows "block_ok cur" "bitset_inv (kb_used_sections cur)" "bitset_inv (kb_delimiters cur)"
    "bs_length (kb_delimiters cur) = bs_length (kb_used_sections cur)" "0 < sections cur" "sections cur \<le> 0x10000000"
    "0 < r" "r \<le> sections cur" "\<And>f n. A f = Some n \<Longrightarrow> 0 < n \<and> r \<le> f \<and> f + n \<le> sections cur"
    "apart A" "{..<r} \<union> taken A \<subseteq> used_secs cur" "bits (kb_delimiters cur) = ends A"
    "unat (kb_free_sections cur) + card (used_secs cur) = sections cur"
  using assms unfolding block_rel_def block_ok_def by blast+

text \<open>The words that describe a run do not wrap, and a run is not longer than the number of free sections.\<close>

lemma run_words:
  assumes run: "sec_run cur (unat n) (unat f)" and n: "n \<noteq> 0" and bound: "sections cur \<le> 0x10000000"
  shows "unat (f + n) = unat f + unat n" and "unat (f + n - 1) = unat f + unat n - 1" and "f + n - 1 < bs_length (kb_used_sections cur)"
proof -
  have fn: "unat f + unat n \<le> sections cur" "0 < unat n"
    using run n by (simp_all add: sec_run_def unat_gt_0)
  show stop: "unat (f + n) = unat f + unat n"
    using fn(1) bound by (intro unat_add_no_wrap) linarith
  then have "f + n \<noteq> 0"
    using fn(2) by (metis add_is_0 less_irrefl unat_0)
  then show a: "unat (f + n - 1) = unat f + unat n - 1"
    using stop by (simp add: unat_minus_one)
  show "f + n - 1 < bs_length (kb_used_sections cur)"
    using a fn by (simp add: word_less_nat_alt)
qed

lemma run_free:
  assumes run: "sec_run cur n f" and free: "unat (kb_free_sections cur) + card (used_secs cur) = sections cur"
  shows "card (used_secs cur \<union> {f..<f + n}) = card (used_secs cur) + n" and "n \<le> unat (kb_free_sections cur)"
proof -
  have d: "f + n \<le> sections cur" "{f..<f + n} \<inter> used_secs cur = {}"
    using run by (simp_all add: sec_run_def)
  show card: "card (used_secs cur \<union> {f..<f + n}) = card (used_secs cur) + n"
    using d(2) by (subst card_Un_disjoint) (auto simp: bs.finite_ones)
  have "used_secs cur \<union> {f..<f + n} \<subseteq> {..<sections cur}"
    using d(1) bs.ones_bound [of "kb_used_sections cur"] by auto
  then have "card (used_secs cur \<union> {f..<f + n}) \<le> card {..<sections cur}"
    by (intro card_mono) simp_all
  then show "n \<le> unat (kb_free_sections cur)"
    using card free by simp
qed

text \<open>Taking a free run enters it into the map.\<close>

lemma block_take_ok:
  assumes rel: "block_rel r A cur" and run: "sec_run cur (unat n) (unat f)" and n: "n \<noteq> 0"
  shows "\<exists>cur'. block_take cur f n = Inr cur' \<and> A (unat f) = None \<and> block_rel r (A(unat f \<mapsto> unat n)) cur' \<and>
           used_secs cur' = used_secs cur \<union> {unat f..<unat f + unat n} \<and>
           kb_free_sections cur' = kb_free_sections cur - n \<and> sections cur' = sections cur \<and>
           (kb_next cur', kb_block_size cur', kb_section_size cur', kb_start cur') =
             (kb_next cur, kb_block_size cur, kb_section_size cur, kb_start cur)"
proof -
  let ?L = "bs_length (kb_used_sections cur)"
  note rs = block_relD [OF rel]
  note ok = rs(2-6) and r = rs(7,8) and A = rs(9) and ap = rs(10) and used = rs(11) and del = rs(12)
    and free = rs(13)
  have fn: "unat f + unat n \<le> sections cur" "{unat f..<unat f + unat n} \<inter> used_secs cur = {}" "0 < unat n"
    using run n by (simp_all add: sec_run_def unat_gt_0)
  note stop = run_words(1) [OF run n ok(5)] and lst = run_words(2,3) [OF run n ok(5)]
  obtain u where u: "mark_sections f (f + n) (kb_used_sections cur) = Some (Inr u)" "bitset_inv u"
    "bitset_frame u = bitset_frame (kb_used_sections cur)" "bits u = used_secs cur \<union> {unat f..<unat f + unat n}"
    using mark_sections_ok [OF ok(1), of f "f + n"] stop fn(1) ok(5) by (auto simp: word_le_nat_alt)
  obtain d where d: "bitset_set_bit (kb_delimiters cur) (f + n - 1) = Inr d" "bitset_inv d"
    "bitset_frame d = bitset_frame (kb_delimiters cur)" "bits d = insert (unat f + unat n - 1) (ends A)"
    using bs.set_ok [OF ok(2), of "f + n - 1"] lst ok(3) del by auto
  have len: "bs_length u = ?L" "bs_length d = ?L"
    using u(3) d(3) ok(3) by (simp_all add: bitset_frame_def)
  have "{unat f..<unat f + unat n} \<inter> taken A = {}"
    using fn(2) used by blast
  note up = apart_upd [OF ap _ this fn(3)]
  have Af: "A (unat f) = None" and ap': "apart (A(unat f \<mapsto> unat n))"
    using up A by blast+
  have rf: "r \<le> unat f"
  proof (rule ccontr)
    assume "\<not> r \<le> unat f"
    then have "unat f \<in> used_secs cur"
      using used by auto
    moreover have "unat f \<in> {unat f..<unat f + unat n}"
      using fn(3) by simp
    ultimately show False
      using fn(2) by blast
  qed
  note card = run_free(1) [OF run free, folded u(4)] and nle = run_free(2) [OF run free]
  have free': "unat (kb_free_sections cur - n) = unat (kb_free_sections cur) - unat n"
    using nle by (simp add: unat_sub word_le_nat_alt)
  let ?c = "cur\<lparr>kb_used_sections := u, kb_delimiters := d, kb_free_sections := kb_free_sections cur - n,
              kb_first_free_section := f + n\<rparr>"
  have "block_take cur f n = Inr ?c"
    using u(1) d(1) by (simp add: block_take_def)
  moreover have "block_rel r (A(unat f \<mapsto> unat n)) ?c"
    unfolding block_rel_def block_ok_def
    using u(2,4) d(2,4) len ok r A ap' used free rf fn taken_upd [of A "unat f", OF Af] ends_upd [of A "unat f", OF Af fn(3)] card free' nle stop
    by (auto split: if_splits)
  ultimately show ?thesis
    using Af u(4) len by auto
qed

section \<open>Releasing\<close>

lemma find_delimiter_ok:
  assumes inv: "bitset_inv d" and k: "k \<le> e" "unat e \<in> bits d" and none: "\<And>j. unat k \<le> j \<Longrightarrow> j < unat e \<Longrightarrow> j \<notin> bits d"
  shows "\<exists>d'. find_delimiter d k = Inr (Ret (d', e)) \<and> bitset_inv d' \<and> bitset_frame d' = bitset_frame d \<and>
           bits d' = bits d - {unat e}"
proof -
  let ?body = "\<lambda>i _. bindr (bitset_get_bit d i) (\<lambda>v.
          if v \<noteq> 0 then bindr (bitset_clear_bit d i) (\<lambda>d. Inr (Ret (d, i))) else Inr (Next ()))"
  let ?Q = "\<lambda>(d', i). i = e \<and> bitset_inv d' \<and> bitset_frame d' = bitset_frame d \<and> bits d' = bits d - {unat e}"
  have e: "e < bs_length d"
    using k(2) by (simp add: in_bits word_less_nat_alt)
  have "(\<exists>s. for_ret k (bs_length d) ?body () = Inr (Next s) \<and> bs_length d \<le> e) \<or>
        (\<exists>r. for_ret k (bs_length d) ?body () = Inr (Ret r) \<and> ?Q r)"
  proof (rule for_ret_rule [where I = "\<lambda>i _. i \<le> e"])
    show "k \<le> bs_length d" "k \<le> e"
      using k(1) e by simp_all
  next
    fix i and u :: unit
    assume i: "k \<le> i" "i < bs_length d" "i \<le> e"
    obtain v where v: "bitset_get_bit d i = Inr v" "v \<noteq> 0 \<longleftrightarrow> unat i \<in> bits d"
      using bs.get_ok [OF inv i(2)] by blast
    obtain d' where d': "bitset_clear_bit d i = Inr d'" "bitset_inv d'" "bitset_frame d' = bitset_frame d"
      "bits d' = bits d - {unat i}"
      using bs.clear_ok [OF inv i(2)] by blast
    have "v \<noteq> 0 \<longleftrightarrow> i = e"
      using v(2) k(2) none [of "unat i"] i(1,3) by (metis word_le_nat_alt word_unat_eq_iff le_neq_implies_less)
    moreover have "i \<noteq> e \<Longrightarrow> i + 1 \<le> e"
      using i(3) by (intro suc_le_of_less) simp
    ultimately show "(\<exists>s'. ?body i u = Inr (Next s') \<and> i + 1 \<le> e) \<or> (\<exists>r. ?body i u = Inr (Ret r) \<and> ?Q r)"
      using v(1) d' by (cases "v = 0") auto
  qed
  then show ?thesis
    using e by (auto simp: find_delimiter_def)
qed

text \<open>The first end mark from a section of an allocation on is that of the allocation.\<close>

lemma ends_next:
  assumes ap: "apart A" and a: "A f = Some n" "f \<le> k" and pos: "\<And>g m. A g = Some m \<Longrightarrow> 0 < m" and j: "k \<le> j" "j < f + n - 1"
  shows "j \<notin> ends A"
proof
  assume "j \<in> ends A"
  then obtain g m where g: "A g = Some m" "Suc j = g + m"
    by (auto simp: ends_def)
  show False
  proof (cases g f rule: linorder_cases)
    case less
    then show ?thesis
      using ap g a j(1) unfolding apart_def by fastforce
  next
    case equal
    then show ?thesis
      using g a(1) j(2) by simp
  next
    case greater
    then show ?thesis
      using ap g a(1) j(2) pos [OF g(1)] unfolding apart_def by fastforce
  qed
qed

text \<open>
  Releasing from section \<open>k\<close> of an allocation on: the sections from \<open>k\<close> to its end become free and its
  end mark goes. Sections of the allocation before \<open>k\<close> stay marked.
\<close>

lemma block_release_tail:
  assumes rel: "block_rel r A cur" and a: "A f = Some n" "f \<le> unat k" "unat k < f + n"
    and addr: "udiv (addr - kb_start cur) (kb_section_size cur) = Inr k"
  shows "\<exists>heap' cur'. block_release addr heap cur = Inr (heap', cur') \<and> block_ok cur' \<and>
           heap' = heap\<lparr>kh_total_free_sections := kh_total_free_sections heap + of_nat (f + n - unat k)\<rparr> \<and>
           kb_free_sections cur' = kb_free_sections cur + of_nat (f + n - unat k) \<and>
           kb_first_free_section cur' = k \<and> sections cur' = sections cur \<and>
           used_secs cur' = used_secs cur - {unat k..<f + n} \<and> bits (kb_delimiters cur') = ends A - {f + n - 1} \<and>
           (kb_next cur', kb_block_size cur', kb_section_size cur', kb_start cur') =
             (kb_next cur, kb_block_size cur, kb_section_size cur, kb_start cur)"
proof -
  note rs = block_relD [OF rel]
  let ?L = "bs_length (kb_used_sections cur)"
  define e where "e = (of_nat (f + n - 1) :: u32)"
  have fn: "0 < n" "r \<le> f" "f + n \<le> sections cur"
    using rs(9) [OF a(1)] by simp_all
  have e: "unat e = f + n - 1"
    unfolding e_def using fn rs(6) by (intro unat_of_nat_u32) linarith
  moreover have "unat (e + 1) = unat e + 1"
    using e fn rs(6) unat_add_no_wrap [of e 1] by simp
  ultimately have e: "unat e = f + n - 1" "unat (e + 1) = f + n"
    using fn by simp_all
  have ke: "k \<le> e" "k \<le> e + 1" "k < ?L" "e + 1 \<le> ?L" "e \<noteq> 0"
    using e a(2,3) fn rs(7) by (auto simp: word_le_nat_alt word_less_nat_alt word_unat_eq_iff)
  have "unat k \<in> used_secs cur"
    using a by (intro subsetD [OF rs(11)]) (auto simp: taken_def)
  then obtain v where v: "bitset_get_bit (kb_used_sections cur) k = Inr v" "v \<noteq> 0"
    using bs.get_ok [OF rs(2) ke(3)] by blast
  have "j \<notin> ends A" if "unat k \<le> j" "j < f + n - 1" for j
    using ends_next [OF rs(10) a(1,2) _ that] rs(9) by blast
  moreover have "f + n - 1 \<in> ends A"
    using a(1) fn(1) by (auto simp: ends_def)
  ultimately obtain d where d: "find_delimiter (kb_delimiters cur) k = Inr (Ret (d, e))" "bitset_inv d"
    "bitset_frame d = bitset_frame (kb_delimiters cur)" "bits d = ends A - {f + n - 1}"
    using find_delimiter_ok [OF rs(3) ke(1)] e(1) rs(12) by auto
  obtain u where u: "for_loop k (e + 1) (\<lambda>i b. bitset_clear_bit b i) (kb_used_sections cur) = Inr u" "bitset_inv u"
    "bitset_frame u = bitset_frame (kb_used_sections cur)" "bits u = used_secs cur - {unat k..<f + n}"
    using bs.clear_range [OF rs(2) ke(2,4)] e(2) by auto
  have fr: "e - k + 1 = of_nat (f + n - unat k)"
    using a(2,3) fn(1) by (simp add: e_def of_nat_diff)
  show ?thesis
    using addr v d u fr ke(5) rs(2-6) ke(3)
    by (simp add: block_release_def Let_def bitset_frame_def block_ok_def
        word_less_nat_alt)
qed

lemma block_release_ok:
  assumes rel: "block_rel r A cur" and a: "A f = Some n" "f \<le> unat k" "unat k < f + n"
    and addr: "udiv (addr - kb_start cur) (kb_section_size cur) = Inr k"
  shows "\<exists>cur'. block_release addr heap cur =
             Inr (heap\<lparr>kh_total_free_sections := kh_total_free_sections heap + of_nat (f + n - unat k)\<rparr>, cur') \<and>
           block_rel r (A(f := None)) cur' \<and> sections cur' = sections cur \<and>
           used_secs cur' = used_secs cur - {unat k..<f + n} \<and>
           kb_free_sections cur' = kb_free_sections cur + of_nat (f + n - unat k) \<and>
           (kb_next cur', kb_block_size cur', kb_section_size cur', kb_start cur') =
             (kb_next cur, kb_block_size cur, kb_section_size cur, kb_start cur)"
proof -
  note rs = block_relD [OF rel]
  have n: "0 < n" "r \<le> f" "f + n \<le> sections cur"
    using rs(9) [OF a(1)] by simp_all
  obtain heap' cur' where c: "block_release addr heap cur = Inr (heap', cur')" "block_ok cur'"
    "heap' = heap\<lparr>kh_total_free_sections := kh_total_free_sections heap + of_nat (f + n - unat k)\<rparr>"
    "kb_free_sections cur' = kb_free_sections cur + of_nat (f + n - unat k)" "sections cur' = sections cur"
    "used_secs cur' = used_secs cur - {unat k..<f + n}" "bits (kb_delimiters cur') = ends A - {f + n - 1}"
    "(kb_next cur', kb_block_size cur', kb_section_size cur', kb_start cur') =
             (kb_next cur, kb_block_size cur, kb_section_size cur, kb_start cur)"
    using block_release_tail [OF rel a addr, of heap] by force
  have sub: "{unat k..<f + n} \<subseteq> used_secs cur"
    using alloc_taken [of A f n, OF a(1)] rs(11) a(2) by fastforce
  have card: "card (used_secs cur') + (f + n - unat k) = card (used_secs cur)"
    using card_mono [OF bs.finite_ones sub] by (simp add: c(6) card_Diff_subset [OF _ sub])
  have free: "unat (kb_free_sections cur') = unat (kb_free_sections cur) + (f + n - unat k)"
    using rs(6,13) card n(3) unat_add_no_wrap [of "kb_free_sections cur" "of_nat (f + n - unat k)"] c(4)
    by (simp add: unat_of_nat_u32)
  have "{..<r} \<union> taken (A(f := None)) \<subseteq> used_secs cur'"
  proof -
    have "{..<r} \<inter> {unat k..<f + n} = {}" "{unat k..<f + n} \<subseteq> {f..<f + n}"
      using n(2) a(2) by auto
    then show ?thesis
      using rs(11) unfolding c(6) taken_drop [OF rs(10) a(1)] by blast
  qed
  moreover have "bits (kb_delimiters cur') = ends (A(f := None))"
    using c(7) ends_drop [OF rs(10) a(1)] rs(9) by blast
  ultimately have "block_rel r (A(f := None)) cur'"
    unfolding block_rel_def
    using c(2,5) rs(7,8,9,13) apart_drop [OF rs(10)] card free by auto
  then show ?thesis
    using c by simp
qed

section \<open>A new block\<close>

lemma div_round_up_ok: "b \<noteq> 0 \<Longrightarrow> div_round_up a b = Inr (DIV_ROUND_UP a b)"
  by (simp add: div_round_up_def DIV_ROUND_UP_def)

lemma DIV_ROUND_UP_exact:
  assumes "0 < a" and "0 < b" and "unat b dvd unat a"
  shows "unat (DIV_ROUND_UP a b) * unat b = unat a"
proof -
  have "unat b dvd unat (DIV_ROUND_UP a b) * unat b - unat a"
    using assms(3) by (intro dvd_diff_nat) simp_all
  moreover have "unat (DIV_ROUND_UP a b) * unat b - unat a < unat b"
    using DIV_ROUND_UP_ceiling [OF assms(1,2)] assms(2) by (simp add: less_diff_conv2 word_gt_0 unat_gt_0)
  ultimately have "unat (DIV_ROUND_UP a b) * unat b - unat a = 0"
    using dvd_imp_le not_le by blast
  then show ?thesis
    using DIV_ROUND_UP_ceiling(1) [OF assms(1,2)] by simp
qed

text \<open>The bytes of the header and the two bitsets, and the sections that hold them.\<close>

definition meta_bytes :: "size_t \<Rightarrow> u32 \<Rightarrow> u32" where
  "meta_bytes block_size section_size =
     sizeof_kheap_block + (DIV_ROUND_UP block_size (section_size * 32) * 4) * 2"

definition meta_sections :: "size_t \<Rightarrow> u32 \<Rightarrow> nat" where
  "meta_sections block_size section_size = unat (DIV_ROUND_UP (meta_bytes block_size section_size) section_size)"

text \<open>Where a block is placed, and that its sections fill it.\<close>

definition block_at :: "uintptr_t \<Rightarrow> kheap_block \<Rightarrow> bool" where
  "block_at p b \<longleftrightarrow> p \<noteq> 0 \<and> kb_start b = p \<and> 4 \<le> kb_section_size b \<and>
     unat p + unat (kb_block_size b) < 4294967296 \<and>
     sections b * unat (kb_section_size b) = unat (kb_block_size b)"

lemma section_count:
  assumes bsz: "0 < bsz" "bsz \<le> 0x40000000" and ss: "4 \<le> ss" "unat ss dvd unat bsz"
  shows "unat (DIV_ROUND_UP bsz ss) * unat ss = unat bsz" and "0 < unat (DIV_ROUND_UP bsz ss)"
    and "unat (DIV_ROUND_UP bsz ss) \<le> 0x10000000"
proof -
  have pos: "0 < ss" "0 < unat ss"
    using ss(1) by (auto simp: word_gt_0 word_le_nat_alt unat_gt_0)
  show L: "unat (DIV_ROUND_UP bsz ss) * unat ss = unat bsz"
    using bsz(1) pos(1) ss(2) by (rule DIV_ROUND_UP_exact)
  show "0 < unat (DIV_ROUND_UP bsz ss)"
    using L bsz(1) by (metis bot_nat_0.not_eq_extremum mult_0 unat_gt_0 word_gt_0)
  have "4 * unat (DIV_ROUND_UP bsz ss) \<le> unat bsz"
    using mult_le_mono2 [of 4 "unat ss" "unat (DIV_ROUND_UP bsz ss)"] L ss(1) by (simp add: word_le_nat_alt)
  then show "unat (DIV_ROUND_UP bsz ss) \<le> 0x10000000"
    using bsz(2) by (simp add: word_le_nat_alt)
qed

lemma meta_bytes_value:
  assumes bsz: "0 < bsz" "bsz \<le> 0x40000000" and ss: "4 \<le> ss" "ss \<le> 0x1000000"
  shows "ss * 32 \<noteq> 0" and "unat (meta_bytes bsz ss) = 40 + unat (DIV_ROUND_UP bsz (ss * 32)) * 8"
proof -
  let ?D = "DIV_ROUND_UP bsz (ss * 32)"
  have ss32: "unat (ss * 32) = unat ss * 32"
    using ss(2) by (intro unat_mult_no_wrap [of ss 32, simplified]) (simp add: word_le_nat_alt)
  moreover have "0 < unat ss"
    using ss(1) by (simp add: word_le_nat_alt)
  ultimately show n0: "ss * 32 \<noteq> 0"
    by (metis mult_is_0 less_irrefl unat_0 zero_neq_numeral)
  have "(unat bsz - 1) div (unat ss * 32) \<le> (unat bsz - 1) div 128"
    using ss(1) by (intro div_le_mono2) (simp_all add: word_le_nat_alt)
  moreover have "(unat bsz - 1) div 128 < 0x800000"
    using bsz(2) by (simp add: word_le_nat_alt less_mult_imp_div_less)
  ultimately have D: "unat ?D \<le> 0x800000"
    using unat_DIV_ROUND_UP [of bsz "ss * 32"] bsz(1) n0 by (simp add: ss32 word_gt_0)
  have "unat (?D * 4 * 2) = unat ?D * 8"
    using D unat_mult_no_wrap [of ?D 4] unat_mult_no_wrap [of "?D * 4" 2] by simp
  then show "unat (meta_bytes bsz ss) = 40 + unat ?D * 8"
    using D unat_add_no_wrap [of 40 "?D * 4 * 2"] by (simp add: meta_bytes_def sizeof_kheap_block_def mult.assoc)
qed

lemma kheap_add_block_ok:
  assumes addr: "addr mod 0x1000 = 0" "addr \<noteq> 0" "unat addr + unat bsz < 4294967296"
    and ss: "4 \<le> ss" "ss \<le> 0x1000000" "unat ss dvd unat bsz" and bs: "bsz \<le> 0x40000000"
    and room: "meta_bytes bsz ss < bsz"
  shows "\<exists>b. kheap_add_block heap addr bsz ss s =
           Inr (heap\<lparr>kh_first := addr, kh_total_free_sections := kh_total_free_sections heap + kb_free_sections b,
                     kh_effective_size := kh_effective_size heap +
                       (bsz - sizeof_kheap_block + DIV_ROUND_UP bsz (ss * 32) * 4 * 2)\<rparr>,
                block_write addr b s) \<and>
         block_rel (meta_sections bsz ss) Map.empty b \<and> block_at addr b \<and> used_secs b = {..<meta_sections bsz ss} \<and>
         kb_next b = kh_first heap \<and> kb_block_size b = bsz \<and> kb_section_size b = ss \<and>
         unat (kb_first_free_section b) = meta_sections bsz ss"
proof -
  let ?L = "DIV_ROUND_UP bsz ss" and ?r = "DIV_ROUND_UP (meta_bytes bsz ss) ss" and ?D = "DIV_ROUND_UP bsz (ss * 32)"
  have pos: "0 < bsz" "0 < ss" "ss \<noteq> 0" "0 < unat ss"
    using room ss(1) by (auto simp: word_gt_0 word_le_nat_alt unat_gt_0)
  note L = section_count(1) [OF pos(1) bs ss(1,3)] and Lb = section_count(2,3) [OF pos(1) bs ss(1,3)]
    and meta = meta_bytes_value [OF pos(1) bs ss(1,2)]
  have m0: "0 < meta_bytes bsz ss"
    using meta(2) by (metis add_is_0 unat_0 word_gt_0 zero_neq_numeral)
  note r = DIV_ROUND_UP_ceiling [OF m0 pos(2)]
  have rL: "unat ?r \<le> unat ?L" "0 < unat ?r"
  proof -
    have "unat ?r * unat ss < (unat ?L + 1) * unat ss"
      using r(2) L room by (simp add: word_less_nat_alt)
    then show "unat ?r \<le> unat ?L"
      using mult_less_cancel2 [of "unat ?r" "unat ss" "unat ?L + 1"] by simp
    show "0 < unat ?r"
      using r(1) meta(2) by (cases "unat ?r") auto
  qed
  have L0: "0 < ?L"
    using Lb(1) by (simp add: word_gt_0 unat_gt_0)
  note ui = bitset_init_ok [OF L0, of "addr + sizeof_kheap_block"]
    and di = bitset_init_ok [OF L0, of "addr + sizeof_kheap_block + ?D * 4"]
  obtain u where u: "for_loop 0 ?r (\<lambda>i b. bitset_set_bit b i) (bitset_init (addr + sizeof_kheap_block) ?L) = Inr u"
    "bitset_inv u" "bitset_frame u = bitset_frame (bitset_init (addr + sizeof_kheap_block) ?L)" "bits u = {..<unat ?r}"
    using bs.set_range [OF ui(1), of 0 ?r] rL(1) ui(2,3) by (auto simp: word_le_nat_alt lessThan_atLeast0)
  let ?b = "\<lparr>kb_next = kh_first heap, kb_block_size = bsz, kb_section_size = ss, kb_first_free_section = ?r,
      kb_free_sections = ?L - ?r, kb_start = addr, kb_used_sections = u,
      kb_delimiters = bitset_init (addr + sizeof_kheap_block + ?D * 4) ?L\<rparr>"
  have len: "bs_length u = ?L"
    using u(3) ui(3) by (simp add: bitset_frame_def)
  have free: "unat (?L - ?r) = unat ?L - unat ?r"
    using rL(1) by (simp add: unat_sub word_le_nat_alt)
  have "block_rel (meta_sections bsz ss) Map.empty ?b"
    unfolding block_rel_def block_ok_def meta_sections_def
    using u(2,4) di len free rL Lb by (simp add: apart_def taken_def ends_def)
  moreover have "block_at addr ?b"
    using addr ss(1) L len by (simp add: block_at_def)
  moreover have "kheap_add_block heap addr bsz ss s =
      Inr (heap\<lparr>kh_first := addr, kh_total_free_sections := kh_total_free_sections heap + kb_free_sections ?b,
                kh_effective_size := kh_effective_size heap + (bsz - sizeof_kheap_block + ?D * 4 * 2)\<rparr>,
           block_write addr ?b s)"
    using addr(1) ss(1) meta(1) pos(3) u(1) room
    by (simp add: kheap_add_block_def div_round_up_ok Let_def meta_bytes_def)
  ultimately show ?thesis
    by (intro exI [of _ ?b]) (simp add: meta_sections_def u(4))
qed

section \<open>A small block\<close>

text \<open>Eight sections, the first two reserved, one allocation of four sections.\<close>

definition sample_block :: kheap_block where
  "sample_block = \<lparr>kb_next = 0, kb_block_size = 128, kb_section_size = 16, kb_first_free_section = 6,
     kb_free_sections = 2, kb_start = 0x400000,
     kb_used_sections = \<lparr>bs_length = 8, bs_start = 0x400028, bs_cells = [0x3F]\<rparr>,
     kb_delimiters = \<lparr>bs_length = 8, bs_start = 0x40002C, bs_cells = [0x20]\<rparr>\<rparr>"

lemma sample_block_bits: "used_secs sample_block = {..<6}" "bits (kb_delimiters sample_block) = {5}"
proof -
  have "[0..<8] = [0, 1, 2, 3, 4, 5, 6, 7::nat]"
    by (simp add: upt_rec)
  then show "used_secs sample_block = {..<6}" "bits (kb_delimiters sample_block) = {5}"
    by (auto simp: bits_def sample_block_def)
qed

lemma sample_block_rel: "block_rel 2 [2 \<mapsto> 4] sample_block"
proof -
  have "taken [2 \<mapsto> 4] = {2..<6}" "ends [2 \<mapsto> 4] = {5}"
    by (auto simp: taken_def ends_def split: if_splits)
  then show ?thesis
    unfolding block_rel_def sample_block_bits
    by (auto simp: block_ok_def apart_def bitset_inv_def sample_block_def split: if_splits)
qed

section \<open>Properties\<close>

text \<open>
  C21: The marking loop with its whole-cell fast path gives the same set of used sections as setting
  the bits of the run one by one.
\<close>

theorem mark_sections_is_loop:
  assumes "bitset_inv b" and "j \<le> stop" and "stop \<le> bs_length b" and "unat stop \<le> 0x10000000"
  shows "\<exists>b1 b2. mark_sections j stop b = Some (Inr b1) \<and> for_loop j stop (\<lambda>i b. bitset_set_bit b i) b = Inr b2 \<and>
           bitset_frame b1 = bitset_frame b2 \<and> bits b1 = bits b2"
  using mark_sections_ok [of b j stop] bs.set_range [of b j stop] assms by (auto simp: word_le_nat_alt)

theorem mark_sections_is_loop_witness:
  "\<exists>b1 b2. mark_sections 3 70 (bitset_init 0 100) = Some (Inr b1) \<and>
     for_loop 3 70 (\<lambda>i b. bitset_set_bit b i) (bitset_init 0 100) = Inr b2 \<and> bits b1 = bits b2"
  using mark_sections_is_loop [OF bitset_init_ok(1), of 100 3 70 0] by (auto simp: bitset_init_def)

text \<open>
  C12: Taking \<open>n\<close> sections at the place the scan found, and releasing them at an address in any of
  them, are insertion into and deletion from the block's map of allocations. Exactly the sections before
  the one of the address stay marked used, so none do when it is the first.
\<close>

theorem block_ops_refine_map:
  assumes "block_rel r A cur" and "n \<noteq> 0" and "block_scan cur n = Inr (Ret f)"
    and "udiv (addr - kb_start cur) (kb_section_size cur) = Inr k" and "f \<le> k" and "unat k < unat f + unat n"
  shows "\<exists>heap' cur1 cur2. block_take cur f n = Inr cur1 \<and> A (unat f) = None \<and> block_rel r (A(unat f \<mapsto> unat n)) cur1 \<and>
           block_release addr heap cur1 = Inr (heap', cur2) \<and> block_rel r A cur2 \<and>
           used_secs cur2 = used_secs cur \<union> {unat f..<unat k}"
proof -
  have run: "sec_run cur (unat n) (unat f)"
    using block_scan_ok [OF block_relD(1) [OF assms(1)] assms(2)] assms(3) by auto
  obtain cur1 where c1: "block_take cur f n = Inr cur1" "A (unat f) = None" "block_rel r (A(unat f \<mapsto> unat n)) cur1"
    "kb_section_size cur1 = kb_section_size cur" "kb_start cur1 = kb_start cur"
    "used_secs cur1 = used_secs cur \<union> {unat f..<unat f + unat n}"
    using block_take_ok [OF assms(1) run assms(2)] by auto
  obtain heap' cur2 where c2: "block_release addr heap cur1 = Inr (heap', cur2)"
    "block_rel r ((A(unat f \<mapsto> unat n))(unat f := None)) cur2" "used_secs cur2 = used_secs cur1 - {unat k..<unat f + unat n}"
    using block_release_ok [OF c1(3), of "unat f" "unat n" k addr heap] assms(4-6) c1(4,5) by (auto simp: word_le_nat_alt)
  have "(A(unat f \<mapsto> unat n))(unat f := None) = A"
    using c1(2) by auto
  moreover have "{unat k..<unat f + unat n} \<subseteq> {unat f..<unat f + unat n}" "{unat f..<unat f + unat n} \<inter> used_secs cur = {}"
    using run assms(5) by (auto simp: sec_run_def word_le_nat_alt)
  then have "used_secs cur2 = used_secs cur \<union> ({unat f..<unat f + unat n} - {unat k..<unat f + unat n})"
    unfolding c2(3) c1(6) by blast
  moreover have "{unat f..<unat f + unat n} - {unat k..<unat f + unat n} = {unat f..<unat k}"
    using assms(6) by auto
  ultimately show ?thesis
    using c1(1-3) c2(1,2) by auto
qed

theorem block_ops_refine_map_witness:
  "\<exists>heap heap' cur1 cur2. block_take sample_block 6 2 = Inr cur1 \<and> block_rel 2 [2 \<mapsto> 4, 6 \<mapsto> 2] cur1 \<and>
     block_release 0x400070 heap cur1 = Inr (heap', cur2) \<and> block_rel 2 [2 \<mapsto> 4] cur2 \<and> used_secs cur2 = {..<7}"
proof -
  have scan: "block_scan sample_block 2 = Inr (Ret 6)"
    by (simp add: block_scan_def block_scan_step_def sample_block_def for_ret.simps bitset_get_bit_def
        cell_read_def INDEX_FROM_BIT_def OFFSET_FROM_BIT_def bit_at_def)
  have adr: "udiv (0x400070 - kb_start sample_block) (kb_section_size sample_block) = Inr 7"
    by (simp add: sample_block_def)
  have "used_secs sample_block \<union> {6..<7} = {..<7}"
    unfolding sample_block_bits by auto
  then show ?thesis
    using block_ops_refine_map [OF sample_block_rel _ scan adr, of "kheap_init 16 0 0"] by fastforce
qed

end
