(* ===== verification/Kheap_List.thy ===== *)
theory Kheap_List
  imports Kheap_Block
begin

text \<open>
  The list of heap blocks: the invariant that ties the headers to a map of allocations, and the walks
  of \<open>kheap_malloc\<close> over one block and of \<open>kheap_free\<close> over the list.
\<close>

section \<open>The heap as a map of allocations\<close>

fun chain :: "(uintptr_t \<rightharpoonup> kheap_block) \<Rightarrow> uintptr_t \<Rightarrow> uintptr_t list \<Rightarrow> bool" where
  "chain m p [] \<longleftrightarrow> p = 0"
| "chain m p (q # qs) \<longleftrightarrow> p = q \<and> q \<noteq> 0 \<and> (case m q of None \<Rightarrow> False | Some b \<Rightarrow> chain m (kb_next b) qs)"

definition block_bytes :: "(uintptr_t \<rightharpoonup> kheap_block) \<Rightarrow> uintptr_t \<Rightarrow> nat set" where
  "block_bytes m p = (case m p of None \<Rightarrow> {} | Some b \<Rightarrow> {unat p..<unat p + unat (kb_block_size b)})"

definition block_free :: "(uintptr_t \<rightharpoonup> kheap_block) \<Rightarrow> uintptr_t \<Rightarrow> size_t" where
  "block_free m p = (case m p of None \<Rightarrow> 0 | Some b \<Rightarrow> kb_free_sections b)"

definition meta_of :: "kheap_block \<Rightarrow> nat" where
  "meta_of b = meta_sections (kb_block_size b) (kb_section_size b)"

text \<open>
  The list of blocks \<open>bl\<close> from the first on, and in each the allocations \<open>H p\<close>. Blocks lie apart,
  and the counters of free sections add up.
\<close>

definition heap_rel ::
  "uintptr_t list \<Rightarrow> (uintptr_t \<Rightarrow> allocs) \<Rightarrow> kheap \<Rightarrow> (uintptr_t \<rightharpoonup> kheap_block) \<Rightarrow> bool" where
  "heap_rel bl H heap m \<longleftrightarrow> chain m (kh_first heap) bl \<and> distinct bl \<and>
     (\<forall>p\<in>set bl. \<forall>b. m p = Some b \<longrightarrow> block_rel (meta_of b) (H p) b \<and> block_at p b) \<and>
     (\<forall>p\<in>set bl. \<forall>q\<in>set bl. p \<noteq> q \<longrightarrow> block_bytes m p \<inter> block_bytes m q = {}) \<and>
     kh_total_free_sections heap = sum_list (map (block_free m) bl)"

text \<open>The parts of a header that taking and releasing sections keep.\<close>

definition header :: "kheap_block \<Rightarrow> uintptr_t \<times> size_t \<times> u32 \<times> uintptr_t" where
  "header b = (kb_next b, kb_block_size b, kb_section_size b, kb_start b)"

lemma chain_ConsD:
  "chain m p (q # qs) \<Longrightarrow> \<exists>b. m p = Some b \<and> q = p \<and> p \<noteq> 0 \<and> chain m (kb_next b) qs"
  by (cases "m q") auto

lemma chain_member: "chain m p bl \<Longrightarrow> q \<in> set bl \<Longrightarrow> \<exists>b. m q = Some b"
  by (induction bl arbitrary: p) (auto split: option.splits)

lemma chain_write:
  "chain m p bl \<Longrightarrow> m q = Some b \<Longrightarrow> kb_next b' = kb_next b \<Longrightarrow> chain (m(q \<mapsto> b')) p bl"
  by (induction bl arbitrary: p) (auto split: option.splits)

lemma chain_other: "chain m p bl \<Longrightarrow> q \<notin> set bl \<Longrightarrow> chain (m(q \<mapsto> b')) p bl"
  by (induction bl arbitrary: p) (auto split: option.splits)

lemma block_bytes_write:
  "m q = Some b \<Longrightarrow> kb_block_size b' = kb_block_size b \<Longrightarrow> block_bytes (m(q \<mapsto> b')) p = block_bytes m p"
  by (simp add: block_bytes_def)

lemma sum_free_write:
  assumes "distinct bl" and "q \<in> set bl" and "m q = Some b"
  shows "sum_list (map (block_free (m(q \<mapsto> b'))) bl) =
           sum_list (map (block_free m) bl) - kb_free_sections b + kb_free_sections b'"
  using assms
proof (induction bl)
  case (Cons x xs)
  have other: "q \<notin> set xs \<Longrightarrow> map (block_free (m(q \<mapsto> b'))) xs = map (block_free m) xs"
    by (auto simp: block_free_def)
  show ?case
  proof (cases "x = q")
    case True
    then have "map (block_free (m(q \<mapsto> b'))) xs = map (block_free m) xs"
      using Cons.prems(1) other by simp
    moreover have "block_free (m(q \<mapsto> b')) x = kb_free_sections b'" "block_free m x = kb_free_sections b"
      using True Cons.prems(3) by (simp_all add: block_free_def)
    ultimately show ?thesis
      by (simp only: list.map sum_list.Cons) simp
  next
    case False
    then have "block_free (m(q \<mapsto> b')) x = block_free m x"
      by (simp add: block_free_def)
    then show ?thesis
      using Cons False by (simp del: fun_upd_apply)
  qed
qed simp

lemma heap_relD:
  assumes "heap_rel bl H heap m" and "p \<in> set bl"
  shows "\<exists>b. m p = Some b" and "m p = Some b \<Longrightarrow> block_rel (meta_of b) (H p) b" and "m p = Some b \<Longrightarrow> block_at p b"
  using assms chain_member unfolding heap_rel_def by blast+

lemma heap_rel_apart:
  assumes "heap_rel bl H heap m" and "p \<in> set bl" and "q \<in> set bl" and "p \<noteq> q" and "x \<in> block_bytes m p"
  shows "x \<notin> block_bytes m q"
  using assms unfolding heap_rel_def by blast

text \<open>Replacing one block by one with other allocations.\<close>

lemma heap_rel_write:
  assumes rel: "heap_rel bl H heap m" and p: "p \<in> set bl" "m p = Some b"
    and b': "block_rel (meta_of b) A b'" "header b' = header b" "sections b' = sections b"
    and tot: "kh_first heap' = kh_first heap"
      "kh_total_free_sections heap' = kh_total_free_sections heap - kb_free_sections b + kb_free_sections b'"
  shows "heap_rel bl (H(p := A)) heap' (m(p \<mapsto> b'))"
proof -
  have h: "kb_next b' = kb_next b" "kb_block_size b' = kb_block_size b" "meta_of b' = meta_of b"
    "block_at p b' = block_at p b"
    using b'(2,3) by (simp_all add: header_def meta_of_def block_at_def)
  note r = rel [unfolded heap_rel_def]
  have "chain (m(p \<mapsto> b')) (kh_first heap') bl"
    using chain_write [of m _ bl p b, OF _ p(2) h(1)] r tot(1) by simp
  moreover have "kh_total_free_sections heap' = sum_list (map (block_free (m(p \<mapsto> b'))) bl)"
    using sum_free_write [of bl p m b b', OF _ p] r tot(2) by simp
  moreover have "\<forall>q\<in>set bl. \<forall>c. (m(p \<mapsto> b')) q = Some c \<longrightarrow> block_rel (meta_of c) ((H(p := A)) q) c \<and> block_at q c"
    using r b'(1) h(3,4) p by auto
  ultimately show ?thesis
    using r block_bytes_write [of m p b, OF p(2) h(2)] unfolding heap_rel_def by simp
qed

section \<open>Serving a request from a block\<close>

text \<open>The bytes from \<open>out\<close> on lie within the \<open>n\<close> sections from \<open>f\<close> on of the block at \<open>p\<close>.\<close>

definition placed :: "uintptr_t \<Rightarrow> kheap_block \<Rightarrow> nat \<Rightarrow> nat \<Rightarrow> uintptr_t \<Rightarrow> nat \<Rightarrow> bool" where
  "placed p b f n out bytes \<longleftrightarrow> unat p + f * unat (kb_section_size b) \<le> unat out \<and>
     unat out + bytes \<le> unat p + (f + n) * unat (kb_section_size b)"

definition align_up :: "uintptr_t \<Rightarrow> u32 \<Rightarrow> uintptr_t" where
  "align_up a align = (if a mod align > 0 then a + (align - a mod align) else a)"

lemma align_up_ok:
  assumes "align \<noteq> 0" and "unat a + unat align < 4294967296"
  shows "unat align dvd unat (align_up a align)" and "unat a \<le> unat (align_up a align)"
    and "unat (align_up a align) < unat a + unat align"
proof -
  have al: "0 < unat align"
    using assms(1) by (simp add: unat_gt_0)
  have m: "unat (a mod align) = unat a mod unat align" "unat a mod unat align < unat align"
    using al by (simp_all add: unat_mod)
  have s: "unat (align - a mod align) = unat align - unat a mod unat align"
    using m by (simp add: unat_sub word_le_nat_alt)
  have e: "unat (align_up a align) =
      (if unat a mod unat align > 0 then unat a + (unat align - unat a mod unat align) else unat a)"
    using s m unat_add_no_wrap [of a "align - a mod align"] assms(2)
    by (auto simp: align_up_def word_less_nat_alt)
  have "unat a + (unat align - unat a mod unat align) = (unat a div unat align + 1) * unat align"
    using m(2) div_mult_mod_eq [of "unat a" "unat align"] by (simp only: distrib_right nat_mult_1)
  then show "unat align dvd unat (align_up a align)"
    using e by (auto simp: dvd_eq_mod_eq_0)
  have "0 < unat align - unat a mod unat align" "unat align - unat a mod unat align \<le> unat align"
    using m(2) by simp_all
  then show "unat a \<le> unat (align_up a align)" "unat (align_up a align) < unat a + unat align"
    unfolding e using al by (simp_all only: split: if_split) linarith+
qed

text \<open>Why a block does not serve a request.\<close>

definition refuses :: "kheap_block \<Rightarrow> size_t \<Rightarrow> bool" where
  "refuses b sz \<longleftrightarrow>
     sz > kb_block_size b - sizeof_kheap_block - (bs_length (kb_delimiters b) div 32) * 4
            - (bs_length (kb_used_sections b) div 32) * 4 \<or>
     DIV_ROUND_UP sz (kb_section_size b) > kb_free_sections b \<or>
     (\<forall>f. scan_from b \<le> f \<longrightarrow> \<not> sec_run b (unat (DIV_ROUND_UP sz (kb_section_size b))) f)"

text \<open>The outcome of a request that was served.\<close>

definition served ::
  "uintptr_t list \<Rightarrow> (uintptr_t \<Rightarrow> allocs) \<Rightarrow> size_t \<Rightarrow> size_t \<Rightarrow> bool \<Rightarrow> uintptr_t \<Rightarrow> kheap \<Rightarrow>
     (uintptr_t \<rightharpoonup> kheap_block) \<Rightarrow> (uintptr_t \<rightharpoonup> kheap_block) \<Rightarrow> bool" where
  "served bl H sz align manual_align out heap' m m' \<longleftrightarrow>
     (\<exists>p b b' f. p \<in> set bl \<and> m p = Some b \<and> m' = m(p \<mapsto> b') \<and> header b' = header b \<and>
        (let n = unat (DIV_ROUND_UP sz (kb_section_size b))
         in sec_run b n f \<and> used_secs b' = used_secs b \<union> {f..<f + n} \<and> heap_rel bl (H(p := (H p)(f \<mapsto> n))) heap' m' \<and>
            (if manual_align then unat align dvd unat out \<and> placed p b f n out (unat sz - unat align)
             else unat out = unat p + f * unat (kb_section_size b) \<and> placed p b f n out (unat sz))))"

lemma section_address:
  assumes ba: "block_at p b" and run: "sec_run b n (unat f)"
  shows "unat p + (unat f + n) * unat (kb_section_size b) < 4294967296"
    and "unat (p + f * kb_section_size b) = unat p + unat f * unat (kb_section_size b)"
proof -
  let ?ss = "kb_section_size b"
  have "(unat f + n) * unat ?ss \<le> sections b * unat ?ss"
    using run by (intro mult_le_mono1) (simp add: sec_run_def)
  also have "\<dots> = unat (kb_block_size b)"
    using ba by (simp add: block_at_def)
  finally show top: "unat p + (unat f + n) * unat ?ss < 4294967296"
    using ba by (simp add: block_at_def)
  have fs: "unat (f * ?ss) = unat f * unat ?ss"
    using top by (intro unat_mult_no_wrap) (simp add: algebra_simps)
  show "unat (p + f * ?ss) = unat p + unat f * unat ?ss"
    using top fs unat_add_no_wrap [of p "f * ?ss"] by (simp add: algebra_simps)
qed

text \<open>The address that is given out lies in the sections that were taken.\<close>

lemma placed_out:
  assumes ba: "block_at p b" and run: "sec_run b n (unat f)" and n: "unat sz \<le> n * unat (kb_section_size b)"
    and al: "manual_align \<longrightarrow> align \<noteq> 0 \<and> align \<le> sz"
    and out: "out = (if manual_align then align_up (p + f * kb_section_size b) align else p + f * kb_section_size b)"
  shows "if manual_align then unat align dvd unat out \<and> placed p b (unat f) n out (unat sz - unat align)
         else unat out = unat p + unat f * unat (kb_section_size b) \<and> placed p b (unat f) n out (unat sz)"
proof (cases manual_align)
  case True
  note a = section_address [OF ba run]
  have "unat (p + f * kb_section_size b) + unat align < 4294967296"
    using a n al True by (simp add: word_le_nat_alt algebra_simps)
  note u = align_up_ok [OF _ this]
  show ?thesis
    using True u al a(2) n by (simp add: out placed_def word_le_nat_alt algebra_simps)
next
  case False
  then show ?thesis
    using section_address(2) [OF ba run] n by (simp add: out placed_def algebra_simps)
qed

lemma kheap_try_block_ok:
  assumes rel: "heap_rel bl H heap (kheap_blocks s)" and p: "p \<in> set bl" "kheap_blocks s p = Some b"
    and sz: "0 < sz" and al: "manual_align \<longrightarrow> align \<noteq> 0 \<and> align \<le> sz"
  shows "kheap_try_block heap sz align manual_align p s = Inr ((None, heap), s) \<and> refuses b sz \<or>
         (\<exists>out heap' b'. kheap_try_block heap sz align manual_align p s = Inr ((Some out, heap'), block_write p b' s) \<and>
            served bl H sz align manual_align out heap' (kheap_blocks s) ((kheap_blocks s)(p \<mapsto> b')) \<and>
            kh_first heap' = kh_first heap \<and> kh_default_section_size heap' = kh_default_section_size heap \<and>
            kh_min_block_size heap' = kh_min_block_size heap \<and> header b' = header b)"
proof -
  have br: "block_rel (meta_of b) (H p) b" and ba: "block_at p b"
    using heap_relD(2,3) [OF rel p(1)] p(2) by simp_all
  note rs = block_relD [OF br]
  let ?ss = "kb_section_size b"
  let ?n = "DIV_ROUND_UP sz ?ss"
  have ss: "0 < ?ss" "?ss \<noteq> 0" "0 < unat ?ss"
    using ba by (auto simp: block_at_def word_gt_0 word_le_nat_alt unat_gt_0)
  have n: "?n \<noteq> 0" "unat sz \<le> unat ?n * unat ?ss"
    using unat_DIV_ROUND_UP [OF sz ss(1)] DIV_ROUND_UP_ceiling(1) [OF sz ss(1)] by auto
  let ?tight = "sz > kb_block_size b - sizeof_kheap_block - (bs_length (kb_delimiters b) div 32) * 4
            - (bs_length (kb_used_sections b) div 32) * 4 \<or> ?n > kb_free_sections b"
  consider (tight) ?tight
    | (no) st where "\<not> ?tight" "block_scan b ?n = Inr (Next st)" "\<forall>f. scan_from b \<le> f \<longrightarrow> \<not> sec_run b (unat ?n) f"
    | (found) f where "\<not> ?tight" "block_scan b ?n = Inr (Ret f)" "sec_run b (unat ?n) (unat f)"
    using block_scan_ok [OF rs(1) n(1)] by blast
  then show ?thesis
  proof cases
    case tight
    then show ?thesis
      using p(2) ss(2) by (auto simp: kheap_try_block_def block_read_def div_round_up_ok Let_def refuses_def)
  next
    case no
    then show ?thesis
      using p(2) ss(2) by (auto simp: kheap_try_block_def block_read_def div_round_up_ok Let_def refuses_def)
  next
    case found
    obtain b' where b': "block_take b f ?n = Inr b'" "block_rel (meta_of b) ((H p)(unat f \<mapsto> unat ?n)) b'"
      "kb_free_sections b' = kb_free_sections b - ?n" "sections b' = sections b" "header b' = header b"
      "used_secs b' = used_secs b \<union> {unat f..<unat f + unat ?n}"
      using block_take_ok [OF br found(3) n(1)] by (auto simp: header_def)
    let ?a = "p + f * ?ss"
    define out where "out = (if manual_align then align_up ?a align else ?a)"
    define heap' where "heap' = heap\<lparr>kh_total_free_sections := kh_total_free_sections heap - ?n\<rparr>"
    have eq: "kheap_try_block heap sz align manual_align p s = Inr ((Some out, heap'), block_write p b' s)"
      using p(2) ss(2) found(1,2) b'(1) al
      by (simp add: kheap_try_block_def block_read_def div_round_up_ok Let_def out_def align_up_def heap'_def)
    have hr: "heap_rel bl (H(p := (H p)(unat f \<mapsto> unat ?n))) heap' ((kheap_blocks s)(p \<mapsto> b'))"
      using heap_rel_write [OF rel p b'(2,5,4), of heap'] b'(3) by (simp add: heap'_def)
    have "if manual_align then unat align dvd unat out \<and> placed p b (unat f) (unat ?n) out (unat sz - unat align)
             else unat out = unat p + unat f * unat ?ss \<and> placed p b (unat f) (unat ?n) out (unat sz)"
      by (rule placed_out [OF ba found(3) n(2) al out_def])
    then have "served bl H sz align manual_align out heap' (kheap_blocks s) ((kheap_blocks s)(p \<mapsto> b'))"
      unfolding served_def using p found(3) hr b'(5,6)
      by (intro exI [of _ p] exI [of _ b] exI [of _ b'] exI [of _ "unat f"]) (simp add: Let_def)
    then show ?thesis
      using eq b'(5) by (auto simp: heap'_def)
  qed
qed

section \<open>Releasing an allocation\<close>

text \<open>The test of the walk is membership in the bytes of the block, its first byte excepted.\<close>

lemma in_block_iff:
  assumes "block_at q c"
  shows "(addr > kb_start c \<and> addr < kb_start c + kb_block_size c) \<longleftrightarrow>
           unat addr \<in> {unat q..<unat q + unat (kb_block_size c)} \<and> addr \<noteq> q"
proof -
  have "unat (kb_start c + kb_block_size c) = unat q + unat (kb_block_size c)"
    using assms unat_add_no_wrap [of q "kb_block_size c"] by (simp add: block_at_def)
  then show ?thesis
    using assms by (auto simp: block_at_def word_less_nat_alt word_unat_eq_iff)
qed

lemma kheap_free_loop_reaches:
  assumes rel: "heap_rel bl H heap (kheap_blocks s)" and p: "kheap_blocks s p = Some b" "p \<in> set bl"
    and addr: "unat addr \<in> block_bytes (kheap_blocks s) p" "addr \<noteq> p"
    and walk: "chain (kheap_blocks s) q qs" "set qs \<subseteq> set bl" "p \<in> set qs"
  shows "kheap_free_loop addr q heap s =
           Some (bindr (block_release addr heap b) (\<lambda>(heap, b). Inr ((True, heap), block_write p b s)))"
  using walk
proof (induction qs arbitrary: q)
  case (Cons x xs)
  obtain c where c: "kheap_blocks s q = Some c" "x = q" "q \<noteq> 0" "chain (kheap_blocks s) (kb_next c) xs"
    using chain_ConsD [OF Cons.prems(1)] by blast
  have at: "block_at q c"
    using Cons.prems(2) c(2) by (intro heap_relD(3) [OF rel _ c(1)]) simp
  have bytes: "block_bytes (kheap_blocks s) q = {unat q..<unat q + unat (kb_block_size c)}"
    using c(1) by (simp add: block_bytes_def)
  show ?case
  proof (cases "q = p")
    case True
    then show ?thesis
      using c p(1) addr bytes in_block_iff [OF at, of addr] by (subst kheap_free_loop.simps) (simp add: block_read_def)
  next
    case False
    then have "unat addr \<notin> block_bytes (kheap_blocks s) q"
      using Cons.prems(2) c(2) by (intro heap_rel_apart [OF rel p(2) _ _ addr(1)]) auto
    then have "\<not> (addr > kb_start c \<and> addr < kb_start c + kb_block_size c)"
      using in_block_iff [OF at, of addr] bytes by auto
    moreover have "kheap_free_loop addr (kb_next c) heap s =
        Some (bindr (block_release addr heap b) (\<lambda>(heap, b). Inr ((True, heap), block_write p b s)))"
      using Cons.IH [OF c(4)] Cons.prems(2,3) c(2) False by auto
    ultimately show ?thesis
      using c by (subst kheap_free_loop.simps) (auto simp: block_read_def)
  qed
qed simp

text \<open>
  An address inside an allocation releases it. The sections before the one of the address stay marked.
\<close>

lemma kheap_free_ok:
  assumes rel: "heap_rel bl H heap (kheap_blocks s)" and p: "p \<in> set bl" "kheap_blocks s p = Some b"
    and f: "H p f = Some n" and lo: "unat p + f * unat (kb_section_size b) \<le> unat addr"
    and hi: "unat addr < unat p + (f + n) * unat (kb_section_size b)"
  defines "k \<equiv> (unat addr - unat p) div unat (kb_section_size b)"
  shows "\<exists>heap' b'. kheap_free heap addr s = Inr ((True, heap'), block_write p b' s) \<and>
           heap_rel bl (H(p := (H p)(f := None))) heap' ((kheap_blocks s)(p \<mapsto> b')) \<and> header b' = header b \<and>
           used_secs b' = used_secs b - {k..<f + n} \<and>
           heap' = heap\<lparr>kh_total_free_sections := kh_total_free_sections heap + of_nat (f + n - k)\<rparr>"
proof -
  have br: "block_rel (meta_of b) (H p) b" and at: "block_at p b"
    using heap_relD(2,3) [OF rel p(1)] p(2) by simp_all
  note rs = block_relD [OF br]
  let ?ss = "unat (kb_section_size b)"
  have ss: "0 < ?ss" "kb_section_size b \<noteq> 0"
    using at by (auto simp: block_at_def word_le_nat_alt)
  have fn: "0 < n" "meta_of b \<le> f" "f + n \<le> sections b"
    using rs(9) [OF f] by simp_all
  have "(f + n) * ?ss \<le> sections b * ?ss"
    using fn by (intro mult_le_mono1) simp
  also have "\<dots> = unat (kb_block_size b)"
    using at by (simp add: block_at_def)
  finally have in_b: "unat addr \<in> block_bytes (kheap_blocks s) p"
    using p(2) lo hi by (simp add: block_bytes_def)
  have "0 < f * ?ss"
    using fn(2) rs(7) ss(1) by simp
  then have ne: "addr \<noteq> p"
    using lo by auto
  have fk: "f \<le> k" "k < f + n"
    using lo hi ss(1) by (simp_all add: k_def less_eq_div_iff_mult_less_eq div_less_iff_less_mult less_diff_conv2)
  have sub: "unat (addr - kb_start b) = unat addr - unat p"
    using lo at by (simp add: block_at_def unat_sub word_le_nat_alt)
  then have k: "udiv (addr - kb_start b) (kb_section_size b) = Inr (of_nat k)" "unat (of_nat k :: u32) = k"
    using ss(2) fk(2) fn(3) rs(6) by (auto simp: k_def word_unat_eq_iff unat_div unat_of_nat_u32)
  obtain b' where b': "block_release addr heap b =
      Inr (heap\<lparr>kh_total_free_sections := kh_total_free_sections heap + of_nat (f + n - k)\<rparr>, b')"
    "block_rel (meta_of b) ((H p)(f := None)) b'" "sections b' = sections b" "used_secs b' = used_secs b - {k..<f + n}"
    "kb_free_sections b' = kb_free_sections b + of_nat (f + n - k)" "header b' = header b"
    using block_release_ok [OF br f _ _ k(1), of heap] fk k(2) by (auto simp: header_def)
  have "chain (kheap_blocks s) (kh_first heap) bl"
    using rel by (simp add: heap_rel_def)
  then have "kheap_free heap addr s =
      Inr ((True, heap\<lparr>kh_total_free_sections := kh_total_free_sections heap + of_nat (f + n - k)\<rparr>), block_write p b' s)"
    using kheap_free_loop_reaches [OF rel p(2,1) in_b ne _ order_refl p(1)] b'(1) by (simp add: kheap_free_def)
  moreover have "heap_rel bl (H(p := (H p)(f := None)))
      (heap\<lparr>kh_total_free_sections := kh_total_free_sections heap + of_nat (f + n - k)\<rparr>) ((kheap_blocks s)(p \<mapsto> b'))"
    using heap_rel_write [OF rel p b'(2,6,3)] b'(5) by simp
  ultimately show ?thesis
    using b'(4,6) by blast
qed

text \<open>An address in no block is reported and changes nothing.\<close>

lemma kheap_free_loop_unknown:
  assumes rel: "heap_rel bl H heap (kheap_blocks s)"
    and out: "\<And>p. p \<in> set bl \<Longrightarrow> unat addr \<notin> block_bytes (kheap_blocks s) p"
    and walk: "chain (kheap_blocks s) q qs" "set qs \<subseteq> set bl"
  shows "kheap_free_loop addr q heap s = Some (Inr ((False, heap), s))"
  using walk
proof (induction qs arbitrary: q)
  case Nil
  then show ?case
    by (subst kheap_free_loop.simps) simp
next
  case (Cons x xs)
  obtain c where c: "kheap_blocks s q = Some c" "x = q" "q \<noteq> 0" "chain (kheap_blocks s) (kb_next c) xs"
    using chain_ConsD [OF Cons.prems(1)] by blast
  have "block_at q c"
    using Cons.prems(2) c(2) by (intro heap_relD(3) [OF rel _ c(1)]) simp
  then have "\<not> (addr > kb_start c \<and> addr < kb_start c + kb_block_size c)"
    using in_block_iff [of q c addr] out [of q] Cons.prems(2) c(1,2) by (auto simp: block_bytes_def)
  then show ?case
    using Cons.IH [OF c(4)] Cons.prems(2) c(1,3) by (subst kheap_free_loop.simps) (auto simp: block_read_def)
qed

lemma kheap_free_unknown:
  assumes "heap_rel bl H heap (kheap_blocks s)"
    and "\<And>p. p \<in> set bl \<Longrightarrow> unat addr \<notin> block_bytes (kheap_blocks s) p"
  shows "kheap_free heap addr s = Inr ((False, heap), s)"
  using kheap_free_loop_unknown [OF assms, of "kh_first heap" bl] assms(1) by (simp add: kheap_free_def heap_rel_def)

end
