(* ===== verification/Paging_Invariant.thy ===== *)
theory Paging_Invariant
  imports I386_Paging
begin

text \<open>
  Correctness of the operations of \<^verbatim>\<open>kernel/arch/i386/paging.c\<close> once paging is on. The paging
  structures are reached through the window page, so every step is an access through the memory
  management unit that those structures drive: the invariant says that this is safe, and the
  operations act on the translation of pages as updates of a map.
\<close>

section \<open>The window\<close>

abbreviation pdir :: "'a paging_state_scheme \<Rightarrow> u32" where
  "pdir s \<equiv> page_directory (i386_kernel_mmu_data s)"

abbreviation wpage :: "'a paging_state_scheme \<Rightarrow> u32" where
  "wpage s \<equiv> WINDOW_PAGE s div PAGE_SIZE"

abbreviation wtable :: "'a paging_state_scheme \<Rightarrow> u32" where
  "wtable s \<equiv> table_at (phys_mem s) (pdir s) (wpage s div 1024)"

text \<open>The window's own page table entry.\<close>

definition wentry :: "'a paging_state_scheme \<Rightarrow> u32" where
  "wentry s = entry_addr (wtable s) (wpage s mod 1024)"

text \<open>
  What the code needs to reach its structures: paging is on and the processor uses the kernel's
  directory; the directory and the window's table are mapped at their own addresses, and not by
  the window; tables do not overlap; and no stale translation is cached.
\<close>

definition mmu_ok :: "'a paging_state_scheme \<Rightarrow> bool" where
  "mmu_ok s \<longleftrightarrow> paging_on s \<and> early_init_done s \<and> cr3 s = pdir s \<and> page_aligned (WINDOW_PAGE s) \<and>
     tables_wf (phys_mem s) (pdir s) \<and> table_present (phys_mem s) (pdir s) (wpage s div 1024) \<and>
     walk (phys_mem s) (pdir s) (pdir s div PAGE_SIZE) = Some (pdir s) \<and>
     pdir s div PAGE_SIZE \<noteq> wpage s \<and>
     walk (phys_mem s) (pdir s) (wtable s div PAGE_SIZE) = Some (wtable s) \<and>
     wtable s div PAGE_SIZE \<noteq> wpage s \<and>
     tlb_ok (phys_mem s) (pdir s) (tlb s)"

lemma mmu_okD:
  assumes "mmu_ok s"
  shows "paging_on s" "early_init_done s" "frame_base (cr3 s) = pdir s" "page_aligned (WINDOW_PAGE s)"
    "tables_wf (phys_mem s) (pdir s)" "table_present (phys_mem s) (pdir s) (wpage s div 1024)"
    "walk (phys_mem s) (pdir s) (pdir s div PAGE_SIZE) = Some (pdir s)"
    "pdir s div PAGE_SIZE \<noteq> wpage s"
    "walk (phys_mem s) (pdir s) (wtable s div PAGE_SIZE) = Some (wtable s)"
    "wtable s div PAGE_SIZE \<noteq> wpage s"
    "tlb_ok (phys_mem s) (pdir s) (tlb s)" "page_aligned (pdir s)" "wtable s \<noteq> pdir s"
    "wpage s div 1024 < 1024"
  using assms by (auto simp: mmu_ok_def tables_wf_def frame_base_aligned table_present_def)

text \<open>The pages as the rest of the kernel sees them: all but the window.\<close>

definition mapping :: "'a paging_state_scheme \<Rightarrow> u32 \<rightharpoonup> u32" where
  "mapping s p = (if unat p < 1048576 \<and> p \<noteq> wpage s then walk (phys_mem s) (pdir s) p else None)"

text \<open>
  The states that differ from \<open>s\<close> only in where the window points and in what the lookaside
  buffer holds.
\<close>

definition window_moved :: "'a paging_state_scheme \<Rightarrow> 'a paging_state_scheme \<Rightarrow> bool" where
  "window_moved s s' \<longleftrightarrow> mmu_ok s \<and> mmu_ok s' \<and>
     (\<exists>x tb. s' = s\<lparr>phys_mem := (phys_mem s)(wentry s := x), tlb := tb\<rparr>)"

lemma wentry_walk:
  assumes "mmu_ok s" and "unat p < 1048576"
  shows "walk ((phys_mem s)(wentry s := x)) (pdir s) p =
    (if p = wpage s then if entry_present x then Some (frame_base x) else None
     else walk (phys_mem s) (pdir s) p)"
  using walk_update_pte [OF mmu_okD(5,6) [OF assms(1)] index_less_1024 assms(2)]
  by (auto simp: wentry_def intro: page_number_eqI)

lemma wentry_tables:
  assumes "mmu_ok s"
  shows "tables_wf ((phys_mem s)(wentry s := x)) (pdir s)"
    and "table_present ((phys_mem s)(wentry s := x)) (pdir s) = table_present (phys_mem s) (pdir s)"
    and "t < 1024 \<Longrightarrow> table_at ((phys_mem s)(wentry s := x)) (pdir s) t = table_at (phys_mem s) (pdir s) t"
    and "t < 1024 \<Longrightarrow> ((phys_mem s)(wentry s := x)) (entry_addr (pdir s) t) = phys_mem s (entry_addr (pdir s) t)"
proof -
  note ok = mmu_okD [OF assms]
  show "tables_wf ((phys_mem s)(wentry s := x)) (pdir s)"
    unfolding wentry_def by (rule tables_wf_update [OF ok(5) page_aligned_table_at ok(13) index_less_1024])
  note upd = tables_update [OF ok(12) page_aligned_table_at ok(13) index_less_1024]
  show "table_present ((phys_mem s)(wentry s := x)) (pdir s) = table_present (phys_mem s) (pdir s)"
    and "t < 1024 \<Longrightarrow> table_at ((phys_mem s)(wentry s := x)) (pdir s) t = table_at (phys_mem s) (pdir s) t"
    unfolding wentry_def by (rule upd, assumption?)+
  show "t < 1024 \<Longrightarrow> ((phys_mem s)(wentry s := x)) (entry_addr (pdir s) t) = phys_mem s (entry_addr (pdir s) t)"
    using entry_addr_eq_iff [OF ok(12) page_aligned_table_at _ index_less_1024] ok(13)
    by (simp add: wentry_def)
qed

text \<open>A write to the window's entry keeps \<open>mmu_ok\<close> once the window's translation is not cached.\<close>

lemma wentry_mmu_ok:
  assumes "mmu_ok s" and "tlb_ok ((phys_mem s)(wentry s := x)) (pdir s) tb"
  shows "mmu_ok (s\<lparr>phys_mem := (phys_mem s)(wentry s := x), tlb := tb\<rparr>)"
proof -
  note ok = mmu_okD [OF assms(1)]
  have "walk ((phys_mem s)(wentry s := x)) (pdir s) (pdir s div PAGE_SIZE) = Some (pdir s)"
    and "walk ((phys_mem s)(wentry s := x)) (pdir s) (wtable s div PAGE_SIZE) = Some (wtable s)"
    using ok by (simp_all add: wentry_walk [OF assms(1) unat_page_number])
  then show ?thesis
    using assms ok by (simp add: mmu_ok_def wentry_tables [OF assms(1)])
qed

lemma window_movedD:
  assumes "window_moved s s'"
  shows "mmu_ok s'" and "wentry s' = wentry s" and "wtable s' = wtable s"
    and "pdir s' = pdir s" and "WINDOW_PAGE s' = WINDOW_PAGE s"
    and "table_present (phys_mem s') (pdir s') = table_present (phys_mem s) (pdir s)"
    and "t < 1024 \<Longrightarrow> table_at (phys_mem s') (pdir s') t = table_at (phys_mem s) (pdir s) t"
    and "t < 1024 \<Longrightarrow> phys_mem s' (entry_addr (pdir s') t) = phys_mem s (entry_addr (pdir s) t)"
    and "mapping s' = mapping s"
    and "i386_mem_frame_bitset s' = i386_mem_frame_bitset s" and "meminfo s' = meminfo s"
    and "early_init_done s' = early_init_done s"
    and "i386_kernel_mmu_data s' = i386_kernel_mmu_data s"
proof -
  obtain x tb where ok: "mmu_ok s" and s': "s' = s\<lparr>phys_mem := (phys_mem s)(wentry s := x), tlb := tb\<rparr>"
    using assms by (auto simp: window_moved_def)
  show "mmu_ok s'"
    using assms by (simp add: window_moved_def)
  note t = wentry_tables [OF ok]
  show wt: "wtable s' = wtable s"
    using mmu_okD(14) [OF ok] by (simp add: s' t)
  then show "wentry s' = wentry s"
    unfolding wentry_def by (simp add: s')
  show "mapping s' = mapping s"
    by (auto simp: mapping_def s' fun_eq_iff wentry_walk [OF ok])
  show "t < 1024 \<Longrightarrow> phys_mem s' (entry_addr (pdir s') t) = phys_mem s (entry_addr (pdir s) t)"
    using t(4) by (simp add: s')
  show "table_present (phys_mem s') (pdir s') = table_present (phys_mem s) (pdir s)"
    and "t < 1024 \<Longrightarrow> table_at (phys_mem s') (pdir s') t = table_at (phys_mem s) (pdir s) t"
    by (simp_all add: s' t)
  show "pdir s' = pdir s" "WINDOW_PAGE s' = WINDOW_PAGE s"
    "i386_mem_frame_bitset s' = i386_mem_frame_bitset s" "meminfo s' = meminfo s"
    "early_init_done s' = early_init_done s" "i386_kernel_mmu_data s' = i386_kernel_mmu_data s"
    by (simp_all add: s')
qed

lemma window_moved_refl: "mmu_ok s \<Longrightarrow> window_moved s s"
  unfolding window_moved_def by (intro conjI exI [of _ "phys_mem s (wentry s)"] exI [of _ "tlb s"]) simp_all

lemma window_moved_trans:
  assumes "window_moved s s'" and "window_moved s' s''"
  shows "window_moved s s''"
proof -
  obtain x tb where s': "s' = s\<lparr>phys_mem := (phys_mem s)(wentry s := x), tlb := tb\<rparr>"
    using assms(1) by (auto simp: window_moved_def)
  obtain y tb' where s'': "s'' = s'\<lparr>phys_mem := (phys_mem s')(wentry s := y), tlb := tb'\<rparr>"
    using assms(2) window_movedD(2) [OF assms(1)] by (auto simp: window_moved_def)
  have "s'' = s\<lparr>phys_mem := (phys_mem s)(wentry s := y), tlb := tb'\<rparr>"
    by (simp add: s' s'')
  then show ?thesis
    using assms unfolding window_moved_def by blast
qed

text \<open>Warming the buffer with a right translation is such a change.\<close>

lemma window_moved_tlb:
  assumes "mmu_ok s" and "walk (phys_mem s) (pdir s) (v div PAGE_SIZE) = Some f"
  shows "window_moved s (s\<lparr>tlb := (tlb s)(v div PAGE_SIZE \<mapsto> f)\<rparr>)"
proof -
  let ?s = "s\<lparr>phys_mem := (phys_mem s)(wentry s := phys_mem s (wentry s)), tlb := (tlb s)(v div PAGE_SIZE \<mapsto> f)\<rparr>"
  have "mmu_ok ?s"
    using assms mmu_okD(11) [OF assms(1)] unat_page_number [of v]
    by (intro wentry_mmu_ok) (simp_all add: tlb_ok_insert)
  then show ?thesis
    using assms(1) unfolding window_moved_def
    by (intro conjI exI [of _ "phys_mem s (wentry s)"] exI [of _ "(tlb s)(v div PAGE_SIZE \<mapsto> f)"]) simp_all
qed

section \<open>Accesses through the window\<close>

lemma load_mapped:
  assumes "mmu_ok s" and "walk (phys_mem s) (pdir s) (v div PAGE_SIZE) = Some f" and "page_aligned v"
    and "i < 1024"
  shows "\<exists>s'. load32 (v + 4 * i) s = Inr (phys_mem s (entry_addr f i), s') \<and> window_moved s s' \<and>
           phys_mem s' = phys_mem s"
  using load_entry [OF mmu_okD(1,3,11) [OF assms(1)] assms(2-4)] window_moved_tlb [OF assms(1,2)]
  by simp

lemma TABLE_IN_DIR_mapped:
  assumes "mmu_ok s" and "walk (phys_mem s) (pdir s) (v div PAGE_SIZE) = Some (pdir s)"
    and "page_aligned v" and "t < 1024"
  shows "\<exists>s'. TABLE_IN_DIR t v s = Inr (table_at (phys_mem s) (pdir s) t, s') \<and> window_moved s s' \<and>
           phys_mem s' = phys_mem s"
proof -
  obtain s' where "load32 (v + 4 * t) s = Inr (phys_mem s (entry_addr (pdir s) t), s')"
    "window_moved s s'" "phys_mem s' = phys_mem s"
    using load_mapped [OF assms] by blast
  then show ?thesis
    by (simp add: TABLE_IN_DIR_def table_at_def frame_base_def)
qed

lemma get_virt_ptr_ok:
  assumes ok: "mmu_ok s" and x: "page_aligned x"
  shows "\<exists>s'. get_virt_ptr x s = Inr (WINDOW_PAGE s, s') \<and> window_moved s s' \<and>
           walk (phys_mem s') (pdir s) (wpage s) = Some x"
proof -
  note D = mmu_okD [OF ok]
  obtain s1 where s1: "TABLE_IN_DIR (wpage s div 1024) (pdir s) s = Inr (wtable s, s1)"
    "window_moved s s1" "phys_mem s1 = phys_mem s"
    using TABLE_IN_DIR_mapped [OF ok D(7,12,14)] by blast
  note D1 = mmu_okD [OF window_movedD(1) [OF s1(2)]] and same = window_movedD [OF s1(2)]
  let ?e = "x OR PT_PRESENT OR PT_RW"
  let ?m = "(phys_mem s)(wentry s := ?e)"
  have e: "entry_present ?e" "frame_base ?e = x"
    using frame_base_or [OF x, of "PT_PRESENT OR PT_RW"]
    by (simp_all add: PT_PRESENT_def PT_RW_def entry_present_def bit_or_iff frame_base_def or.assoc)
  obtain tb where st: "store32 (wtable s + 4 * (wpage s mod 1024)) ?e s1 =
      Inr (s1\<lparr>phys_mem := ?m, tlb := tb\<rparr>)" and tb: "tb = (tlb s1)(wtable s div PAGE_SIZE \<mapsto> wtable s)"
    using store_entry [OF D1(1,3,11,9) page_aligned_table_at index_less_1024, of _ ?e]
    by (simp add: same(3-5) s1(3) wentry_def)
  have "tlb_ok (phys_mem s) (pdir s) tb"
    using D1(11) D(9) unat_page_number by (simp add: tb same(4) s1(3) tlb_ok_insert)
  then have "tlb_ok ?m (pdir s) (tb(wpage s := None))"
    by (intro tlb_ok_change [OF tlb_ok_remove, where p = "wpage s"]) (simp_all add: wentry_walk [OF ok])
  then have ok': "mmu_ok (s\<lparr>phys_mem := ?m, tlb := tb(wpage s := None)\<rparr>)"
    by (rule wentry_mmu_ok [OF ok])
  obtain y tb1 where s1_eq: "s1 = s\<lparr>phys_mem := (phys_mem s)(wentry s := y), tlb := tb1\<rparr>"
    using s1(2) by (auto simp: window_moved_def)
  have "get_virt_ptr x s = Inr (WINDOW_PAGE s, s\<lparr>phys_mem := ?m, tlb := tb(wpage s := None)\<rparr>)"
    using x D(2) s1(1) st
    by (simp add: get_virt_ptr_def page_aligned_def PAGE_SIZE_def [symmetric] Let_def invlpg_def s1_eq)
  moreover have "window_moved s (s\<lparr>phys_mem := ?m, tlb := tb(wpage s := None)\<rparr>)"
    using ok ok' unfolding window_moved_def by blast
  moreover have "walk ?m (pdir s) (wpage s) = Some x"
    using e by (simp add: wentry_walk [OF ok unat_page_number])
  ultimately show ?thesis
    by simp
qed

section \<open>Looking up entries\<close>

lemma PRESENT_test [simp]:
  "(e AND PD_PRESENT = 0) = (\<not> entry_present e)" "(e AND PT_PRESENT = 0) = (\<not> entry_present e)"
  by (simp_all only: PD_PRESENT_def PT_PRESENT_def entry_present_and)

text \<open>The first steps of every operation: point the window at the directory and read an entry.\<close>

lemma read_directory:
  assumes ok: "mmu_ok s" and t: "t < 1024"
  shows "\<exists>s1 s2. get_virt_ptr (pdir s) s = Inr (WINDOW_PAGE s, s1) \<and>
           load32 (WINDOW_PAGE s + 4 * t) s1 = Inr (phys_mem s (entry_addr (pdir s) t), s2) \<and>
           window_moved s s2 \<and> walk (phys_mem s2) (pdir s) (wpage s) = Some (pdir s)"
proof -
  note D = mmu_okD [OF ok]
  obtain s1 where s1: "get_virt_ptr (pdir s) s = Inr (WINDOW_PAGE s, s1)" "window_moved s s1"
    "walk (phys_mem s1) (pdir s) (wpage s) = Some (pdir s)"
    using get_virt_ptr_ok [OF ok D(12)] by blast
  note same = window_movedD [OF s1(2)]
  obtain s2 where s2: "load32 (WINDOW_PAGE s + 4 * t) s1 = Inr (phys_mem s1 (entry_addr (pdir s) t), s2)"
    "window_moved s1 s2" "phys_mem s2 = phys_mem s1"
    using load_mapped [OF same(1), of "WINDOW_PAGE s" "pdir s" t] s1(3) D(4) t by (auto simp: same(4))
  have "phys_mem s1 (entry_addr (pdir s) t) = phys_mem s (entry_addr (pdir s) t)"
    using same(8) [OF t] by (simp add: same(4))
  then show ?thesis
    using s1 s2 window_moved_trans [OF s1(2) s2(2)] by auto
qed

text \<open>Then, for a present table: point the window at the table.\<close>

lemma open_table:
  assumes ok: "mmu_ok s" and v: "walk (phys_mem s) (pdir s) (v div PAGE_SIZE) = Some (pdir s)" "page_aligned v"
    and t: "t < 1024"
  shows "\<exists>s1 s2. TABLE_IN_DIR t v s = Inr (table_at (phys_mem s) (pdir s) t, s1) \<and>
           get_virt_ptr (table_at (phys_mem s) (pdir s) t) s1 = Inr (WINDOW_PAGE s, s2) \<and>
           window_moved s s2 \<and>
           walk (phys_mem s2) (pdir s) (wpage s) = Some (table_at (phys_mem s) (pdir s) t)"
proof -
  obtain s1 where s1: "TABLE_IN_DIR t v s = Inr (table_at (phys_mem s) (pdir s) t, s1)" "window_moved s s1"
    using TABLE_IN_DIR_mapped [OF ok v t] by blast
  note same = window_movedD [OF s1(2)]
  obtain s2 where s2: "get_virt_ptr (table_at (phys_mem s) (pdir s) t) s1 = Inr (WINDOW_PAGE s1, s2)"
    "window_moved s1 s2" "walk (phys_mem s2) (pdir s1) (wpage s1) = Some (table_at (phys_mem s) (pdir s) t)"
    using get_virt_ptr_ok [OF same(1) page_aligned_table_at] by blast
  then show ?thesis
    using s1 window_moved_trans [OF s1(2) s2(2)] by (simp add: same(4,5))
qed

lemma mapping_entry:
  assumes "unat p < 1048576" and "p \<noteq> wpage s"
  shows "mapping s p =
    (if table_present (phys_mem s) (pdir s) (p div 1024)
     then let e = phys_mem s (entry_addr (table_at (phys_mem s) (pdir s) (p div 1024)) (p mod 1024))
          in if entry_present e then Some (frame_base e) else None
     else None)"
  using assms by (simp add: mapping_def walk_alt)

lemma mapping_aligned: "mapping s p = Some f \<Longrightarrow> page_aligned f"
  by (auto simp: mapping_def walk_def Let_def split: if_splits)

lemma page_get_phys_ok:
  assumes ok: "mmu_ok s" and p: "address div PAGE_SIZE \<noteq> wpage s"
  shows "\<exists>s'. i386_page_get_phys (i386_kernel_mmu_data s) address s =
           Inr (case mapping s (address div PAGE_SIZE) of None \<Rightarrow> 0 | Some f \<Rightarrow> f, s') \<and> window_moved s s'"
proof -
  let ?p = "address div PAGE_SIZE"
  let ?t = "?p div 1024"
  have t: "?t < 1024"
    by (rule dir_index_less [OF unat_page_number])
  obtain s1 s2 where rd: "get_virt_ptr (pdir s) s = Inr (WINDOW_PAGE s, s1)"
    "load32 (WINDOW_PAGE s + 4 * ?t) s1 = Inr (phys_mem s (entry_addr (pdir s) ?t), s2)" "window_moved s s2"
    using read_directory [OF ok t] by blast
  note same = window_movedD [OF rd(3)] and D2 = mmu_okD [OF window_movedD(1) [OF rd(3)]]
  show ?thesis
  proof (cases "table_present (phys_mem s) (pdir s) ?t")
    case False
    then show ?thesis
      using rd t p by (simp add: i386_page_get_phys_def Let_def mapping_entry unat_page_number table_present_def)
  next
    case True
    obtain s3 s4 where op: "TABLE_IN_DIR ?t (pdir s) s2 = Inr (table_at (phys_mem s2) (pdir s) ?t, s3)"
      "get_virt_ptr (table_at (phys_mem s2) (pdir s) ?t) s3 = Inr (WINDOW_PAGE s, s4)" "window_moved s2 s4"
      "walk (phys_mem s4) (pdir s) (wpage s) = Some (table_at (phys_mem s2) (pdir s) ?t)"
      using open_table [OF same(1) D2(7,12) t] by (auto simp: same(4,5))
    note same4 = window_movedD [OF op(3)]
    obtain s5 where ld: "load32 (WINDOW_PAGE s + 4 * (?p mod 1024)) s4 =
        Inr (phys_mem s4 (entry_addr (table_at (phys_mem s2) (pdir s) ?t) (?p mod 1024)), s5)" "window_moved s4 s5"
      using load_mapped [OF same4(1) _ _ index_less_1024, of "WINDOW_PAGE s"] op(4) mmu_okD(4) [OF ok]
      by (auto simp: same4(4) same(4))
    have "mapping s ?p = mapping s4 ?p"
      using same(9) same4(9) by simp
    moreover have "?p \<noteq> wpage s4"
      using p by (simp add: same4(5) same(5))
    moreover have "table_present (phys_mem s4) (pdir s4) ?t"
      using True same(6) same4(6) by simp
    ultimately have "mapping s ?p = (let e = phys_mem s4 (entry_addr (table_at (phys_mem s2) (pdir s) ?t) (?p mod 1024))
        in if entry_present e then Some (frame_base e) else None)"
      using same4(7) [OF t] by (simp add: mapping_entry unat_page_number same(4))
    moreover have "window_moved s s5"
      using window_moved_trans [OF rd(3) window_moved_trans [OF op(3) ld(2)]] .
    ultimately show ?thesis
      using rd op ld True by (simp add: i386_page_get_phys_def Let_def table_present_def frame_base_def)
  qed
qed

section \<open>Writing a page table entry\<close>

lemma pte_update:
  fixes s :: "'a paging_state_scheme" and p e :: u32
  assumes ok: "mmu_ok s" and p: "unat p < 1048576" "p \<noteq> wpage s"
    and t: "table_present (phys_mem s) (pdir s) (p div 1024)"
    and fixed: "p \<noteq> pdir s div PAGE_SIZE" "p \<noteq> wtable s div PAGE_SIZE"
  defines "mem \<equiv> (phys_mem s)(entry_addr (table_at (phys_mem s) (pdir s) (p div 1024)) (p mod 1024) := e)"
  assumes tb: "tlb_ok mem (pdir s) tb"
  shows "mmu_ok (s\<lparr>phys_mem := mem, tlb := tb\<rparr>)"
    and "mapping (s\<lparr>phys_mem := mem, tlb := tb\<rparr>) =
           (mapping s)(p := if entry_present e then Some (frame_base e) else None)"
    and "table_present mem (pdir s) = table_present (phys_mem s) (pdir s)"
    and "u < 1024 \<Longrightarrow> table_at mem (pdir s) u = table_at (phys_mem s) (pdir s) u"
proof -
  note D = mmu_okD [OF ok]
  have T: "table_at (phys_mem s) (pdir s) (p div 1024) \<noteq> pdir s"
    using D(5) t by (simp add: tables_wf_def)
  note upd = tables_update [where mem = "phys_mem s" and e = e,
      OF D(12) page_aligned_table_at T index_less_1024 [of p], folded mem_def]
  show tp: "table_present mem (pdir s) = table_present (phys_mem s) (pdir s)"
    and ta: "u < 1024 \<Longrightarrow> table_at mem (pdir s) u = table_at (phys_mem s) (pdir s) u" for u
    using upd by simp_all
  have walk: "walk mem (pdir s) q = (if q = p then if entry_present e then Some (frame_base e) else None
      else walk (phys_mem s) (pdir s) q)" if "unat q < 1048576" for q
    using walk_update_pte [OF D(5) t index_less_1024 [of p] that, of e]
    by (auto simp: mem_def intro: page_number_eqI)
  show "mapping (s\<lparr>phys_mem := mem, tlb := tb\<rparr>) =
      (mapping s)(p := if entry_present e then Some (frame_base e) else None)"
    using p by (auto simp: mapping_def fun_eq_iff walk)
  have "tables_wf mem (pdir s)"
    unfolding mem_def by (rule tables_wf_update [OF D(5) page_aligned_table_at T index_less_1024])
  then show "mmu_ok (s\<lparr>phys_mem := mem, tlb := tb\<rparr>)"
    using ok D tb fixed by (simp add: mmu_ok_def walk unat_page_number tp ta)
qed

section \<open>The invariant of paging\<close>

text \<open>The frames that hold the directory and the tables.\<close>

definition struct_frames :: "'a paging_state_scheme \<Rightarrow> u32 set" where
  "struct_frames s = insert (pdir s)
     {table_at (phys_mem s) (pdir s) t | t. table_present (phys_mem s) (pdir s) t}"

definition frame_no :: "u32 \<Rightarrow> nat" where
  "frame_no f = unat f div 4096"

text \<open>
  The paging structures and every mapped page live in frames that are not free; no frame is
  mapped twice; and the pages above the memory that boot reserved are backed by frames the
  allocator manages, none of which holds a paging structure.
\<close>

definition paging_inv :: "'a paging_state_scheme \<Rightarrow> bool" where
  "paging_inv s \<longleftrightarrow> mmu_ok s \<and> frame_inv s \<and> 0 \<in> used_frames s \<and>
     (\<forall>f \<in> struct_frames s. frame_no f \<notin> free_frames s) \<and>
     (\<forall>p f. mapping s p = Some f \<longrightarrow> frame_no f \<notin> free_frames s) \<and>
     (\<forall>p q f. mapping s p = Some f \<longrightarrow> mapping s q = Some f \<longrightarrow> p = q) \<and>
     (\<forall>p f. mapping s p = Some f \<longrightarrow> KVIRT_RESERVED div PAGE_SIZE \<le> p \<longrightarrow>
        f \<notin> struct_frames s \<and> 0 < frame_no f \<and> frame_no f < frame_limit s)"

text \<open>Operations change memory, the lookaside buffer and the frame bitset, nothing else.\<close>

definition mm_only :: "'a paging_state_scheme \<Rightarrow> 'a paging_state_scheme \<Rightarrow> bool" where
  "mm_only s s' \<longleftrightarrow> (\<exists>m tb b. s' = s\<lparr>phys_mem := m, tlb := tb, i386_mem_frame_bitset := b\<rparr>)"

lemma mm_only_refl [simp]: "mm_only s s"
  unfolding mm_only_def
  by (intro exI [of _ "phys_mem s"] exI [of _ "tlb s"] exI [of _ "i386_mem_frame_bitset s"]) simp

lemma mm_only_trans: "mm_only s s' \<Longrightarrow> mm_only s' s'' \<Longrightarrow> mm_only s s''"
  unfolding mm_only_def
proof (elim exE)
  fix m tb b m' tb' b'
  assume "s' = s\<lparr>phys_mem := m, tlb := tb, i386_mem_frame_bitset := b\<rparr>"
    and "s'' = s'\<lparr>phys_mem := m', tlb := tb', i386_mem_frame_bitset := b'\<rparr>"
  then have "s'' = s\<lparr>phys_mem := m', tlb := tb', i386_mem_frame_bitset := b'\<rparr>"
    by simp
  then show "\<exists>m tb b. s'' = s\<lparr>phys_mem := m, tlb := tb, i386_mem_frame_bitset := b\<rparr>"
    by blast
qed

lemma mm_only_mem: "mm_only s (s\<lparr>phys_mem := m, tlb := tb\<rparr>)"
  unfolding mm_only_def by (intro exI [of _ m] exI [of _ tb] exI [of _ "i386_mem_frame_bitset s"]) simp

lemma mm_only_bitset: "mm_only s (s\<lparr>i386_mem_frame_bitset := b\<rparr>)"
  unfolding mm_only_def by (intro exI [of _ "phys_mem s"] exI [of _ "tlb s"] exI [of _ b]) simp

lemma mm_only_window: "window_moved s s' \<Longrightarrow> mm_only s s'"
  unfolding window_moved_def by (auto intro: mm_only_mem)

lemma mm_onlyD:
  assumes "mm_only s s'"
  shows "pdir s' = pdir s" "WINDOW_PAGE s' = WINDOW_PAGE s" "meminfo s' = meminfo s"
    "i386_kernel_mmu_data s' = i386_kernel_mmu_data s" "early_init_done s' = early_init_done s"
    "kpaging_data s' = kpaging_data s" "more s' = more s"
  using assms by (auto simp: mm_only_def)

lemma image_same: "(\<And>u. P u \<Longrightarrow> A' u = A u) \<Longrightarrow> {A' u | u. P u} = {A u | u. P u}"
  by force

lemma bitset_upd_mmu [simp]:
  "mmu_ok (s\<lparr>i386_mem_frame_bitset := b\<rparr>) = mmu_ok s"
  "mapping (s\<lparr>i386_mem_frame_bitset := b\<rparr>) = mapping s"
  "struct_frames (s\<lparr>i386_mem_frame_bitset := b\<rparr>) = struct_frames s"
  by (simp_all add: mmu_ok_def mapping_def struct_frames_def fun_eq_iff)

lemma window_moved_struct: "window_moved s s' \<Longrightarrow> struct_frames s' = struct_frames s"
  using window_movedD(4,6,7) [of s s'] unfolding struct_frames_def
  by (simp add: table_present_def) metis

lemma window_moved_frames:
  assumes "window_moved s s'"
  shows "frame_inv s' = frame_inv s" "used_frames s' = used_frames s" "free_frames s' = free_frames s"
    "frame_limit s' = frame_limit s"
  using window_movedD(10,11) [OF assms]
  by (simp_all add: frame_inv_def used_frames_def free_frames_def frame_limit_def)

lemma window_moved_inv:
  assumes "window_moved s s'"
  shows "paging_inv s' = paging_inv s"
proof -
  have "mmu_ok s" "mmu_ok s'"
    using assms by (simp_all add: window_moved_def)
  then show ?thesis
    unfolding paging_inv_def
    by (simp only: window_moved_struct [OF assms] window_moved_frames [OF assms] window_movedD(9) [OF assms])
qed

lemma struct_framesI: "table_present (phys_mem s) (pdir s) t \<Longrightarrow> table_at (phys_mem s) (pdir s) t \<in> struct_frames s"
  by (auto simp: struct_frames_def)

lemma pdir_struct [simp]: "pdir s \<in> struct_frames s"
  by (simp add: struct_frames_def)

lemma struct_aligned: "mmu_ok s \<Longrightarrow> f \<in> struct_frames s \<Longrightarrow> page_aligned f"
  using mmu_okD(12) by (auto simp: struct_frames_def)

section \<open>Frames as addresses\<close>

lemma frame_addr:
  assumes "unat f < 1048576"
  shows "unat (f * PAGE_SIZE) = 4096 * unat f" and "page_aligned (f * PAGE_SIZE)"
    and "frame_no (f * PAGE_SIZE) = unat f"
proof -
  show u: "unat (f * PAGE_SIZE) = 4096 * unat f"
    using assms unat_mult_no_wrap [of f PAGE_SIZE] by (simp add: PAGE_SIZE_def)
  show "page_aligned (f * PAGE_SIZE)" and "frame_no (f * PAGE_SIZE) = unat f"
    by (simp_all add: page_aligned_dvd frame_no_def u)
qed

lemma free_frame_bound: "k \<in> free_frames s \<Longrightarrow> k < 1048576"
  using frame_limit_less [of s] by (simp add: free_frames_def)

lemma frame_no_inject: "page_aligned f \<Longrightarrow> page_aligned g \<Longrightarrow> frame_no f = frame_no g \<longleftrightarrow> f = g"
  unfolding page_aligned_dvd frame_no_def word_unat_eq_iff by (metis dvd_div_mult_self)

section \<open>Filling and linking a new table\<close>

lemma fill_mmu_ok:
  assumes ok: "mmu_ok s" and F: "page_aligned F" "F \<notin> struct_frames s"
    and w: "walk (phys_mem s) (pdir s) (wpage s) = Some F"
  shows "\<exists>s'. memset32 (WINDOW_PAGE s) x 1024 s = Inr s' \<and> mmu_ok s' \<and> mapping s' = mapping s \<and>
           phys_mem s' = fill_frame (phys_mem s) F 1024 x \<and>
           (\<forall>t < 1024. phys_mem s' (entry_addr (pdir s) t) = phys_mem s (entry_addr (pdir s) t)) \<and>
           struct_frames s' = struct_frames s \<and>
           mm_only s s' \<and> i386_mem_frame_bitset s' = i386_mem_frame_bitset s"
proof -
  note D = mmu_okD [OF ok]
  have ne: "F \<noteq> pdir s" "\<And>t. table_present (phys_mem s) (pdir s) t \<Longrightarrow> table_at (phys_mem s) (pdir s) t \<noteq> F"
    using F(2) by (auto simp: struct_frames_def)
  let ?m = "fill_frame (phys_mem s) F 1024 x"
  obtain tb where tb: "memset32 (WINDOW_PAGE s) x 1024 s = Inr (s\<lparr>phys_mem := ?m, tlb := tb\<rparr>)"
    "tlb_ok ?m (pdir s) tb" "tables_wf ?m (pdir s)"
    "\<And>p. unat p < 1048576 \<Longrightarrow> walk ?m (pdir s) p = walk (phys_mem s) (pdir s) p"
    using memset_entries [OF D(1,3,11,5) w D(4) F(1) ne] by blast
  have dir: "?m (entry_addr (pdir s) t) = phys_mem s (entry_addr (pdir s) t)" if "t < 1024" for t
    using fill_frame_other [OF F(1) D(12) ne(1) [symmetric] that] by simp
  then have t: "table_present ?m (pdir s) = table_present (phys_mem s) (pdir s)"
    "\<And>t. t < 1024 \<Longrightarrow> table_at ?m (pdir s) t = table_at (phys_mem s) (pdir s) t"
    by (auto simp: table_present_def table_at_def fun_eq_iff)
  have "mmu_ok (s\<lparr>phys_mem := ?m, tlb := tb\<rparr>)"
    using ok D tb t by (simp add: mmu_ok_def unat_page_number)
  moreover have "mapping (s\<lparr>phys_mem := ?m, tlb := tb\<rparr>) = mapping s"
    by (simp add: mapping_def fun_eq_iff tb(4))
  moreover have "struct_frames (s\<lparr>phys_mem := ?m, tlb := tb\<rparr>) = struct_frames s"
    using image_same [of "table_present (phys_mem s) (pdir s)" "table_at ?m (pdir s)"] t(2)
    by (simp add: struct_frames_def t(1) table_present_def)
  ultimately show ?thesis
    using tb(1) dir mm_only_mem by simp
qed

lemma image_insert:
  assumes "\<And>u. P' u \<longleftrightarrow> u = t \<or> P u" and "\<And>u. P u \<Longrightarrow> A' u = A u" and "A' t = F"
  shows "{A' u | u. P' u} = insert F {A u | u. P u}"
  using assms by (auto; metis)

lemma link_mmu_ok:
  assumes ok: "mmu_ok s" and t: "t < 1024" "\<not> table_present (phys_mem s) (pdir s) t"
    and F: "page_aligned F" "F \<notin> struct_frames s" and fl: "frame_base fl = 0" "bit fl 0"
    and empty: "table_empty (phys_mem s) F"
    and w: "walk (phys_mem s) (pdir s) (wpage s) = Some (pdir s)"
  shows "\<exists>s'. store32 (WINDOW_PAGE s + 4 * t) (F OR fl) s = Inr s' \<and> mmu_ok s' \<and> mapping s' = mapping s \<and>
           struct_frames s' = insert F (struct_frames s) \<and> mm_only s s' \<and>
           i386_mem_frame_bitset s' = i386_mem_frame_bitset s \<and>
           walk (phys_mem s') (pdir s) (wpage s) = Some (pdir s) \<and>
           table_present (phys_mem s') (pdir s) t \<and> table_at (phys_mem s') (pdir s) t = F"
proof -
  note D = mmu_okD [OF ok]
  let ?m = "(phys_mem s)(entry_addr (pdir s) t := F OR fl)" and ?tb = "(tlb s)(wpage s \<mapsto> pdir s)"
  let ?s = "s\<lparr>phys_mem := ?m, tlb := ?tb\<rparr>"
  have st: "store32 (WINDOW_PAGE s + 4 * t) (F OR fl) s = Inr ?s"
    by (rule store_entry [OF D(1,3,11) w D(4) t(1)])
  have e: "entry_present (F OR fl)" "frame_base (F OR fl) = F"
    using fl frame_base_or [OF F(1) fl(1)] by (simp_all add: entry_present_def bit_or_iff)
  have ne: "F \<noteq> pdir s" "\<And>u. table_present (phys_mem s) (pdir s) u \<Longrightarrow> table_at (phys_mem s) (pdir s) u \<noteq> F"
    using F(2) by (auto simp: struct_frames_def)
  have walks: "walk ?m (pdir s) p = walk (phys_mem s) (pdir s) p" if "unat p < 1048576" for p
    using walk_link [OF D(5) t _ _ that, of "F OR fl"] e(2) ne(1) empty by simp
  have wf: "tables_wf ?m (pdir s)"
    using tables_wf_link [OF D(5) t, of "F OR fl"] e(2) ne by simp
  note link = tables_link [where mem = "phys_mem s" and e = "F OR fl", OF D(12) t(1)]
  have wt: "wpage s div 1024 \<noteq> t"
    using D(6) t(2) by auto
  have "tlb_ok ?m (pdir s) ?tb"
    using tlb_ok_same [OF D(11) walks] w walks unat_page_number by (simp add: tlb_ok_insert)
  then have "mmu_ok ?s"
    using ok D walks wf wt by (simp add: mmu_ok_def unat_page_number link)
  moreover have "mapping ?s = mapping s"
    by (simp add: mapping_def fun_eq_iff walks)
  moreover have "struct_frames ?s = insert F (struct_frames s)"
  proof -
    have "{table_at ?m (pdir s) u | u. table_present ?m (pdir s) u} =
        insert F {table_at (phys_mem s) (pdir s) u | u. table_present (phys_mem s) (pdir s) u}"
    proof (rule image_insert [where t = t])
      show "table_present ?m (pdir s) u \<longleftrightarrow> u = t \<or> table_present (phys_mem s) (pdir s) u" for u
        using link(1) [of u] e by auto
      show "table_at ?m (pdir s) u = table_at (phys_mem s) (pdir s) u"
        if "table_present (phys_mem s) (pdir s) u" for u
        using link(2) [of u] that t(2) by (auto simp: table_present_def)
      show "table_at ?m (pdir s) t = F"
        using link(2) [of t] t(1) e by simp
    qed
    then show ?thesis
      by (simp add: struct_frames_def insert_commute)
  qed
  ultimately show ?thesis
    using st mm_only_mem walks [OF unat_page_number] w link t(1) e by simp
qed

section \<open>Making sure a table exists\<close>

definition table_inv :: "'a paging_state_scheme \<Rightarrow> bool" where
  "table_inv s \<longleftrightarrow> mmu_ok s \<and> frame_inv s \<and> 0 \<in> used_frames s \<and>
     (\<forall>f \<in> struct_frames s. frame_no f \<notin> free_frames s)"

lemma table_invD:
  assumes "table_inv s"
  shows "mmu_ok s" "frame_inv s" "0 \<in> used_frames s" "f \<in> struct_frames s \<Longrightarrow> frame_no f \<notin> free_frames s"
  using assms by (auto simp: table_inv_def)

lemma window_moved_table_inv:
  assumes "window_moved s s'"
  shows "table_inv s' = table_inv s"
proof -
  have "mmu_ok s" "mmu_ok s'"
    using assms by (simp_all add: window_moved_def)
  then show ?thesis
    unfolding table_inv_def by (simp only: window_moved_struct [OF assms] window_moved_frames [OF assms])
qed

lemma free_frames_alt: "free_frames s = {..<frame_limit s} - used_frames s"
  by (simp add: free_frames_def)

lemma frame_limit_mm_only: "mm_only s s' \<Longrightarrow> frame_limit s' = frame_limit s"
  by (simp add: frame_limit_def mm_onlyD)

text \<open>Frame allocation inside the paging state.\<close>

lemma paging_allocate_frame:
  assumes inv: "table_inv s" and ne: "free_frames s \<noteq> {}"
  shows "\<exists>f s'. i386_mem_allocate_frame s = Inr (f, s') \<and> f \<noteq> 0 \<and> first_free s f \<and> mm_only s s' \<and>
           table_inv s' \<and> mapping s' = mapping s \<and> struct_frames s' = struct_frames s \<and>
           phys_mem s' = phys_mem s \<and> tlb s' = tlb s \<and>
           used_frames s' = insert (unat f) (used_frames s) \<and> free_frames s' = free_frames s - {unat f}"
proof -
  obtain f b where fb: "i386_mem_allocate_frame s = Inr (f, s\<lparr>i386_mem_frame_bitset := b\<rparr>)" "f \<noteq> 0"
    "first_free s f" "bitset_inv b" "bitset_frame b = bitset_frame (i386_mem_frame_bitset s)"
    "bits b = insert (unat f) (used_frames s)"
    using allocate_frame_some [OF table_invD(2) [OF inv] ne table_invD(3) [OF inv]] by blast
  let ?s = "s\<lparr>i386_mem_frame_bitset := b\<rparr>"
  have used: "used_frames ?s = insert (unat f) (used_frames s)"
    by (simp add: used_frames_def [of ?s] fb(6))
  then have free: "free_frames ?s = free_frames s - {unat f}"
    by (auto simp: free_frames_alt frame_limit_def)
  have "table_inv ?s"
    using inv frame_inv_bitset [OF table_invD(2) [OF inv] fb(4,5)]
    unfolding table_inv_def used free bitset_upd_mmu by blast
  then show ?thesis
    using fb(1-3) used free mm_only_bitset
    by - (rule exI [of _ f], rule exI [of _ ?s], simp)
qed

lemma first_free_frame:
  assumes "first_free s f" and "table_inv s"
  shows "unat f \<in> free_frames s" "unat f < 1048576" "page_aligned (f * PAGE_SIZE)"
    "frame_no (f * PAGE_SIZE) = unat f" "f * PAGE_SIZE \<notin> struct_frames s"
proof -
  show m: "unat f \<in> free_frames s"
    using assms(1) by (simp add: first_free_def)
  then show b: "unat f < 1048576"
    by (rule free_frame_bound)
  show "page_aligned (f * PAGE_SIZE)" and n: "frame_no (f * PAGE_SIZE) = unat f"
    using frame_addr [OF b] by simp_all
  show "f * PAGE_SIZE \<notin> struct_frames s"
    using table_invD(4) [OF assms(2)] m n by metis
qed

lemma fill_empty:
  assumes "page_aligned F"
  shows "table_empty (fill_frame mem F 1024 PT_RW) F"
  unfolding table_empty_def fill_frame_def by (auto simp: PT_RW_def entry_present_def)

text \<open>A new table: a free frame, filled with absent entries, not yet linked.\<close>

lemma allocate_page_table_ok:
  assumes inv: "table_inv s" and ne: "free_frames s \<noteq> {}"
  shows "\<exists>f s'. allocate_page_table kd s = Inr ((K_SUCCESS, f * PAGE_SIZE), s') \<and> first_free s f \<and>
           mm_only s s' \<and> table_inv s' \<and> mapping s' = mapping s \<and> struct_frames s' = struct_frames s \<and>
           used_frames s' = insert (unat f) (used_frames s) \<and>
           (\<forall>t < 1024. phys_mem s' (entry_addr (pdir s) t) = phys_mem s (entry_addr (pdir s) t)) \<and>
           table_empty (phys_mem s') (f * PAGE_SIZE)"
proof -
  obtain f s1 where a: "i386_mem_allocate_frame s = Inr (f, s1)" "f \<noteq> 0" "first_free s f" "mm_only s s1"
    "table_inv s1" "mapping s1 = mapping s" "struct_frames s1 = struct_frames s" "phys_mem s1 = phys_mem s"
    "used_frames s1 = insert (unat f) (used_frames s)"
    using paging_allocate_frame [OF inv ne] by blast
  note f = first_free_frame [OF a(3) inv]
  obtain s2 where v: "get_virt_ptr (f * PAGE_SIZE) s1 = Inr (WINDOW_PAGE s1, s2)" "window_moved s1 s2"
    "walk (phys_mem s2) (pdir s1) (wpage s1) = Some (f * PAGE_SIZE)"
    using get_virt_ptr_ok [OF table_invD(1) [OF a(5)] f(3)] by blast
  note same = window_movedD [OF v(2)]
  have st2: "struct_frames s2 = struct_frames s"
    using window_moved_struct [OF v(2)] a(7) by simp
  obtain s3 where m: "memset32 (WINDOW_PAGE s2) PT_RW 1024 s2 = Inr s3" "mmu_ok s3" "mapping s3 = mapping s2"
    "phys_mem s3 = fill_frame (phys_mem s2) (f * PAGE_SIZE) 1024 PT_RW"
    "\<forall>t < 1024. phys_mem s3 (entry_addr (pdir s2) t) = phys_mem s2 (entry_addr (pdir s2) t)"
    "struct_frames s3 = struct_frames s2" "mm_only s2 s3"
    "i386_mem_frame_bitset s3 = i386_mem_frame_bitset s2"
    using fill_mmu_ok [OF same(1) f(3), of PT_RW] f(5) v(3) by (auto simp: st2 same(4,5))
  have mm: "mm_only s s3"
    using a(4) v(2) m(7) mm_only_trans mm_only_window by blast
  have "used_frames s3 = used_frames s1" "frame_inv s3 = frame_inv s1" "free_frames s3 = free_frames s1"
    using m(8) mm_onlyD(3) [OF m(7)] same(10,11)
    by (simp_all add: used_frames_def frame_inv_def free_frames_def frame_limit_def)
  then have "table_inv s3"
    using a(5) m(2) unfolding table_inv_def by (simp add: m(6) st2 a(7))
  moreover have "allocate_page_table kd s = Inr ((K_SUCCESS, f * PAGE_SIZE), s3)"
    using a(1,2) v(1) m(1) mmu_okD(2) [OF table_invD(1) [OF inv]]
    by (simp add: allocate_page_table_def same(5))
  moreover have "\<forall>t < 1024. phys_mem s3 (entry_addr (pdir s) t) = phys_mem s (entry_addr (pdir s) t)"
    using m(5) same(4,8) a(8) mm_onlyD(1) [OF a(4)] by simp
  moreover have "table_empty (phys_mem s3) (f * PAGE_SIZE)"
    using fill_empty [OF f(3)] m(4) by simp
  ultimately show ?thesis
    using a(3,6,9) mm m(3,6) st2 same(9) \<open>used_frames s3 = used_frames s1\<close> by auto
qed

lemma allocate_page_table_oom:
  assumes inv: "table_inv s" and "free_frames s = {}"
  shows "allocate_page_table kd s = Inr ((K_OOM, 0), s)"
  using allocate_frame_none [OF table_invD(2) [OF inv] assms(2)] mmu_okD(2) [OF table_invD(1) [OF inv]]
  by (simp add: allocate_page_table_def)

lemma window_moved_empty:
  assumes "window_moved s s'" and "table_empty (phys_mem s) F" and "page_aligned F" and "F \<notin> struct_frames s"
  shows "table_empty (phys_mem s') F"
proof -
  obtain x tb where s': "s' = s\<lparr>phys_mem := (phys_mem s)(wentry s := x), tlb := tb\<rparr>"
    using assms(1) by (auto simp: window_moved_def)
  have "mmu_ok s"
    using assms(1) by (simp add: window_moved_def)
  then have "wtable s \<in> struct_frames s"
    using mmu_okD(6) struct_framesI by blast
  then have "entry_addr F i \<noteq> wentry s" if "i < 1024" for i
    using entry_addr_eq_iff [OF assms(3) page_aligned_table_at that index_less_1024] assms(4)
    by (auto simp: wentry_def)
  then show ?thesis
    using assms(2) by (auto simp: table_empty_def s')
qed

lemma ensure_table_present:
  assumes ok: "mmu_ok s" and t: "table_present (phys_mem s) (pdir s) t"
  shows "\<exists>s'. ensure_table kd (i386_kernel_mmu_data s) t fl s = Inr ((K_SUCCESS, WINDOW_PAGE s), s') \<and>
           window_moved s s' \<and> walk (phys_mem s') (pdir s) (wpage s) = Some (pdir s)"
proof -
  have "t < 1024" "entry_present (phys_mem s (entry_addr (pdir s) t))"
    using t by (simp_all add: table_present_def)
  then show ?thesis
    using read_directory [OF ok, of t] by (auto simp: ensure_table_def)
qed

lemma ensure_table_oom:
  assumes inv: "table_inv s" and t: "t < 1024" "\<not> table_present (phys_mem s) (pdir s) t"
    and none: "free_frames s = {}"
  shows "\<exists>s'. ensure_table kd (i386_kernel_mmu_data s) t fl s = Inr ((K_OOM, WINDOW_PAGE s), s') \<and>
           window_moved s s'"
proof -
  obtain s1 s2 where rd: "get_virt_ptr (pdir s) s = Inr (WINDOW_PAGE s, s1)"
    "load32 (WINDOW_PAGE s + 4 * t) s1 = Inr (phys_mem s (entry_addr (pdir s) t), s2)" "window_moved s s2"
    using read_directory [OF table_invD(1) [OF inv] t(1)] by blast
  have "allocate_page_table kd s2 = Inr ((K_OOM, 0), s2)"
    using inv none by (intro allocate_page_table_oom)
      (simp_all add: window_moved_table_inv [OF rd(3)] window_moved_frames [OF rd(3)])
  then show ?thesis
    using rd t by (simp add: ensure_table_def table_present_def)
qed


lemma ensure_table_new:
  assumes inv: "table_inv s" and t: "t < 1024" "\<not> table_present (phys_mem s) (pdir s) t"
    and ne: "free_frames s \<noteq> {}" and fl: "frame_base fl = 0" "bit fl 0"
  shows "\<exists>f s'. ensure_table kd (i386_kernel_mmu_data s) t fl s = Inr ((K_SUCCESS, WINDOW_PAGE s), s') \<and>
           first_free s f \<and> mm_only s s' \<and> table_inv s' \<and> mapping s' = mapping s \<and>
           struct_frames s' = insert (f * PAGE_SIZE) (struct_frames s) \<and>
           used_frames s' = insert (unat f) (used_frames s) \<and>
           table_present (phys_mem s') (pdir s) t \<and>
           walk (phys_mem s') (pdir s) (wpage s) = Some (pdir s)"
proof -
  obtain s1 s2 where rd: "get_virt_ptr (pdir s) s = Inr (WINDOW_PAGE s, s1)"
    "load32 (WINDOW_PAGE s + 4 * t) s1 = Inr (phys_mem s (entry_addr (pdir s) t), s2)" "window_moved s s2"
    using read_directory [OF table_invD(1) [OF inv] t(1)] by blast
  note w2 = window_movedD [OF rd(3)] and fr2 = window_moved_frames [OF rd(3)]
  have inv2: "table_inv s2" and ne2: "free_frames s2 \<noteq> {}"
    using inv ne by (simp_all add: window_moved_table_inv [OF rd(3)] fr2)
  obtain f s3 where a: "allocate_page_table kd s2 = Inr ((K_SUCCESS, f * PAGE_SIZE), s3)" "first_free s2 f"
    "mm_only s2 s3" "table_inv s3" "mapping s3 = mapping s2" "struct_frames s3 = struct_frames s2"
    "used_frames s3 = insert (unat f) (used_frames s2)"
    "\<forall>t < 1024. phys_mem s3 (entry_addr (pdir s2) t) = phys_mem s2 (entry_addr (pdir s2) t)"
    "table_empty (phys_mem s3) (f * PAGE_SIZE)"
    using allocate_page_table_ok [OF inv2 ne2] by blast
  note f = first_free_frame [OF a(2) inv2] and m3 = mm_onlyD [OF a(3)]
  obtain s4 where v: "get_virt_ptr (pdir s3) s3 = Inr (WINDOW_PAGE s3, s4)" "window_moved s3 s4"
    "walk (phys_mem s4) (pdir s3) (wpage s3) = Some (pdir s3)"
    using get_virt_ptr_ok [OF table_invD(1) [OF a(4)] mmu_okD(12) [OF table_invD(1) [OF a(4)]]] by blast
  note w4 = window_movedD [OF v(2)] and st4 = window_moved_struct [OF v(2)] and fr4 = window_moved_frames [OF v(2)]
  have "phys_mem s4 (entry_addr (pdir s4) t) = phys_mem s (entry_addr (pdir s) t)"
    using w4(8) [OF t(1)] a(8) w2(8) [OF t(1)] t(1) m3(1) by simp
  then have t4: "\<not> table_present (phys_mem s4) (pdir s4) t"
    using t by (simp add: table_present_def)
  have empty: "table_empty (phys_mem s4) (f * PAGE_SIZE)"
    using window_moved_empty [OF v(2) a(9) f(3)] f(5) a(6) by simp
  have F4: "f * PAGE_SIZE \<notin> struct_frames s4"
    using f(5) a(6) st4 by simp
  obtain s5 where l: "store32 (WINDOW_PAGE s4 + 4 * t) (f * PAGE_SIZE OR fl) s4 = Inr s5" "mmu_ok s5"
    "mapping s5 = mapping s4" "struct_frames s5 = insert (f * PAGE_SIZE) (struct_frames s4)" "mm_only s4 s5"
    "i386_mem_frame_bitset s5 = i386_mem_frame_bitset s4"
    "walk (phys_mem s5) (pdir s4) (wpage s4) = Some (pdir s4)" "table_present (phys_mem s5) (pdir s4) t"
    using link_mmu_ok [OF w4(1) t(1) t4 f(3) F4 fl empty] v(3) by (auto simp: w4(4,5))
  have mm: "mm_only s s5"
    using mm_only_trans [OF mm_only_window [OF rd(3)] mm_only_trans [OF a(3) mm_only_trans [OF mm_only_window [OF v(2)] l(5)]]] .
  have fr5: "used_frames s5 = used_frames s3" "frame_inv s5 = frame_inv s3" "free_frames s5 = free_frames s3"
    using l(6) mm_onlyD(3) [OF l(5)] w4(10,11)
    by (simp_all add: used_frames_def frame_inv_def free_frames_def frame_limit_def)
  have "unat f \<notin> free_frames s3"
    using a(7) by (simp add: free_frames_alt)
  then have "table_inv s5"
    using a(4) l(2) f(4) unfolding table_inv_def fr5 l(4) st4 by simp
  moreover have "ensure_table kd (i386_kernel_mmu_data s) t fl s = Inr ((K_SUCCESS, WINDOW_PAGE s), s5)"
    using rd t a(1) v(1) l(1) by (simp add: ensure_table_def table_present_def m3 w2 w4)
  moreover have "first_free s f"
    using a(2) by (simp add: first_free_def fr2)
  ultimately show ?thesis
    using mm l(3,4,7,8) st4 a(5-7) w4(4,5,9) w2(4,5,9) m3(1,2) fr5(1) fr2(2) window_moved_struct [OF rd(3)]
    by - (rule exI [of _ f], rule exI [of _ s5], simp)
qed

section \<open>Setting a page table entry through the window\<close>

text \<open>
  The state after entry \<open>e\<close> is stored for page \<open>p\<close> and the cached translation of \<open>p\<close> is dropped.
\<close>

lemma store_pte:
  fixes s :: "'a paging_state_scheme" and p e :: u32
  assumes ok: "mmu_ok s" and p: "unat p < 1048576" "p \<noteq> wpage s"
    and t: "table_present (phys_mem s) (pdir s) (p div 1024)"
    and w: "walk (phys_mem s) (pdir s) (wpage s) = Some (table_at (phys_mem s) (pdir s) (p div 1024))"
    and fixed: "p \<noteq> pdir s div PAGE_SIZE" "p \<noteq> wtable s div PAGE_SIZE"
  shows "\<exists>mem tb. store32 (WINDOW_PAGE s + 4 * (p mod 1024)) e s = Inr (s\<lparr>phys_mem := mem, tlb := tb\<rparr>) \<and>
           (tlb s p = None \<longrightarrow> tb p = None) \<and>
           mmu_ok (s\<lparr>phys_mem := mem, tlb := tb(p := None)\<rparr>) \<and>
           mapping (s\<lparr>phys_mem := mem, tlb := tb(p := None)\<rparr>) =
             (mapping s)(p := if entry_present e then Some (frame_base e) else None) \<and>
           struct_frames (s\<lparr>phys_mem := mem, tlb := tb(p := None)\<rparr>) = struct_frames s"
proof -
  note D = mmu_okD [OF ok]
  let ?T = "table_at (phys_mem s) (pdir s) (p div 1024)"
  define mem where "mem = (phys_mem s)(entry_addr ?T (p mod 1024) := e)"
  define tb where "tb = (tlb s)(wpage s \<mapsto> ?T)"
  have st: "store32 (WINDOW_PAGE s + 4 * (p mod 1024)) e s = Inr (s\<lparr>phys_mem := mem, tlb := tb\<rparr>)"
    unfolding mem_def tb_def by (rule store_entry [OF D(1,3,11) w D(4) index_less_1024])
  have walk: "walk mem (pdir s) q = walk (phys_mem s) (pdir s) q" if "unat q < 1048576" "q \<noteq> p" for q
    using walk_update_pte [OF D(5) t index_less_1024 [of p] that(1), of e] that(2)
    by (auto simp: mem_def dest: page_number_eqI)
  have "tlb_ok mem (pdir s) ((tlb s)(p := None))"
    using tlb_ok_change [OF tlb_ok_remove [OF D(11)], of p, OF walk] by simp
  then have "tlb_ok mem (pdir s) ((tlb s)(p := None, wpage s \<mapsto> ?T))"
    using w walk [OF unat_page_number p(2) [symmetric]] unat_page_number by (simp add: tlb_ok_insert)
  then have tb: "tlb_ok mem (pdir s) (tb(p := None))"
    using p(2) by (simp add: tb_def fun_upd_twist)
  note upd = pte_update [OF ok p t fixed, of e, folded mem_def, OF tb]
  have "struct_frames (s\<lparr>phys_mem := mem, tlb := tb(p := None)\<rparr>) = struct_frames s"
    using image_same [of "table_present (phys_mem s) (pdir s)" "table_at mem (pdir s)"] upd(4)
    by (simp add: struct_frames_def upd(3) table_present_def)
  then show ?thesis
    using st upd(1,2) p(2) by (intro exI [of _ mem] exI [of _ tb]) (simp add: tb_def)
qed

text \<open>The pages at which the directory and the window's table sit are mapped.\<close>

lemma fixed_pages_mapped:
  assumes "mmu_ok s"
  shows "mapping s (pdir s div PAGE_SIZE) = Some (pdir s)"
    and "mapping s (wtable s div PAGE_SIZE) = Some (wtable s)"
  using mmu_okD(7-10) [OF assms] by (simp_all add: mapping_def unat_page_number)

lemma unmapped_not_cached:
  assumes "mmu_ok s" and "mapping s p = None" and "p \<noteq> wpage s"
  shows "tlb s p = None"
proof (cases "tlb s p")
  case (Some f)
  then have "unat p < 1048576" "walk (phys_mem s) (pdir s) p = Some f"
    using mmu_okD(11) [OF assms(1)] by (auto simp: tlb_ok_def)
  then show ?thesis
    using assms(2,3) by (simp add: mapping_def)
qed

section \<open>Allocating a page\<close>

text \<open>The last part of the operation: enter the page in its table, which exists by now.\<close>

lemma enter_page:
  assumes ok: "mmu_ok s" and p: "unat p < 1048576" "p \<noteq> wpage s" and new: "mapping s p = None"
    and t: "table_present (phys_mem s) (pdir s) (p div 1024)"
    and w: "walk (phys_mem s) (pdir s) (wpage s) = Some (pdir s)"
    and F: "page_aligned F" and fl: "frame_base fl = 0" "bit fl 0"
  shows "\<exists>s1 s2 s3. TABLE_IN_DIR (p div 1024) (WINDOW_PAGE s) s = Inr (table_at (phys_mem s) (pdir s) (p div 1024), s1) \<and>
           get_virt_ptr (table_at (phys_mem s) (pdir s) (p div 1024)) s1 = Inr (WINDOW_PAGE s, s2) \<and>
           store32 (WINDOW_PAGE s + 4 * (p mod 1024)) (F OR fl) s2 = Inr s3 \<and>
           mmu_ok s3 \<and> mm_only s s3 \<and> i386_mem_frame_bitset s3 = i386_mem_frame_bitset s \<and>
           mapping s3 = (mapping s)(p \<mapsto> F) \<and> struct_frames s3 = struct_frames s"
proof -
  have tl: "p div 1024 < 1024"
    using t by (simp add: table_present_def)
  obtain s1 s2 where op: "TABLE_IN_DIR (p div 1024) (WINDOW_PAGE s) s = Inr (table_at (phys_mem s) (pdir s) (p div 1024), s1)"
    "get_virt_ptr (table_at (phys_mem s) (pdir s) (p div 1024)) s1 = Inr (WINDOW_PAGE s, s2)" "window_moved s s2"
    "walk (phys_mem s2) (pdir s) (wpage s) = Some (table_at (phys_mem s) (pdir s) (p div 1024))"
    using open_table [OF ok w mmu_okD(4) [OF ok] tl] by blast
  note w2 = window_movedD [OF op(3)]
  have new2: "mapping s2 p = None" and p2: "p \<noteq> wpage s2"
    using new p(2) by (simp_all add: w2(5,9))
  have e: "entry_present (F OR fl)" "frame_base (F OR fl) = F"
    using fl frame_base_or [OF F fl(1)] by (simp_all add: entry_present_def bit_or_iff)
  have fixed: "p \<noteq> pdir s2 div PAGE_SIZE" "p \<noteq> wtable s2 div PAGE_SIZE"
    using fixed_pages_mapped [OF w2(1)] new2 by auto
  have t2: "table_present (phys_mem s2) (pdir s2) (p div 1024)"
    and walk2: "walk (phys_mem s2) (pdir s2) (wpage s2) = Some (table_at (phys_mem s2) (pdir s2) (p div 1024))"
    using t op(4) by (simp_all only: w2(6) w2(7) [OF tl]) (simp add: w2(4,5))
  obtain mem tb where st: "store32 (WINDOW_PAGE s2 + 4 * (p mod 1024)) (F OR fl) s2 = Inr (s2\<lparr>phys_mem := mem, tlb := tb\<rparr>)"
    "tlb s2 p = None \<longrightarrow> tb p = None" "mmu_ok (s2\<lparr>phys_mem := mem, tlb := tb(p := None)\<rparr>)"
    "mapping (s2\<lparr>phys_mem := mem, tlb := tb(p := None)\<rparr>) =
       (mapping s2)(p := if entry_present (F OR fl) then Some (frame_base (F OR fl)) else None)"
    "struct_frames (s2\<lparr>phys_mem := mem, tlb := tb(p := None)\<rparr>) = struct_frames s2"
    using store_pte [OF w2(1) p(1) p2 t2 walk2 fixed] by blast
  have "tb p = None"
    using st(2) unmapped_not_cached [OF w2(1) new2 p2] by simp
  then have "tb(p := None) = tb"
    by (simp add: fun_upd_idem)
  then show ?thesis
    using op(1,2) st e mm_only_trans [OF mm_only_window [OF op(3)] mm_only_mem] w2(5,9,10)
      window_moved_struct [OF op(3)]
    by (intro exI [of _ s1] exI [of _ s2] exI [of _ "s2\<lparr>phys_mem := mem, tlb := tb\<rparr>"]) simp
qed

text \<open>How the invariant follows when frame \<open>F\<close>, free before, becomes mapped at page \<open>p\<close>.\<close>

lemma paging_inv_mapped:
  assumes inv: "paging_inv s" and t: "table_inv s'" and F: "page_aligned F" "frame_no F \<in> free_frames s"
    and used: "used_frames s \<subseteq> used_frames s'" "frame_no F \<in> used_frames s'" and lim: "frame_limit s' = frame_limit s"
    and map: "mapping s' = (mapping s)(p \<mapsto> F)"
    and st: "\<And>g. g \<in> struct_frames s' \<Longrightarrow> g \<notin> struct_frames s \<Longrightarrow> page_aligned g \<and> frame_no g \<in> free_frames s \<and> g \<noteq> F"
  shows "paging_inv s'"
proof -
  have free: "free_frames s' \<subseteq> free_frames s" "frame_no F \<notin> free_frames s'"
    using used lim by (auto simp: free_frames_alt)
  have old: "\<And>q g. mapping s q = Some g \<Longrightarrow> frame_no g \<notin> free_frames s"
    "\<And>q r g. mapping s q = Some g \<Longrightarrow> mapping s r = Some g \<Longrightarrow> q = r"
    "\<And>q g. mapping s q = Some g \<Longrightarrow> KVIRT_RESERVED div PAGE_SIZE \<le> q \<Longrightarrow>
       g \<notin> struct_frames s \<and> 0 < frame_no g \<and> frame_no g < frame_limit s"
    "\<And>g. g \<in> struct_frames s \<Longrightarrow> frame_no g \<notin> free_frames s"
    using inv unfolding paging_inv_def by blast+
  have "\<forall>q g. mapping s' q = Some g \<longrightarrow> frame_no g \<notin> free_frames s'"
    using old(1) free by (auto simp: map)
  moreover have "\<forall>q r g. mapping s' q = Some g \<longrightarrow> mapping s' r = Some g \<longrightarrow> q = r"
    using old(1,2) F(2) by (auto simp: map)
  moreover have "\<forall>q g. mapping s' q = Some g \<longrightarrow> KVIRT_RESERVED div PAGE_SIZE \<le> q \<longrightarrow>
      g \<notin> struct_frames s' \<and> 0 < frame_no g \<and> frame_no g < frame_limit s'"
  proof (intro allI impI)
    fix q g
    assume q: "mapping s' q = Some g" "KVIRT_RESERVED div PAGE_SIZE \<le> q"
    have "0 \<in> used_frames s"
      using inv by (simp add: paging_inv_def)
    then have "0 < frame_no F" "frame_no F < frame_limit s" "F \<notin> struct_frames s"
      using F(2) old(4) by (auto simp: free_frames_alt intro: gr0I)
    then show "g \<notin> struct_frames s' \<and> 0 < frame_no g \<and> frame_no g < frame_limit s'"
      using q old(1) old(3) [of q g] st [of g] by (auto simp: map lim split: if_splits)
  qed
  ultimately show ?thesis
    using t unfolding table_inv_def paging_inv_def by blast
qed

lemma paging_inv_table: "paging_inv s \<Longrightarrow> table_inv s"
  by (simp add: paging_inv_def table_inv_def)

lemma table_inv_upto:
  assumes "table_inv s" and "mmu_ok s'" and "mm_only s s'"
    and "i386_mem_frame_bitset s' = i386_mem_frame_bitset s" and "struct_frames s' = struct_frames s"
  shows "table_inv s'" and "used_frames s' = used_frames s" and "free_frames s' = free_frames s"
proof -
  show u: "used_frames s' = used_frames s"
    by (simp add: used_frames_def assms(4))
  show f: "free_frames s' = free_frames s"
    using frame_limit_mm_only [OF assms(3)] by (simp add: free_frames_alt u)
  show "table_inv s'"
    using assms(1,2) unfolding table_inv_def f u assms(5)
    by (simp add: frame_inv_def assms(4) mm_onlyD(3) [OF assms(3)])
qed

text \<open>How many frames the operation takes: the page's, and one for its table when that is missing.\<close>

definition frames_needed :: "'a paging_state_scheme \<Rightarrow> u32 \<Rightarrow> nat" where
  "frames_needed s p = (if table_present (phys_mem s) (pdir s) (p div 1024) then 1 else 2)"

text \<open>Either way the table exists afterwards, at the cost of at most one more frame.\<close>

lemma ensure_table_cases:
  assumes inv: "table_inv s" and t: "t < 1024" and fl: "frame_base fl = 0" "bit fl 0"
    and room: "table_present (phys_mem s) (pdir s) t \<or> free_frames s \<noteq> {}"
  shows "\<exists>s'. ensure_table kd (i386_kernel_mmu_data s) t fl s = Inr ((K_SUCCESS, WINDOW_PAGE s), s') \<and>
           mm_only s s' \<and> table_inv s' \<and> mapping s' = mapping s \<and>
           table_present (phys_mem s') (pdir s) t \<and> walk (phys_mem s') (pdir s) (wpage s) = Some (pdir s) \<and>
           used_frames s \<subseteq> used_frames s' \<and>
           card (free_frames s) = card (free_frames s') + (if table_present (phys_mem s) (pdir s) t then 0 else 1) \<and>
           (\<forall>g \<in> struct_frames s' - struct_frames s. page_aligned g \<and> frame_no g \<in> free_frames s)"
proof (cases "table_present (phys_mem s) (pdir s) t")
  case True
  obtain s' where s': "ensure_table kd (i386_kernel_mmu_data s) t fl s = Inr ((K_SUCCESS, WINDOW_PAGE s), s')"
    "window_moved s s'" "walk (phys_mem s') (pdir s) (wpage s) = Some (pdir s)"
    using ensure_table_present [OF table_invD(1) [OF inv] True] by blast
  note w = window_movedD [OF s'(2)]
  have "table_present (phys_mem s') (pdir s) t"
    using True w(4,6) by simp
  then show ?thesis
    using s' True inv mm_only_window [OF s'(2)] w(9) window_moved_struct [OF s'(2)]
    by (intro exI [of _ s']) (simp add: window_moved_table_inv [OF s'(2)] window_moved_frames [OF s'(2)])
next
  case False
  then have ne: "free_frames s \<noteq> {}"
    using room by blast
  obtain f s' where s': "ensure_table kd (i386_kernel_mmu_data s) t fl s = Inr ((K_SUCCESS, WINDOW_PAGE s), s')"
    "first_free s f" "mm_only s s'" "table_inv s'" "mapping s' = mapping s"
    "struct_frames s' = insert (f * PAGE_SIZE) (struct_frames s)" "used_frames s' = insert (unat f) (used_frames s)"
    "table_present (phys_mem s') (pdir s) t" "walk (phys_mem s') (pdir s) (wpage s) = Some (pdir s)"
    using ensure_table_new [OF inv t False ne fl] by blast
  note f = first_free_frame [OF s'(2) inv]
  have "free_frames s' = free_frames s - {unat f}"
    using s'(7) frame_limit_mm_only [OF s'(3)] by (auto simp: free_frames_alt)
  then have "card (free_frames s) = card (free_frames s') + 1"
    using f(1) card_Suc_Diff1 [OF finite_free_frames f(1)] by simp
  then show ?thesis
    using s' False f by (intro exI [of _ s']) auto
qed

lemma allocate_page_ok:
  assumes inv: "paging_inv s" and a: "page_aligned address" and p: "address div PAGE_SIZE \<noteq> wpage s"
    and new: "mapping s (address div PAGE_SIZE) = None"
    and pf: "frame_base ptf = 0" "bit ptf 0" and df: "frame_base pdf = 0" "bit pdf 0"
    and room: "frames_needed s (address div PAGE_SIZE) \<le> card (free_frames s)"
  shows "\<exists>f s'. i386_allocate_page kd (i386_kernel_mmu_data s) address ptf pdf s =
             Inr ((K_SUCCESS, Some (f * PAGE_SIZE)), s') \<and>
           first_free s f \<and> paging_inv s' \<and> mm_only s s' \<and>
           mapping s' = (mapping s)(address div PAGE_SIZE \<mapsto> f * PAGE_SIZE) \<and>
           used_frames s \<subseteq> used_frames s' \<and>
           card (free_frames s) = card (free_frames s') + frames_needed s (address div PAGE_SIZE)"
proof -
  let ?p = "address div PAGE_SIZE"
  note ti = paging_inv_table [OF inv]
  have t: "?p div 1024 < 1024"
    by (rule dir_index_less [OF unat_page_number])
  have ne: "free_frames s \<noteq> {}"
    using room by (auto simp: frames_needed_def split: if_splits)
  obtain f s1 where f1: "i386_mem_allocate_frame s = Inr (f, s1)" "f \<noteq> 0" "first_free s f" "mm_only s s1"
    "table_inv s1" "mapping s1 = mapping s" "struct_frames s1 = struct_frames s" "phys_mem s1 = phys_mem s"
    "used_frames s1 = insert (unat f) (used_frames s)" "free_frames s1 = free_frames s - {unat f}"
    using paging_allocate_frame [OF ti ne] by blast
  note f = first_free_frame [OF f1(3) ti] and m1 = mm_onlyD [OF f1(4)]
  have c1: "card (free_frames s) = card (free_frames s1) + 1"
    using f1(10) card_Suc_Diff1 [OF finite_free_frames f(1)] by simp
  have r1: "table_present (phys_mem s1) (pdir s1) (?p div 1024) \<or> free_frames s1 \<noteq> {}"
    using room c1 f1(8) m1(1) by (auto simp: frames_needed_def split: if_splits)
  obtain s2 where s2: "ensure_table kd (i386_kernel_mmu_data s1) (?p div 1024) pdf s1 = Inr ((K_SUCCESS, WINDOW_PAGE s1), s2)"
    "mm_only s1 s2" "table_inv s2" "mapping s2 = mapping s1"
    "table_present (phys_mem s2) (pdir s1) (?p div 1024)" "walk (phys_mem s2) (pdir s1) (wpage s1) = Some (pdir s1)"
    "used_frames s1 \<subseteq> used_frames s2"
    "card (free_frames s1) = card (free_frames s2) + (if table_present (phys_mem s1) (pdir s1) (?p div 1024) then 0 else 1)"
    "\<forall>g \<in> struct_frames s2 - struct_frames s1. page_aligned g \<and> frame_no g \<in> free_frames s1"
    using ensure_table_cases [OF f1(5) t df r1] by blast
  note m2 = mm_onlyD [OF s2(2)]
  have new2: "mapping s2 ?p = None" and p2: "?p \<noteq> wpage s2"
    using new p by (simp_all add: s2(4) f1(6) m1(2) m2(2))
  have t2: "table_present (phys_mem s2) (pdir s2) (?p div 1024)"
    and w2: "walk (phys_mem s2) (pdir s2) (wpage s2) = Some (pdir s2)"
    using s2(5,6) by (simp_all add: m2(1,2))
  obtain s3 s4 s5 where e: "TABLE_IN_DIR (?p div 1024) (WINDOW_PAGE s2) s2 = Inr (table_at (phys_mem s2) (pdir s2) (?p div 1024), s3)"
    "get_virt_ptr (table_at (phys_mem s2) (pdir s2) (?p div 1024)) s3 = Inr (WINDOW_PAGE s2, s4)"
    "store32 (WINDOW_PAGE s2 + 4 * (?p mod 1024)) (f * PAGE_SIZE OR ptf) s4 = Inr s5"
    "mmu_ok s5" "mm_only s2 s5" "i386_mem_frame_bitset s5 = i386_mem_frame_bitset s2"
    "mapping s5 = (mapping s2)(?p \<mapsto> f * PAGE_SIZE)" "struct_frames s5 = struct_frames s2"
    using enter_page [OF table_invD(1) [OF s2(3)] unat_page_number p2 new2 t2 w2 f(3) pf] by blast
  note fin = table_inv_upto [OF s2(3) e(4-6,8)]
  have mm: "mm_only s s5"
    using f1(4) s2(2) e(5) mm_only_trans by blast
  have map5: "mapping s5 = (mapping s)(?p \<mapsto> f * PAGE_SIZE)"
    by (simp add: e(7) s2(4) f1(6))
  have used: "used_frames s \<subseteq> used_frames s5" "unat f \<in> used_frames s5"
    using s2(7) fin(2) f1(9) by blast+
  have "paging_inv s5"
  proof (rule paging_inv_mapped [OF inv fin(1) f(3) _ used(1) _ _ map5])
    show "frame_no (f * PAGE_SIZE) \<in> free_frames s" "frame_no (f * PAGE_SIZE) \<in> used_frames s5"
      "frame_limit s5 = frame_limit s"
      using f(1,4) used(2) frame_limit_mm_only [OF mm] by simp_all
    fix g
    assume "g \<in> struct_frames s5" "g \<notin> struct_frames s"
    then have "page_aligned g \<and> frame_no g \<in> free_frames s - {unat f}"
      using s2(9) e(8) f1(7,10) by auto
    then show "page_aligned g \<and> frame_no g \<in> free_frames s \<and> g \<noteq> f * PAGE_SIZE"
      using f(4) by auto
  qed
  moreover have "frame_base (f * PAGE_SIZE OR ptf) = f * PAGE_SIZE"
    by (rule frame_base_or [OF f(3) pf(1)])
  then have "i386_allocate_page kd (i386_kernel_mmu_data s) address ptf pdf s =
      Inr ((K_SUCCESS, Some (f * PAGE_SIZE)), s5)"
    using a f1(1,2) s2(1) e(1-3)
    by (simp add: i386_allocate_page_def page_aligned_def Let_def m1 m2 frame_base_def)
  moreover have "card (free_frames s) = card (free_frames s5) + frames_needed s ?p"
    using c1 s2(8) f1(8) m1(1) fin(3) by (simp add: frames_needed_def)
  ultimately show ?thesis
    using f1(3) mm map5 used(1) by blast
qed

lemma allocate_page_oom:
  assumes inv: "paging_inv s" and a: "page_aligned address"
    and room: "card (free_frames s) < frames_needed s (address div PAGE_SIZE)"
  shows "\<exists>s'. i386_allocate_page kd (i386_kernel_mmu_data s) address ptf pdf s = Inr ((K_OOM, None), s') \<and>
           paging_inv s' \<and> mm_only s s' \<and> mapping s' = mapping s \<and> used_frames s' = used_frames s"
proof (cases "free_frames s = {}")
  case True
  have "i386_mem_allocate_frame s = Inr (0, s)"
    using allocate_frame_none [OF table_invD(2) [OF paging_inv_table [OF inv]] True] .
  then show ?thesis
    using a inv by (simp add: i386_allocate_page_def page_aligned_def Let_def)
next
  case False
  let ?p = "address div PAGE_SIZE"
  note ti = paging_inv_table [OF inv]
  have t: "?p div 1024 < 1024"
    by (rule dir_index_less [OF unat_page_number])
  obtain f s1 where f1: "i386_mem_allocate_frame s = Inr (f, s1)" "f \<noteq> 0" "first_free s f" "mm_only s s1"
    "table_inv s1" "mapping s1 = mapping s" "struct_frames s1 = struct_frames s" "phys_mem s1 = phys_mem s"
    "used_frames s1 = insert (unat f) (used_frames s)" "free_frames s1 = free_frames s - {unat f}"
    using paging_allocate_frame [OF ti False] by blast
  note f = first_free_frame [OF f1(3) ti] and m1 = mm_onlyD [OF f1(4)]
  have "card (free_frames s) = card (free_frames s1) + 1"
    using f1(10) card_Suc_Diff1 [OF finite_free_frames f(1)] by simp
  then have absent: "\<not> table_present (phys_mem s1) (pdir s1) (?p div 1024)" and none: "free_frames s1 = {}"
    using room f1(8) m1(1) by (auto simp: frames_needed_def split: if_splits)
  obtain s2 where s2: "ensure_table kd (i386_kernel_mmu_data s1) (?p div 1024) pdf s1 = Inr ((K_OOM, WINDOW_PAGE s1), s2)"
    "window_moved s1 s2"
    using ensure_table_oom [OF f1(5) t absent none] by blast
  note w2 = window_movedD [OF s2(2)] and fr2 = window_moved_frames [OF s2(2)]
  have "frame_inv s2" "unat f \<in> used_frames s2"
    using table_invD(2) [OF f1(5)] f1(9) by (simp_all add: fr2)
  then have "f < bs_length (i386_mem_frame_bitset s2)"
    using bs.ones_bound by (auto simp: used_frames_def word_less_nat_alt)
  then obtain b where b: "bitset_clear_bit (i386_mem_frame_bitset s2) f = Inr b" "bitset_inv b"
    "bitset_frame b = bitset_frame (i386_mem_frame_bitset s2)" "bits b = bits (i386_mem_frame_bitset s2) - {unat f}"
    using bs.clear_ok \<open>frame_inv s2\<close> frame_inv_def by blast
  let ?s3 = "s2\<lparr>i386_mem_frame_bitset := b\<rparr>"
  have used: "used_frames ?s3 = used_frames s"
    using b(4) f1(9) f(1) fr2(2) by (auto simp: used_frames_def free_frames_def)
  have mm: "mm_only s ?s3"
    using f1(4) mm_only_window [OF s2(2)] mm_only_bitset mm_only_trans by blast
  have free: "free_frames ?s3 = free_frames s"
    using frame_limit_mm_only [OF mm] by (simp add: free_frames_alt used)
  have "frame_inv ?s3"
    by (rule frame_inv_bitset [OF \<open>frame_inv s2\<close> b(2,3)])
  then have "paging_inv ?s3"
    using inv w2(1) unfolding paging_inv_def used free frame_limit_mm_only [OF mm]
    by (simp add: w2(9) f1(6,7) window_moved_struct [OF s2(2)])
  moreover have "i386_allocate_page kd (i386_kernel_mmu_data s) address ptf pdf s = Inr ((K_OOM, None), ?s3)"
    using a f1(1,2) s2(1) b(1)
    by (simp add: i386_allocate_page_def page_aligned_def Let_def m1 i386_mem_free_frame_def)
  ultimately show ?thesis
    using mm used w2(9) f1(6) by (intro exI [of _ ?s3]) simp
qed

section \<open>Freeing a page\<close>

text \<open>The walk down to the entry of page \<open>p\<close>, whose table exists.\<close>

lemma reach_entry:
  assumes ok: "mmu_ok s" and t: "table_present (phys_mem s) (pdir s) (p div 1024)" and p: "p \<noteq> wpage s" "unat p < 1048576"
  shows "\<exists>s1 s2 s3 s4 s5 e. get_virt_ptr (pdir s) s = Inr (WINDOW_PAGE s, s1) \<and>
           load32 (WINDOW_PAGE s + 4 * (p div 1024)) s1 = Inr (phys_mem s (entry_addr (pdir s) (p div 1024)), s2) \<and>
           TABLE_IN_DIR (p div 1024) (WINDOW_PAGE s) s2 = Inr (table_at (phys_mem s) (pdir s) (p div 1024), s3) \<and>
           get_virt_ptr (table_at (phys_mem s) (pdir s) (p div 1024)) s3 = Inr (WINDOW_PAGE s, s4) \<and>
           load32 (WINDOW_PAGE s + 4 * (p mod 1024)) s4 = Inr (e, s5) \<and>
           e = phys_mem s (entry_addr (table_at (phys_mem s) (pdir s) (p div 1024)) (p mod 1024)) \<and>
           window_moved s s5 \<and>
           walk (phys_mem s5) (pdir s) (wpage s) = Some (table_at (phys_mem s) (pdir s) (p div 1024))"
proof -
  let ?T = "table_at (phys_mem s) (pdir s) (p div 1024)"
  have tl: "p div 1024 < 1024"
    using t by (simp add: table_present_def)
  obtain s1 s2 where rd: "get_virt_ptr (pdir s) s = Inr (WINDOW_PAGE s, s1)"
    "load32 (WINDOW_PAGE s + 4 * (p div 1024)) s1 = Inr (phys_mem s (entry_addr (pdir s) (p div 1024)), s2)"
    "window_moved s s2" "walk (phys_mem s2) (pdir s) (wpage s) = Some (pdir s)"
    using read_directory [OF ok tl] by blast
  note w2 = window_movedD [OF rd(3)]
  have T2: "table_at (phys_mem s2) (pdir s) (p div 1024) = ?T"
    using w2(7) [OF tl] by (simp add: w2(4))
  obtain s3 s4 where op: "TABLE_IN_DIR (p div 1024) (WINDOW_PAGE s) s2 = Inr (?T, s3)"
    "get_virt_ptr ?T s3 = Inr (WINDOW_PAGE s, s4)" "window_moved s2 s4"
    "walk (phys_mem s4) (pdir s) (wpage s) = Some ?T"
    using open_table [OF w2(1), of "WINDOW_PAGE s" "p div 1024"] rd(4) mmu_okD(4) [OF ok] tl
    by (auto simp: w2(4,5) T2)
  note mv4 = window_moved_trans [OF rd(3) op(3)] and w4 = window_movedD [OF op(3)]
  obtain s5 where ld: "load32 (WINDOW_PAGE s + 4 * (p mod 1024)) s4 = Inr (phys_mem s4 (entry_addr ?T (p mod 1024)), s5)"
    "window_moved s4 s5" "phys_mem s5 = phys_mem s4"
    using load_mapped [OF w4(1) _ _ index_less_1024, of "WINDOW_PAGE s"] op(4) mmu_okD(4) [OF ok]
    by (auto simp: w4(4) w2(4))
  obtain x tb where s4: "s4 = s\<lparr>phys_mem := (phys_mem s)(wentry s := x), tlb := tb\<rparr>"
    using mv4 by (auto simp: window_moved_def)
  have "?T = wtable s \<Longrightarrow> p div 1024 = wpage s div 1024"
    using mmu_okD(5,6) [OF ok] t by (auto simp: tables_wf_def)
  then have "entry_addr ?T (p mod 1024) \<noteq> wentry s"
    using entry_addr_eq_iff [OF page_aligned_table_at page_aligned_table_at index_less_1024 index_less_1024] p(1)
    by (auto simp: wentry_def dest: page_number_eqI)
  then have "phys_mem s4 (entry_addr ?T (p mod 1024)) = phys_mem s (entry_addr ?T (p mod 1024))"
    by (simp add: s4)
  moreover have "window_moved s s5"
    by (rule window_moved_trans [OF mv4 ld(2)])
  ultimately show ?thesis
    using rd(1,2) op(1,2,4) ld(1,3) by (intro exI [of _ s1] exI [of _ s2] exI [of _ s3] exI [of _ s4] exI [of _ s5]) simp
qed

lemma free_page_unreachable:
  assumes ok: "mmu_ok s" and a: "page_aligned address"
    and t: "\<not> table_present (phys_mem s) (pdir s) (address div PAGE_SIZE div 1024)"
  shows "\<exists>s'. i386_free_page (i386_kernel_mmu_data s) address s = Inr (K_INVALOP, s') \<and> window_moved s s'"
proof -
  have "address div PAGE_SIZE div 1024 < 1024"
    by (rule dir_index_less [OF unat_page_number])
  then show ?thesis
    using read_directory [OF ok, of "address div PAGE_SIZE div 1024"] a t
    by (auto simp: i386_free_page_def page_aligned_def Let_def table_present_def)
qed

text \<open>The effect of the operation on any page whose table exists: \<open>e\<close> is the page's old entry.\<close>

lemma free_page_step:
  assumes ok: "mmu_ok s" and a: "page_aligned address" and p: "address div PAGE_SIZE \<noteq> wpage s"
    and t: "table_present (phys_mem s) (pdir s) (address div PAGE_SIZE div 1024)"
    and fixed: "address div PAGE_SIZE \<noteq> pdir s div PAGE_SIZE" "address div PAGE_SIZE \<noteq> wtable s div PAGE_SIZE"
    and e: "e = phys_mem s (entry_addr (table_at (phys_mem s) (pdir s) (address div PAGE_SIZE div 1024))
                  (address div PAGE_SIZE mod 1024))"
    and b: "bitset_clear_bit (i386_mem_frame_bitset s) (e div PAGE_SIZE) = Inr b"
  shows "\<exists>s'. i386_free_page (i386_kernel_mmu_data s) address s = Inr (K_SUCCESS, s') \<and> mmu_ok s' \<and>
           mm_only s s' \<and> i386_mem_frame_bitset s' = b \<and> struct_frames s' = struct_frames s \<and>
           mapping s' = (mapping s)(address div PAGE_SIZE := None)"
proof -
  let ?p = "address div PAGE_SIZE"
  let ?T = "table_at (phys_mem s) (pdir s) (?p div 1024)"
  obtain s1 s2 s3 s4 s5 where r: "get_virt_ptr (pdir s) s = Inr (WINDOW_PAGE s, s1)"
    "load32 (WINDOW_PAGE s + 4 * (?p div 1024)) s1 = Inr (phys_mem s (entry_addr (pdir s) (?p div 1024)), s2)"
    "TABLE_IN_DIR (?p div 1024) (WINDOW_PAGE s) s2 = Inr (?T, s3)" "get_virt_ptr ?T s3 = Inr (WINDOW_PAGE s, s4)"
    "load32 (WINDOW_PAGE s + 4 * (?p mod 1024)) s4 = Inr (e, s5)" "window_moved s s5"
    "walk (phys_mem s5) (pdir s) (wpage s) = Some ?T"
    using reach_entry [OF ok t p unat_page_number] e by blast
  note w5 = window_movedD [OF r(6)]
  have tl: "?p div 1024 < 1024"
    using t by (simp add: table_present_def)
  have t5: "table_present (phys_mem s5) (pdir s5) (?p div 1024)"
    and walk5: "walk (phys_mem s5) (pdir s5) (wpage s5) = Some (table_at (phys_mem s5) (pdir s5) (?p div 1024))"
    using t r(7) by (simp_all only: w5(6) w5(7) [OF tl]) (simp add: w5(4,5))
  have p5: "?p \<noteq> wpage s5" "?p \<noteq> pdir s5 div PAGE_SIZE"
    using p fixed(1) by (simp_all add: w5(4,5))
  have p5': "?p \<noteq> wtable s5 div PAGE_SIZE"
    using fixed(2) by (simp only: w5(3) not_False_eq_True)
  obtain mem tb where st: "store32 (WINDOW_PAGE s5 + 4 * (?p mod 1024)) PT_RW s5 = Inr (s5\<lparr>phys_mem := mem, tlb := tb\<rparr>)"
    "mmu_ok (s5\<lparr>phys_mem := mem, tlb := tb(?p := None)\<rparr>)"
    "mapping (s5\<lparr>phys_mem := mem, tlb := tb(?p := None)\<rparr>) =
       (mapping s5)(?p := if entry_present PT_RW then Some (frame_base PT_RW) else None)"
    "struct_frames (s5\<lparr>phys_mem := mem, tlb := tb(?p := None)\<rparr>) = struct_frames s5"
    using store_pte [OF w5(1) unat_page_number p5(1) t5 walk5 p5(2) p5'] by blast
  let ?s = "s5\<lparr>phys_mem := mem, tlb := tb(?p := None), i386_mem_frame_bitset := b\<rparr>"
  have np: "\<not> entry_present PT_RW"
    by (simp add: PT_RW_def entry_present_def)
  have "i386_free_page (i386_kernel_mmu_data s) address s = Inr (K_SUCCESS, ?s)"
    using a t r(1-5) st(1) b
    by (simp add: i386_free_page_def page_aligned_def Let_def table_present_def w5 invlpg_def)
  moreover have "mm_only s ?s"
    using mm_only_window [OF r(6)] mm_only_mem mm_only_bitset mm_only_trans by blast
  ultimately show ?thesis
    using st(2-4) np w5(9) window_moved_struct [OF r(6)] by (intro exI [of _ ?s]) simp
qed


lemma free_page_ok:
  assumes inv: "paging_inv s" and a: "page_aligned address" and p: "address div PAGE_SIZE \<noteq> wpage s"
    and dyn: "KVIRT_RESERVED div PAGE_SIZE \<le> address div PAGE_SIZE"
    and map: "mapping s (address div PAGE_SIZE) = Some F"
  shows "\<exists>s'. i386_free_page (i386_kernel_mmu_data s) address s = Inr (K_SUCCESS, s') \<and>
           paging_inv s' \<and> mm_only s s' \<and> mapping s' = (mapping s)(address div PAGE_SIZE := None) \<and>
           used_frames s' = used_frames s - {frame_no F} \<and> free_frames s' = insert (frame_no F) (free_frames s)"
proof -
  let ?p = "address div PAGE_SIZE"
  have old: "\<And>q g. mapping s q = Some g \<Longrightarrow> frame_no g \<notin> free_frames s"
    "\<And>q r g. mapping s q = Some g \<Longrightarrow> mapping s r = Some g \<Longrightarrow> q = r"
    "\<And>q g. mapping s q = Some g \<Longrightarrow> KVIRT_RESERVED div PAGE_SIZE \<le> q \<Longrightarrow>
       g \<notin> struct_frames s \<and> 0 < frame_no g \<and> frame_no g < frame_limit s"
    "\<And>g. g \<in> struct_frames s \<Longrightarrow> frame_no g \<notin> free_frames s" "mmu_ok s" "frame_inv s" "0 \<in> used_frames s"
    using inv unfolding paging_inv_def by blast+
  have F: "page_aligned F" "F \<notin> struct_frames s" "frame_no F < frame_limit s" "frame_no F \<in> used_frames s"
    "0 < frame_no F"
    using mapping_aligned [OF map] old(3) [OF map dyn] old(1) [OF map] by (auto simp: free_frames_alt)
  define e where "e = phys_mem s (entry_addr (table_at (phys_mem s) (pdir s) (?p div 1024)) (?p mod 1024))"
  have t: "table_present (phys_mem s) (pdir s) (?p div 1024)" and e: "frame_base e = F"
    using map mapping_entry [OF unat_page_number p] by (simp_all add: e_def Let_def split: if_splits)
  have fixed: "?p \<noteq> pdir s div PAGE_SIZE" "?p \<noteq> wtable s div PAGE_SIZE"
    using fixed_pages_mapped [OF old(5)] map F(2) struct_framesI [OF mmu_okD(6) [OF old(5)]] by auto
  have en: "unat (e div PAGE_SIZE) = frame_no F"
    using e by (auto simp: frame_base_def frame_no_def unat_div PAGE_SIZE_def unat_page_mask)
  then have "e div PAGE_SIZE < bs_length (i386_mem_frame_bitset s)"
    using F(4) bs.ones_bound by (auto simp: used_frames_def word_less_nat_alt)
  then obtain b where b: "bitset_clear_bit (i386_mem_frame_bitset s) (e div PAGE_SIZE) = Inr b" "bitset_inv b"
    "bitset_frame b = bitset_frame (i386_mem_frame_bitset s)" "bits b = bits (i386_mem_frame_bitset s) - {frame_no F}"
    using bs.clear_ok old(6) en unfolding frame_inv_def by metis
  obtain s' where s': "i386_free_page (i386_kernel_mmu_data s) address s = Inr (K_SUCCESS, s')" "mmu_ok s'"
    "mm_only s s'" "i386_mem_frame_bitset s' = b" "struct_frames s' = struct_frames s"
    "mapping s' = (mapping s)(?p := None)"
    using free_page_step [OF old(5) a p t fixed e_def b(1)] by blast
  have used: "used_frames s' = used_frames s - {frame_no F}"
    by (simp add: used_frames_def s'(4) b(4))
  have lim: "frame_limit s' = frame_limit s"
    by (rule frame_limit_mm_only [OF s'(3)])
  have free: "free_frames s' = insert (frame_no F) (free_frames s)"
    using F(3,4) by (auto simp: free_frames_alt used lim)
  have "frame_inv s'"
    using old(6) b(2,3) mm_onlyD(3) [OF s'(3)] by (simp add: frame_inv_def s'(4) bitset_frame_def)
  have ne: "frame_no g \<noteq> frame_no F" if "g \<in> struct_frames s \<or> (mapping s q = Some g \<and> q \<noteq> ?p)" for g q
    using that F(1,2) frame_no_inject [OF _ F(1)] struct_aligned [OF old(5)] mapping_aligned old(2) map by metis
  have "paging_inv s'"
    unfolding paging_inv_def free used lim s'(5,6)
    using s'(2) \<open>frame_inv s'\<close> F(5) old(1-4,7) ne by (simp split: if_splits) blast
  then show ?thesis
    using s'(1,3,6) used free by blast
qed

end
