(* ===== verification/Paging_Boot.thy ===== *)
theory Paging_Boot
  imports Paging_Invariant
begin

text \<open>
  \<open>i386_paging_init\<close> establishes the invariant: the identity mapping of the reserved memory is
  built while paging is still off, then the directory is loaded and the window is placed.
\<close>

section \<open>Before paging is on\<close>

lemma access_off:
  assumes "\<not> paging_on m"
  shows "load32 va m = Inr (phys_mem m va, m)"
    and "store32 va x m = Inr (m\<lparr>phys_mem := (phys_mem m)(va := x)\<rparr>)"
  using assms by (simp_all add: load32_def store32_def resolve_def)

lemma memset_off:
  assumes "\<not> paging_on m"
  shows "memset32 v x 1024 m = Inr (m\<lparr>phys_mem := fill_frame (phys_mem m) v 1024 x\<rparr>)"
proof -
  let ?I = "\<lambda>i s. i \<le> 1024 \<and> s = m\<lparr>phys_mem := fill_frame (phys_mem m) v i x\<rparr>"
  have "\<exists>s. for_loop 0 1024 (\<lambda>i m. store32 (v + 4 * i) x m) m = Inr s \<and> ?I 1024 s"
  proof (rule for_loop_rule [where I = ?I])
    fix i :: u32 and s
    assume i: "i < 1024" and "?I i s"
    then have s: "s = m\<lparr>phys_mem := fill_frame (phys_mem m) v i x\<rparr>"
      by simp
    then show "\<exists>s'. store32 (v + 4 * i) x s = Inr s' \<and> ?I (i + 1) s'"
      using assms i suc_le_of_less [OF i] by (simp add: access_off fill_frame_suc entry_addr_def)
  qed simp_all
  then show ?thesis
    by (simp add: memset32_def)
qed

text \<open>Early code sees physical memory directly.\<close>

definition early :: "'a paging_state_scheme \<Rightarrow> bool" where
  "early s \<longleftrightarrow> \<not> paging_on s \<and> \<not> early_init_done s"

lemma get_virt_ptr_early: "early s \<Longrightarrow> page_aligned x \<Longrightarrow> get_virt_ptr x s = Inr (x, s)"
  by (simp add: get_virt_ptr_def early_def page_aligned_def PAGE_SIZE_def)

lemma ensure_table_early:
  assumes "early s" and "page_aligned (pdir s)" and "table_present (phys_mem s) (pdir s) t"
  shows "ensure_table kd (i386_kernel_mmu_data s) t fl s = Inr ((K_SUCCESS, pdir s), s)"
  using assms
  by (simp add: ensure_table_def get_virt_ptr_early access_off early_def table_present_def entry_addr_def)

text \<open>The entry and the bit that identity mapping sets, once the table exists.\<close>

lemma identity_map_early:
  assumes e: "early s" "page_aligned (pdir s)" and a: "page_aligned address"
    and en: "ensure_table kd (i386_kernel_mmu_data s) (address div PAGE_SIZE div 1024) pdf s =
               Inr ((K_SUCCESS, pdir s), s1)"
    and s1: "early s1" "pdir s1 = pdir s"
    and b: "bitset_set_bit (i386_mem_frame_bitset s1) (address div PAGE_SIZE) = Inr b"
  shows "i386_identity_map_page kd (i386_kernel_mmu_data s) address ptf pdf s =
    Inr (address div PAGE_SIZE * PAGE_SIZE OR ptf,
         s1\<lparr>phys_mem := (phys_mem s1)(entry_addr (table_at (phys_mem s1) (pdir s) (address div PAGE_SIZE div 1024))
               (address div PAGE_SIZE mod 1024) := address div PAGE_SIZE * PAGE_SIZE OR ptf),
            i386_mem_frame_bitset := b\<rparr>)"
proof -
  let ?t = "address div PAGE_SIZE div 1024"
  have "TABLE_IN_DIR ?t (pdir s) s1 = Inr (table_at (phys_mem s1) (pdir s) ?t, s1)"
    using s1 by (simp add: TABLE_IN_DIR_def access_off early_def table_at_def frame_base_def entry_addr_def)
  moreover have "get_virt_ptr (table_at (phys_mem s1) (pdir s) ?t) s1 = Inr (table_at (phys_mem s1) (pdir s) ?t, s1)"
    by (rule get_virt_ptr_early [OF s1(1) page_aligned_table_at])
  ultimately show ?thesis
    using a en s1 b
    by (simp add: i386_identity_map_page_def page_aligned_def Let_def access_off early_def entry_addr_def)
qed

text \<open>A new table from the early heap.\<close>

lemma alloc_flags: "bit (KALLOC_CRITICAL OR KALLOC_PAGE_ALIGN) 0" "bit (KALLOC_CRITICAL OR KALLOC_PAGE_ALIGN) 2"
  by (simp_all add: KALLOC_CRITICAL_def KALLOC_PAGE_ALIGN_def bit_or_iff bit_iff_odd drop_bit_eq_div)

text \<open>An aligned page from the early heap, when one fits.\<close>

lemma early_page:
  assumes "placement_ok s" and "placement_fits PAGE_SIZE s"
  shows "\<exists>a. i386_mem_kmalloc_real PAGE_SIZE phys (KALLOC_CRITICAL OR KALLOC_PAGE_ALIGN) s =
           Inr ((a, if phys then Some a else None), s\<lparr>meminfo := (meminfo s)\<lparr>kernel_heap_curpos := a + PAGE_SIZE\<rparr>\<rparr>) \<and>
         page_aligned a \<and> a \<noteq> 0 \<and> unat (kernel_heap_curpos (meminfo s)) \<le> unat a \<and>
         unat a < unat (kernel_heap_curpos (meminfo s)) + 4096 \<and>
         unat (a + PAGE_SIZE) = unat a + 4096 \<and>
         unat a + 4096 \<le> unat (kernel_heap_start (meminfo s)) + 0x50000"
proof -
  have req: "placement_request PAGE_SIZE"
    by (simp add: placement_request_def PAGE_SIZE_def)
  obtain a where a: "i386_mem_kmalloc_real PAGE_SIZE phys (KALLOC_CRITICAL OR KALLOC_PAGE_ALIGN) s =
      Inr ((a, if phys then Some a else None), s\<lparr>meminfo := (meminfo s)\<lparr>kernel_heap_curpos := a + PAGE_SIZE\<rparr>\<rparr>)"
    "unat a = round_up (alignment (KALLOC_CRITICAL OR KALLOC_PAGE_ALIGN)) (unat (kernel_heap_curpos (meminfo s)))"
    "unat (a + PAGE_SIZE) = unat a + unat PAGE_SIZE" "a \<noteq> 0"
    "unat a + unat PAGE_SIZE \<le> unat (kernel_heap_start (meminfo s)) + 0x50000"
    using kmalloc_real_success [OF assms(1) req alloc_flags(1) assms(2)] by blast
  have "alignment (KALLOC_CRITICAL OR KALLOC_PAGE_ALIGN) = 4096"
    by (simp add: alignment_def alloc_flags)
  then show ?thesis
    using a round_up_bounds [of 4096 "unat (kernel_heap_curpos (meminfo s))"]
      round_up_dvd [of 4096 "unat (kernel_heap_curpos (meminfo s))"]
    by (intro exI [of _ a]) (simp add: page_aligned_dvd PAGE_SIZE_def)
qed

section \<open>The boot mapping\<close>

text \<open>
  One table, whose first \<open>k\<close> entries map their own frames.
\<close>

definition boot_map :: "(u32 \<Rightarrow> u32) \<Rightarrow> u32 \<Rightarrow> u32 \<Rightarrow> u32 \<Rightarrow> bool" where
  "boot_map mem pd tab k \<longleftrightarrow> page_aligned pd \<and> page_aligned tab \<and> tab \<noteq> pd \<and>
     (\<forall>t < 1024. entry_present (mem (entry_addr pd t)) \<longleftrightarrow> t = 0) \<and>
     frame_base (mem (entry_addr pd 0)) = tab \<and>
     (\<forall>i < 1024. mem (entry_addr tab i) = (if i < k then i * PAGE_SIZE OR (PT_PRESENT OR PT_RW) else PT_RW))"

lemma boot_map_tables:
  assumes "boot_map mem pd tab k"
  shows "table_present mem pd t \<longleftrightarrow> t = 0" and "table_at mem pd 0 = tab" and "tables_wf mem pd"
  using assms by (auto simp: boot_map_def table_present_def table_at_def tables_wf_def word_less_nat_alt)

lemma boot_map_step:
  assumes "boot_map mem pd tab k" and k: "k < 1024"
  shows "boot_map (mem(entry_addr tab k := k * PAGE_SIZE OR (PT_PRESENT OR PT_RW))) pd tab (k + 1)"
proof -
  have a: "page_aligned pd" "page_aligned tab" "tab \<noteq> pd"
    using assms(1) by (simp_all add: boot_map_def)
  have "entry_addr pd t \<noteq> entry_addr tab k" if "t < 1024" for t
    using entry_addr_eq_iff [OF a(1,2) that k] a(3) by auto
  moreover have "entry_addr tab i = entry_addr tab k \<longleftrightarrow> i = k" if "i < 1024" for i
    using entry_addr_eq_iff [OF a(2,2) that k] by simp
  moreover have "i < k + 1 \<longleftrightarrow> i < k \<or> i = k" for i
    using unat_suc_less [OF k] by (auto simp: word_less_nat_alt word_unat_eq_iff)
  moreover have "(0::u32) < 1024"
    by (simp add: word_less_nat_alt)
  ultimately show ?thesis
    using assms(1) unfolding boot_map_def by auto
qed

lemma small_page:
  fixes k :: u32
  assumes "k < 1024"
  shows "page_aligned (k * PAGE_SIZE)" "k * PAGE_SIZE div PAGE_SIZE = k" "k div 1024 = 0" "k mod 1024 = k"
    "frame_no (k * PAGE_SIZE) = unat k"
proof -
  have k: "unat k < 1024"
    using assms by (simp add: word_less_nat_alt)
  then show "page_aligned (k * PAGE_SIZE)" "frame_no (k * PAGE_SIZE) = unat k"
    using frame_addr [of k] by simp_all
  show "k * PAGE_SIZE div PAGE_SIZE = k"
    using k frame_addr(1) [of k] by (simp add: word_unat_eq_iff unat_div PAGE_SIZE_def)
  show "k div 1024 = 0" "k mod 1024 = k"
    using k by (simp_all add: word_unat_eq_iff unat_div unat_mod)
qed

lemma boot_map_walk:
  assumes m: "boot_map mem pd tab k" and k: "k \<le> 1024" and p: "unat p < 1048576"
  shows "walk mem pd p = (if p < k then Some (p * PAGE_SIZE) else None)"
proof (cases "p < 1024")
  case True
  note q = small_page [OF True]
  have e: "mem (entry_addr tab p) = (if p < k then p * PAGE_SIZE OR (PT_PRESENT OR PT_RW) else PT_RW)"
    using m True by (simp add: boot_map_def)
  have fl: "frame_base (PT_PRESENT OR PT_RW) = 0" "entry_present (PT_PRESENT OR PT_RW)" "\<not> entry_present PT_RW"
    by (simp_all add: PT_PRESENT_def PT_RW_def frame_base_def entry_present_def bit_or_iff)
  show ?thesis
    using fl frame_base_or [OF q(1) fl(1)]
    by (simp add: walk_alt [OF p] q boot_map_tables [OF m] e Let_def entry_present_or)
next
  case False
  then have "p div 1024 \<noteq> 0" "\<not> p < k"
    using k by (auto simp: word_unat_eq_iff unat_div word_less_nat_alt word_le_nat_alt)
  then show ?thesis
    by (simp add: walk_alt [OF p] boot_map_tables [OF m])
qed

text \<open>The first identity mapping makes the table.\<close>

text \<open>A fresh table of empty entries, entered in an empty directory.\<close>

lemma boot_map_first:
  assumes tab: "page_aligned tab" and pd: "page_aligned pd" and ne: "tab \<noteq> pd"
    and none: "\<forall>t < 1024. \<not> entry_present (mem (entry_addr pd t))"
  shows "boot_map ((fill_frame mem tab 1024 PT_RW)(entry_addr pd 0 := tab OR (PD_PRESENT OR PD_RW))) pd tab 0"
proof -
  define filled where "filled = fill_frame mem tab 1024 PT_RW"
  let ?mem = "filled(entry_addr pd 0 := tab OR (PD_PRESENT OR PD_RW))"
  have z: "(0::u32) < 1024"
    by (simp add: word_less_nat_alt)
  have fl: "frame_base (tab OR (PD_PRESENT OR PD_RW)) = tab" "entry_present (tab OR (PD_PRESENT OR PD_RW))"
    using frame_base_or [OF tab, of "PD_PRESENT OR PD_RW"]
    by (simp_all add: PD_PRESENT_def PD_RW_def frame_base_def entry_present_def bit_or_iff)
  have dir: "filled (entry_addr pd i) = mem (entry_addr pd i)" if "i < 1024" for i
    unfolding filled_def using fill_frame_other [OF tab pd ne [symmetric] that] by simp
  have "?mem (entry_addr tab i) = PT_RW" if i: "i < 1024" for i
  proof -
    have "entry_addr tab i \<noteq> entry_addr pd 0"
      using entry_addr_eq_iff [OF tab pd i z] ne by simp
    then show ?thesis
      using i by (auto simp: filled_def fill_frame_def)
  qed
  moreover have "\<forall>i < 1024. entry_present (?mem (entry_addr pd i)) \<longleftrightarrow> i = 0"
    using dir none fl(2) entry_addr_eq_iff [OF pd pd _ z] by simp
  ultimately show ?thesis
    using tab pd ne fl(1) by (simp add: boot_map_def filled_def)
qed

lemma ensure_table_first:
  assumes e: "early s" "page_aligned (pdir s)"
    and kd: "kalloc_malloc_real_fn kd = Some i386_mem_kmalloc_real"
    and none: "\<forall>t < 1024. \<not> entry_present (phys_mem s (entry_addr (pdir s) t))"
    and place: "placement_ok s" "placement_fits PAGE_SIZE s"
    and above: "unat (pdir s) + 4096 \<le> unat (kernel_heap_curpos (meminfo s))"
  shows "\<exists>mem tab. ensure_table kd (i386_kernel_mmu_data s) 0 (PD_PRESENT OR PD_RW) s =
             Inr ((K_SUCCESS, pdir s), s\<lparr>meminfo := (meminfo s)\<lparr>kernel_heap_curpos := tab + PAGE_SIZE\<rparr>, phys_mem := mem\<rparr>) \<and>
           boot_map mem (pdir s) tab 0 \<and> unat (tab + PAGE_SIZE) = unat tab + 4096 \<and>
           unat (kernel_heap_curpos (meminfo s)) \<le> unat tab \<and>
           unat tab + 4096 \<le> unat (kernel_heap_start (meminfo s)) + 0x50000"
proof -
  obtain tab where t: "i386_mem_kmalloc_real PAGE_SIZE True (KALLOC_CRITICAL OR KALLOC_PAGE_ALIGN) s =
      Inr ((tab, Some tab), s\<lparr>meminfo := (meminfo s)\<lparr>kernel_heap_curpos := tab + PAGE_SIZE\<rparr>\<rparr>)"
    "page_aligned tab" "tab \<noteq> 0" "unat (kernel_heap_curpos (meminfo s)) \<le> unat tab"
    "unat (tab + PAGE_SIZE) = unat tab + 4096" "unat tab + 4096 \<le> unat (kernel_heap_start (meminfo s)) + 0x50000"
    using early_page [OF place, of True] by (simp only: if_True) blast
  have ne: "tab \<noteq> pdir s"
    using t(4) above by auto
  define filled where "filled = fill_frame (phys_mem s) tab 1024 PT_RW"
  define mem where "mem = filled(entry_addr (pdir s) 0 := tab OR (PD_PRESENT OR PD_RW))"
  have "boot_map mem (pdir s) tab 0"
    unfolding mem_def filled_def by (rule boot_map_first [OF t(2) e(2) ne none])
  moreover have "ensure_table kd (i386_kernel_mmu_data s) 0 (PD_PRESENT OR PD_RW) s =
      Inr ((K_SUCCESS, pdir s), s\<lparr>meminfo := (meminfo s)\<lparr>kernel_heap_curpos := tab + PAGE_SIZE\<rparr>, phys_mem := mem\<rparr>)"
  proof -
    let ?s = "s\<lparr>meminfo := (meminfo s)\<lparr>kernel_heap_curpos := tab + PAGE_SIZE\<rparr>\<rparr>"
    have "early ?s" "early (?s\<lparr>phys_mem := filled\<rparr>)"
      using e(1) by (simp_all add: early_def)
    moreover have "allocate_page_table kd s = Inr ((K_SUCCESS, tab), ?s\<lparr>phys_mem := filled\<rparr>)"
      using e(1) kd t(1,3)
      by (simp add: allocate_page_table_def early_def kmalloc_ap_def call_malloc_def memset_off filled_def)
    moreover have "\<not> entry_present (phys_mem s (pdir s))"
      using none by (auto simp: entry_addr_def word_less_nat_alt dest: spec [of _ 0])
    ultimately show ?thesis
      using e
      by (simp add: ensure_table_def get_virt_ptr_early access_off early_def entry_addr_def mem_def)
  qed
  ultimately show ?thesis
    using t(4-6) by blast
qed


section \<open>The loop that maps the reserved memory\<close>

text \<open>
  After \<open>k\<close> iterations from \<open>s\<close>. The first one takes a page of the early heap for the table.
\<close>

definition mapped_upto :: "'a paging_state_scheme \<Rightarrow> u32 \<Rightarrow> 'a paging_state_scheme \<Rightarrow> bool" where
  "mapped_upto s k s' \<longleftrightarrow>
     (\<exists>mem mi b. s' = s\<lparr>meminfo := mi, phys_mem := mem, i386_mem_frame_bitset := b\<rparr> \<and>
        bitset_inv b \<and> bitset_frame b = bitset_frame (i386_mem_frame_bitset s) \<and>
        bits b = used_frames s \<union> {..<unat k} \<and>
        (if k = 0 then mem = phys_mem s \<and> mi = meminfo s
         else \<exists>tab. boot_map mem (pdir s) tab k \<and>
                mi = (meminfo s)\<lparr>kernel_heap_curpos := tab + PAGE_SIZE\<rparr> \<and>
                unat (tab + PAGE_SIZE) = unat tab + 4096 \<and>
                unat (kernel_heap_curpos (meminfo s)) \<le> unat tab \<and>
                unat tab + 4096 \<le> unat (kernel_heap_start (meminfo s)) + 0x50000))"

text \<open>One iteration: the table is there, or is made.\<close>

lemma mapped_upto_table:
  assumes e: "early s" "page_aligned (pdir s)"
    and kd: "kalloc_malloc_real_fn kd = Some i386_mem_kmalloc_real"
    and none: "\<forall>t < 1024. \<not> entry_present (phys_mem s (entry_addr (pdir s) t))"
    and place: "placement_ok s" "placement_fits PAGE_SIZE s"
    and above: "unat (pdir s) + 4096 \<le> unat (kernel_heap_curpos (meminfo s))"
    and m: "mapped_upto s k s'" and b: "i386_mem_frame_bitset s' = b"
  shows "\<exists>mem tab. ensure_table kd (i386_kernel_mmu_data s') 0 (PD_PRESENT OR PD_RW) s' =
             Inr ((K_SUCCESS, pdir s), s\<lparr>meminfo := (meminfo s)\<lparr>kernel_heap_curpos := tab + PAGE_SIZE\<rparr>,
                    phys_mem := mem, i386_mem_frame_bitset := b\<rparr>) \<and>
           boot_map mem (pdir s) tab k \<and> unat (tab + PAGE_SIZE) = unat tab + 4096 \<and>
           unat (kernel_heap_curpos (meminfo s)) \<le> unat tab \<and>
           unat tab + 4096 \<le> unat (kernel_heap_start (meminfo s)) + 0x50000"
proof (cases "k = 0")
  case True
  then have s': "s' = s\<lparr>i386_mem_frame_bitset := b\<rparr>"
    using m b by (auto simp: mapped_upto_def)
  have "early s'" "pdir s' = pdir s" "placement_ok s'" "placement_fits PAGE_SIZE s'"
    using e(1) place by (simp_all add: s' early_def placement_ok_def placement_fits_def)
  then obtain mem tab where "ensure_table kd (i386_kernel_mmu_data s') 0 (PD_PRESENT OR PD_RW) s' =
      Inr ((K_SUCCESS, pdir s), s'\<lparr>meminfo := (meminfo s)\<lparr>kernel_heap_curpos := tab + PAGE_SIZE\<rparr>, phys_mem := mem\<rparr>)"
    "boot_map mem (pdir s) tab 0" "unat (tab + PAGE_SIZE) = unat tab + 4096"
    "unat (kernel_heap_curpos (meminfo s)) \<le> unat tab"
    "unat tab + 4096 \<le> unat (kernel_heap_start (meminfo s)) + 0x50000"
    using ensure_table_first [of s' kd] e(2) kd none above by (auto simp: s')
  then show ?thesis
    using True by (intro exI [of _ mem] exI [of _ tab]) (simp add: s')
next
  case False
  then obtain mem tab where s': "s' = s\<lparr>meminfo := (meminfo s)\<lparr>kernel_heap_curpos := tab + PAGE_SIZE\<rparr>,
      phys_mem := mem, i386_mem_frame_bitset := b\<rparr>"
    and t: "boot_map mem (pdir s) tab k" "unat (tab + PAGE_SIZE) = unat tab + 4096"
      "unat (kernel_heap_curpos (meminfo s)) \<le> unat tab"
      "unat tab + 4096 \<le> unat (kernel_heap_start (meminfo s)) + 0x50000"
    using m b unfolding mapped_upto_def by auto
  have "early s'" "pdir s' = pdir s" "phys_mem s' = mem"
    using e(1) by (simp_all add: s' early_def)
  then have "ensure_table kd (i386_kernel_mmu_data s') 0 (PD_PRESENT OR PD_RW) s' = Inr ((K_SUCCESS, pdir s), s')"
    using ensure_table_early [of s' 0 kd] e(2) boot_map_tables(1) [OF t(1)] by simp
  then show ?thesis
    using s' t by blast
qed

lemma mapped_upto_step:
  assumes e: "early s" "page_aligned (pdir s)"
    and kd: "kalloc_malloc_real_fn kd = Some i386_mem_kmalloc_real"
    and none: "\<forall>t < 1024. \<not> entry_present (phys_mem s (entry_addr (pdir s) t))"
    and place: "placement_ok s" "placement_fits PAGE_SIZE s"
    and above: "unat (pdir s) + 4096 \<le> unat (kernel_heap_curpos (meminfo s))"
    and m: "mapped_upto s k s'" and k: "k < 1024" "unat k < unat (bs_length (i386_mem_frame_bitset s))"
  shows "\<exists>r s''. i386_identity_map_page kd (i386_kernel_mmu_data s') (k * 0x1000)
             (PT_PRESENT OR PT_RW) (PD_PRESENT OR PD_RW) s' = Inr (r, s'') \<and> mapped_upto s (k + 1) s''"
proof -
  obtain mem0 mi b where s': "s' = s\<lparr>meminfo := mi, phys_mem := mem0, i386_mem_frame_bitset := b\<rparr>"
    and bs: "bitset_inv b" "bitset_frame b = bitset_frame (i386_mem_frame_bitset s)"
    "bits b = used_frames s \<union> {..<unat k}"
    using m unfolding mapped_upto_def by blast
  have kmd: "i386_kernel_mmu_data s' = i386_kernel_mmu_data s" "early s'" and b_def: "i386_mem_frame_bitset s' = b"
    using e(1) by (simp_all add: s' early_def)
  have "k < bs_length b"
    using k(2) bs(2) by (simp add: bitset_frame_def word_less_nat_alt)
  then obtain b' where b': "bitset_set_bit b k = Inr b'" "bitset_inv b'" "bitset_frame b' = bitset_frame b"
    "bits b' = insert (unat k) (bits b)"
    using bs.set_ok bs(1) by blast
  obtain mem tab where en: "ensure_table kd (i386_kernel_mmu_data s') 0 (PD_PRESENT OR PD_RW) s' =
      Inr ((K_SUCCESS, pdir s), s\<lparr>meminfo := (meminfo s)\<lparr>kernel_heap_curpos := tab + PAGE_SIZE\<rparr>,
                    phys_mem := mem, i386_mem_frame_bitset := b\<rparr>)"
    and t: "boot_map mem (pdir s) tab k" "unat (tab + PAGE_SIZE) = unat tab + 4096"
      "unat (kernel_heap_curpos (meminfo s)) \<le> unat tab"
      "unat tab + 4096 \<le> unat (kernel_heap_start (meminfo s)) + 0x50000"
    using mapped_upto_table [OF e kd none place above m b_def] by blast
  let ?s1 = "s\<lparr>meminfo := (meminfo s)\<lparr>kernel_heap_curpos := tab + PAGE_SIZE\<rparr>, phys_mem := mem,
      i386_mem_frame_bitset := b\<rparr>"
  let ?mem = "mem(entry_addr tab k := k * PAGE_SIZE OR (PT_PRESENT OR PT_RW))"
  have ks: "k * 0x1000 = k * PAGE_SIZE"
    by (simp add: PAGE_SIZE_def)
  note q = small_page [OF k(1)]
  have "i386_identity_map_page kd (i386_kernel_mmu_data s') (k * 0x1000) (PT_PRESENT OR PT_RW) (PD_PRESENT OR PD_RW) s' =
      Inr (k * PAGE_SIZE OR (PT_PRESENT OR PT_RW),
           s\<lparr>meminfo := (meminfo s)\<lparr>kernel_heap_curpos := tab + PAGE_SIZE\<rparr>, phys_mem := ?mem,
             i386_mem_frame_bitset := b'\<rparr>)"
    unfolding ks
    using identity_map_early [OF kmd(2), where address = "k * PAGE_SIZE" and kd = kd and ?s1.0 = ?s1 and
        pdf = "PD_PRESENT OR PD_RW" and ptf = "PT_PRESENT OR PT_RW" and b = b'] e b'(1) en kmd(1)
    by (simp add: q early_def boot_map_tables(2) [OF t(1)])
  moreover have "{..<unat (k + 1)} = insert (unat k) {..<unat k}"
    by (simp add: unat_suc_less [OF k(1)] lessThan_Suc)
  moreover have "k + 1 \<noteq> 0"
    using unat_suc_less [OF k(1)] by (metis Zero_not_Suc unat_0)
  ultimately show ?thesis
    using boot_map_step [OF t(1) k(1)] t(2-4) b' bs
    by (intro exI conjI) (assumption, unfold mapped_upto_def, intro exI conjI, rule refl,
        simp_all, blast)
qed

section \<open>Turning paging on\<close>

text \<open>A state whose one table maps the reserved memory to itself satisfies the invariant.\<close>

lemma page_of_frame:
  assumes "page_aligned f"
  shows "f div PAGE_SIZE * PAGE_SIZE = f" and "unat (f div PAGE_SIZE) = frame_no f"
proof -
  show n: "unat (f div PAGE_SIZE) = frame_no f"
    by (simp add: frame_no_def unat_div PAGE_SIZE_def)
  have "unat (f div PAGE_SIZE) < 1048576"
    by (rule unat_page_number)
  then have "unat (f div PAGE_SIZE * PAGE_SIZE) = unat f"
    using assms by (simp add: frame_addr(1) n frame_no_def page_aligned_dvd)
  then show "f div PAGE_SIZE * PAGE_SIZE = f"
    by (simp add: word_unat_eq_iff)
qed

lemma boot_mapping:
  assumes "boot_map (phys_mem s) (pdir s) tab k" and "k \<le> 1024"
  shows "mapping s p = (if p < k \<and> p \<noteq> wpage s then Some (p * PAGE_SIZE) else None)"
proof (cases "unat p < 1048576")
  case True
  then show ?thesis
    by (simp add: mapping_def boot_map_walk [OF assms True])
next
  case False
  then have "\<not> p < k"
    using assms(2) by (auto simp: word_less_nat_alt word_le_nat_alt)
  then show ?thesis
    using False by (simp add: mapping_def)
qed

lemma boot_paging_inv:
  assumes map: "boot_map (phys_mem s) (pdir s) tab (KVIRT_RESERVED div PAGE_SIZE)"
    and on: "paging_on s" "early_init_done s" "cr3 s = pdir s" "tlb s = Map.empty"
    and w: "page_aligned (WINDOW_PAGE s)" "unat (WINDOW_PAGE s) \<le> 0x17c000"
    and low: "unat (pdir s) + 4096 \<le> unat (WINDOW_PAGE s)" "unat tab + 4096 \<le> unat (WINDOW_PAGE s)"
    and fr: "frame_inv s" "{..<380} \<subseteq> used_frames s"
  shows "paging_inv s"
proof -
  let ?k = "KVIRT_RESERVED div PAGE_SIZE"
  have k: "?k = 0x17c"
    by (simp add: KVIRT_RESERVED_def PAGE_SIZE_def)
  have k1: "?k \<le> 1024"
    by (simp add: k word_le_nat_alt)
  note tabs = boot_map_tables [OF map] and wk = boot_map_walk [OF map k1 unat_page_number]
  have al: "page_aligned (pdir s)" "page_aligned tab"
    using map by (simp_all add: boot_map_def)
  have wp: "unat (wpage s) \<le> 0x17c"
    using w(2) by (simp add: unat_div PAGE_SIZE_def)
  have fixed: "f div PAGE_SIZE \<noteq> wpage s \<and> f div PAGE_SIZE < ?k \<and> frame_no f < 380"
    if f: "page_aligned f" "unat f + 4096 \<le> unat (WINDOW_PAGE s)" for f
  proof -
    obtain x where x: "unat f = 4096 * x"
      using f(1) by (auto simp: page_aligned_dvd elim!: dvdE)
    obtain y where y: "unat (WINDOW_PAGE s) = 4096 * y"
      using w(1) by (auto simp: page_aligned_dvd elim!: dvdE)
    have "x < y" "y \<le> 0x17c"
      using f(2) w(2) x y by auto
    then show ?thesis
      using x y by (simp add: word_unat_eq_iff word_less_nat_alt unat_div PAGE_SIZE_def frame_no_def k KVIRT_RESERVED_def)
  qed
  have "table_present (phys_mem s) (pdir s) (wpage s div 1024)" "wpage s div 1024 = 0"
    using wp tabs(1) by (simp_all add: word_unat_eq_iff unat_div)
  moreover have "wtable s = tab"
    using tabs(2) calculation by simp
  ultimately have "mmu_ok s"
    using on w(1) tabs fixed [OF al(1) low(1)] fixed [OF al(2) low(2)] page_of_frame(1) [OF al(1)] page_of_frame(1) [OF al(2)]
    by (simp add: mmu_ok_def wk tlb_ok_def)
  moreover have st: "struct_frames s = {pdir s, tab}"
    using tabs by (auto simp: struct_frames_def)
  have lowfree: "n < 380 \<Longrightarrow> n \<notin> free_frames s" for n
    using fr(2) by (auto simp: free_frames_alt)
  have mp: "mapping s p = Some f \<Longrightarrow> p < ?k \<and> p < 1024 \<and> f = p * PAGE_SIZE" for p f
    using boot_mapping [OF map k1, of p] less_le_trans [OF _ k1, of p] by (auto split: if_splits)
  have "frame_no f \<notin> free_frames s" if "mapping s p = Some f" for p f
    using mp [OF that] small_page(5) [of p] lowfree [of "unat p"] by (simp add: k word_less_nat_alt)
  moreover have "p = q" if "mapping s p = Some f" "mapping s q = Some f" for p q f
    using mp [OF that(1)] mp [OF that(2)] small_page(5) by (metis word_unat_eq_iff)
  moreover have "\<not> ?k \<le> p" if "mapping s p = Some f" for p f
    using mp [OF that] leD by blast
  moreover have "0 \<in> used_frames s" "frame_no (pdir s) \<notin> free_frames s" "frame_no tab \<notin> free_frames s"
    using fr(2) lowfree fixed [OF al(1) low(1)] fixed [OF al(2) low(2)] by auto
  ultimately show ?thesis
    using fr(1) unfolding paging_inv_def st by blast
qed

lemma mmu_data_init_ok:
  assumes e: "early s" and kd: "kalloc_malloc_real_fn kd = Some i386_mem_kmalloc_real"
    and place: "placement_ok s" "placement_fits PAGE_SIZE s"
  shows "\<exists>pd. i386_mmu_data_init kd this s =
             Inr ((K_SUCCESS, this\<lparr>page_directory := pd\<rparr>),
                  s\<lparr>meminfo := (meminfo s)\<lparr>kernel_heap_curpos := pd + PAGE_SIZE\<rparr>,
                    phys_mem := fill_frame (phys_mem s) pd 1024 PD_RW\<rparr>) \<and>
           page_aligned pd \<and> unat (pd + PAGE_SIZE) = unat pd + 4096 \<and>
           unat (kernel_heap_curpos (meminfo s)) \<le> unat pd \<and>
           unat pd < unat (kernel_heap_curpos (meminfo s)) + 4096 \<and>
           unat pd + 4096 \<le> unat (kernel_heap_start (meminfo s)) + 0x50000"
proof -
  obtain pd where pd: "i386_mem_kmalloc_real PAGE_SIZE False (KALLOC_CRITICAL OR KALLOC_PAGE_ALIGN) s =
      Inr ((pd, None), s\<lparr>meminfo := (meminfo s)\<lparr>kernel_heap_curpos := pd + PAGE_SIZE\<rparr>\<rparr>)"
    "page_aligned pd" "pd \<noteq> 0" "unat (kernel_heap_curpos (meminfo s)) \<le> unat pd"
    "unat pd < unat (kernel_heap_curpos (meminfo s)) + 4096" "unat (pd + PAGE_SIZE) = unat pd + 4096"
    "unat pd + 4096 \<le> unat (kernel_heap_start (meminfo s)) + 0x50000"
    using early_page [OF place, of False] by (simp only: if_False) blast
  have "(4 * 1024 :: u32) = PAGE_SIZE"
    by (simp add: PAGE_SIZE_def)
  then have "i386_mmu_data_init kd this s =
      Inr ((K_SUCCESS, this\<lparr>page_directory := pd\<rparr>),
           s\<lparr>meminfo := (meminfo s)\<lparr>kernel_heap_curpos := pd + PAGE_SIZE\<rparr>,
             phys_mem := fill_frame (phys_mem s) pd 1024 PD_RW\<rparr>)"
    using e kd pd(1,3)
    by (simp add: i386_mmu_data_init_def kmalloc_a_def call_malloc_def memset_off early_def)
  then show ?thesis
    using pd(2,4-7) by blast
qed

lemma identity_map_reserved_ok:
  assumes e: "early s" "page_aligned (pdir s)"
    and kd: "kalloc_malloc_real_fn kd = Some i386_mem_kmalloc_real"
    and none: "\<forall>t < 1024. \<not> entry_present (phys_mem s (entry_addr (pdir s) t))"
    and place: "placement_ok s" "placement_fits PAGE_SIZE s"
    and above: "unat (pdir s) + 4096 \<le> unat (kernel_heap_curpos (meminfo s))"
    and fr: "frame_inv s" "380 \<le> unat (bs_length (i386_mem_frame_bitset s))"
  shows "\<exists>s'. identity_map_reserved kd s = Inr s' \<and> mapped_upto s (KVIRT_RESERVED div PAGE_SIZE) s'"
proof -
  let ?k = "KVIRT_RESERVED div PAGE_SIZE"
  have k: "?k = 0x17c" "KVIRT_RESERVED div 0x1000 = ?k"
    by (simp_all add: KVIRT_RESERVED_def PAGE_SIZE_def)
  have "\<exists>s'. for_loop 0 ?k (\<lambda>k s. bindr (i386_identity_map_page kd (i386_kernel_mmu_data s) (k * 0x1000)
      (PT_PRESENT OR PT_RW) (PD_PRESENT OR PD_RW) s) (\<lambda>(_, s). Inr s)) s = Inr s' \<and> mapped_upto s ?k s'"
  proof (rule for_loop_rule)
    show "0 \<le> ?k"
      by simp
    have "mapped_upto s 0 s"
      unfolding mapped_upto_def using fr(1)
      by (intro exI [of _ "phys_mem s"] exI [of _ "meminfo s"] exI [of _ "i386_mem_frame_bitset s"])
        (simp add: frame_inv_def used_frames_def)
    then show "mapped_upto s 0 s" .
  next
    fix i s'
    assume i: "i < ?k" and m: "mapped_upto s i s'"
    then have "i < 1024" "unat i < unat (bs_length (i386_mem_frame_bitset s))"
      using fr(2) by (simp_all add: k word_less_nat_alt)
    then obtain r s'' where "i386_identity_map_page kd (i386_kernel_mmu_data s') (i * 0x1000)
        (PT_PRESENT OR PT_RW) (PD_PRESENT OR PD_RW) s' = Inr (r, s'')" "mapped_upto s (i + 1) s''"
      using mapped_upto_step [OF e kd none place above m] by blast
    then show "\<exists>s''. bindr (i386_identity_map_page kd (i386_kernel_mmu_data s') (i * 0x1000)
      (PT_PRESENT OR PT_RW) (PD_PRESENT OR PD_RW) s') (\<lambda>(_, s). Inr s) = Inr s'' \<and> mapped_upto s (i + 1) s''"
      by simp
  qed
  then show ?thesis
    unfolding identity_map_reserved_def k(2) .
qed


text \<open>
  What turning paging on needs: the early heap ends, with a page to spare, below the reserved
  memory and has room for the directory and a table, and there is a frame for every page of the
  reserved memory.
\<close>

definition paging_ready :: "'a paging_state_scheme kalloc_interface \<Rightarrow> 'a paging_state_scheme \<Rightarrow> bool" where
  "paging_ready kd s \<longleftrightarrow> early s \<and> kalloc_malloc_real_fn kd = Some i386_mem_kmalloc_real \<and>
     placement_ok s \<and> page_aligned (kernel_heap_start (meminfo s)) \<and>
     unat (kernel_heap_curpos (meminfo s)) + 16384 \<le> unat (kernel_heap_start (meminfo s)) + 0x50000 \<and>
     unat (kernel_heap_start (meminfo s)) + 0x51000 \<le> 0x17c000 \<and>
     frame_inv s \<and> 380 \<le> unat (bs_length (i386_mem_frame_bitset s)) \<and> length (isr_routines s) = 32"

text \<open>The state when the directory exists, still empty.\<close>

lemma paging_ready_directory:
  assumes "paging_ready kd s"
  shows "\<exists>s1. i386_mmu_data_init kd (i386_kernel_mmu_data s) s = Inr ((K_SUCCESS, i386_kernel_mmu_data s1), s1\<lparr>i386_kernel_mmu_data := i386_kernel_mmu_data s\<rparr>) \<and>
     early s1 \<and> page_aligned (pdir s1) \<and>
     (\<forall>t < 1024. \<not> entry_present (phys_mem s1 (entry_addr (pdir s1) t))) \<and>
     placement_ok s1 \<and> placement_fits PAGE_SIZE s1 \<and>
     unat (pdir s1) + 4096 \<le> unat (kernel_heap_curpos (meminfo s1)) \<and>
     unat (pdir s1) + 4096 \<le> unat (kernel_heap_start (meminfo s)) + 0x50000 \<and>
     frame_inv s1 \<and> (\<exists>c. meminfo s1 = (meminfo s)\<lparr>kernel_heap_curpos := c\<rparr>) \<and>
     i386_mem_frame_bitset s1 = i386_mem_frame_bitset s \<and> isr_routines s1 = isr_routines s \<and>
     paging_state.more s1 = paging_state.more s"
proof -
  note r = assms [unfolded paging_ready_def]
  have fits: "placement_fits PAGE_SIZE s"
    using r by (simp add: placement_fits_def PAGE_SIZE_def)
  obtain pd where pd: "i386_mmu_data_init kd (i386_kernel_mmu_data s) s =
             Inr ((K_SUCCESS, (i386_kernel_mmu_data s)\<lparr>page_directory := pd\<rparr>),
                  s\<lparr>meminfo := (meminfo s)\<lparr>kernel_heap_curpos := pd + PAGE_SIZE\<rparr>,
                    phys_mem := fill_frame (phys_mem s) pd 1024 PD_RW\<rparr>)"
    "page_aligned pd" "unat (pd + PAGE_SIZE) = unat pd + 4096"
    "unat (kernel_heap_curpos (meminfo s)) \<le> unat pd" "unat pd < unat (kernel_heap_curpos (meminfo s)) + 4096"
    "unat pd + 4096 \<le> unat (kernel_heap_start (meminfo s)) + 0x50000"
    using mmu_data_init_ok [OF _ _ _ fits] r by blast
  define s1 where "s1 = s\<lparr>meminfo := (meminfo s)\<lparr>kernel_heap_curpos := pd + PAGE_SIZE\<rparr>,
      phys_mem := fill_frame (phys_mem s) pd 1024 PD_RW,
      i386_kernel_mmu_data := (i386_kernel_mmu_data s)\<lparr>page_directory := pd\<rparr>\<rparr>"
  have "\<forall>t < 1024. \<not> entry_present (phys_mem s1 (entry_addr (pdir s1) t))"
    by (auto simp: s1_def fill_frame_def PD_RW_def entry_present_def)
  moreover have "placement_ok s1" "placement_fits PAGE_SIZE s1" "early s1" "frame_inv s1"
    using r pd(3-6) by (auto simp: s1_def placement_ok_def placement_fits_def early_def frame_inv_def PAGE_SIZE_def)
  ultimately show ?thesis
    using pd exI [of "\<lambda>c. meminfo s1 = (meminfo s)\<lparr>kernel_heap_curpos := c\<rparr>" "pd + PAGE_SIZE"]
    by (intro exI [of _ s1]) (simp add: s1_def)
qed

text \<open>The state in which \<open>i386_paging_init\<close> ends, given the memory and the frames that the mapping loop left.\<close>

definition paging_started :: "'a paging_state_scheme \<Rightarrow> (u32 \<Rightarrow> u32) \<Rightarrow> bitset \<Rightarrow> i386_mem_info \<Rightarrow> 'a paging_state_scheme" where
  "paging_started s mem b mi =
     (let top = kernel_heap_start mi + EARLY_HEAP_MAXSIZE
      in s\<lparr>meminfo := mi, phys_mem := mem, i386_mem_frame_bitset := b,
        isr_routines := (isr_routines s)[14 := Some I386_page_fault_handler], cr3 := pdir s, tlb := Map.empty,
        paging_on := True, WINDOW_PAGE := top + PAGE_SIZE,
        kpaging_data := (kpaging_data s)\<lparr>kp_kernel_start := kernel_reserved_start mi,
          kp_kernel_end := kernel_heap_curpos mi, kp_highest_page := top,
          kp_page_size := PAGE_SIZE, kp_mem_total := mem_lower mi + mem_upper mi\<rparr>,
        early_init_done := True\<rparr>)"

lemma window_page_fits:
  assumes "paging_ready kd s"
  shows "unat (kernel_heap_start (meminfo s) + EARLY_HEAP_MAXSIZE + PAGE_SIZE) = unat (kernel_heap_start (meminfo s)) + 0x51000"
    and "kernel_heap_start (meminfo s) + EARLY_HEAP_MAXSIZE + PAGE_SIZE \<le> KVIRT_RESERVED"
proof -
  note r = assms [unfolded paging_ready_def]
  let ?hs = "kernel_heap_start (meminfo s)"
  show hs: "unat (?hs + EARLY_HEAP_MAXSIZE + PAGE_SIZE) = unat ?hs + 0x51000"
    using r unat_add_no_wrap [of ?hs "0x51000"] by (simp add: EARLY_HEAP_MAXSIZE_def PAGE_SIZE_def add.assoc)
  then show "?hs + EARLY_HEAP_MAXSIZE + PAGE_SIZE \<le> KVIRT_RESERVED"
    using r by (simp add: word_le_nat_alt KVIRT_RESERVED_def)
qed

lemma paging_init_started:
  assumes ready: "paging_ready kd s"
  obtains s1 mem b tab c where "i386_paging_init kd s = Inr (paging_started s1 mem b ((meminfo s)\<lparr>kernel_heap_curpos := c\<rparr>))"
    and "boot_map mem (pdir s1) tab (KVIRT_RESERVED div PAGE_SIZE)" and "bitset_inv b"
    and "bs_length b = highest_free_address (meminfo s) div PAGE_SIZE" and "bits b = used_frames s \<union> {..<380}"
    and "unat tab + 4096 \<le> unat (kernel_heap_start (meminfo s)) + 0x50000"
    and "unat (pdir s1) + 4096 \<le> unat (kernel_heap_start (meminfo s)) + 0x50000"
    and "isr_routines s1 = isr_routines s" and "paging_state.more s1 = paging_state.more s"
proof -
  note r = ready [unfolded paging_ready_def]
  let ?k = "KVIRT_RESERVED div PAGE_SIZE"
  obtain s1 c where i: "i386_mmu_data_init kd (i386_kernel_mmu_data s) s =
      Inr ((K_SUCCESS, i386_kernel_mmu_data s1), s1\<lparr>i386_kernel_mmu_data := i386_kernel_mmu_data s\<rparr>)"
    and e: "early s1" "page_aligned (pdir s1)" "\<forall>t < 1024. \<not> entry_present (phys_mem s1 (entry_addr (pdir s1) t))"
      "placement_ok s1" "placement_fits PAGE_SIZE s1" "unat (pdir s1) + 4096 \<le> unat (kernel_heap_curpos (meminfo s1))"
      "unat (pdir s1) + 4096 \<le> unat (kernel_heap_start (meminfo s)) + 0x50000" "frame_inv s1"
    and mi: "meminfo s1 = (meminfo s)\<lparr>kernel_heap_curpos := c\<rparr>"
    and bs: "i386_mem_frame_bitset s1 = i386_mem_frame_bitset s" and isr: "isr_routines s1 = isr_routines s"
    and more: "paging_state.more s1 = paging_state.more s"
    using paging_ready_directory [OF ready] by blast
  obtain s2 where l: "identity_map_reserved kd s1 = Inr s2" "mapped_upto s1 ?k s2"
    using identity_map_reserved_ok [OF e(1,2) _ e(3-6,8)] r bs by auto
  have k0: "?k \<noteq> 0" "unat ?k = 380"
    by (simp_all add: KVIRT_RESERVED_def PAGE_SIZE_def)
  obtain mem b tab where s2: "s2 = s1\<lparr>meminfo := (meminfo s1)\<lparr>kernel_heap_curpos := tab + PAGE_SIZE\<rparr>, phys_mem := mem,
      i386_mem_frame_bitset := b\<rparr>" "bitset_inv b" "bitset_frame b = bitset_frame (i386_mem_frame_bitset s1)"
    "bits b = used_frames s1 \<union> {..<380}" "boot_map mem (pdir s1) tab ?k"
    "unat tab + 4096 \<le> unat (kernel_heap_start (meminfo s1)) + 0x50000"
    using l(2) k0 unfolding mapped_upto_def by auto
  have "i386_paging_init kd s = Inr (paging_started s1 mem b ((meminfo s)\<lparr>kernel_heap_curpos := tab + PAGE_SIZE\<rparr>))"
    using i l(1) r window_page_fits(2) [OF ready] isr
    by (simp add: i386_paging_init_def s2(1) isr_install_handler_def load_page_dir_def enable_paging_def Let_def
        paging_started_def mi)
  moreover have "bs_length b = highest_free_address (meminfo s) div PAGE_SIZE"
    using e(8) s2(3) by (simp add: frame_inv_def bitset_frame_def mi)
  moreover have "bits b = used_frames s \<union> {..<380}"
    using s2(4) bs by (simp add: used_frames_def)
  ultimately show thesis
    using that s2(2,5,6) e(7) isr more by (simp add: mi)
qed

lemma paging_init_ok:
  assumes ready: "paging_ready kd s"
  shows "\<exists>s'. i386_paging_init kd s = Inr s' \<and> paging_inv s' \<and>
           WINDOW_PAGE s' = kernel_heap_start (meminfo s) + 0x51000 \<and>
           mapping s' = (\<lambda>p. if p < KVIRT_RESERVED div PAGE_SIZE \<and> p \<noteq> wpage s' then Some (p * PAGE_SIZE) else None) \<and>
           used_frames s' = used_frames s \<union> {..<380} \<and> meminfo s' = (meminfo s)\<lparr>kernel_heap_curpos := kernel_heap_curpos (meminfo s')\<rparr> \<and>
           kp_page_size (kpaging_data s') = PAGE_SIZE \<and> paging_state.more s' = paging_state.more s \<and>
           isr_routines s' = (isr_routines s)[14 := Some I386_page_fault_handler] \<and>
           table_present (phys_mem s') (pdir s') 0 \<and>
           (\<forall>i < 1024. KVIRT_RESERVED div PAGE_SIZE \<le> i \<longrightarrow>
              phys_mem s' (entry_addr (table_at (phys_mem s') (pdir s') 0) i) = PT_RW)"
proof -
  note r = ready [unfolded paging_ready_def] and hs = window_page_fits [OF ready]
  let ?k = "KVIRT_RESERVED div PAGE_SIZE" and ?hs = "kernel_heap_start (meminfo s)"
  obtain s1 mem b tab c where init: "i386_paging_init kd s = Inr (paging_started s1 mem b ((meminfo s)\<lparr>kernel_heap_curpos := c\<rparr>))"
    and bm: "boot_map mem (pdir s1) tab ?k" and b: "bitset_inv b" "bs_length b = highest_free_address (meminfo s) div PAGE_SIZE"
      "bits b = used_frames s \<union> {..<380}"
    and low: "unat tab + 4096 \<le> unat ?hs + 0x50000" "unat (pdir s1) + 4096 \<le> unat ?hs + 0x50000"
    and kept: "isr_routines s1 = isr_routines s" "paging_state.more s1 = paging_state.more s"
    by (rule paging_init_started [OF ready])
  define s3 where "s3 = paging_started s1 mem b ((meminfo s)\<lparr>kernel_heap_curpos := c\<rparr>)"
  have s3: "phys_mem s3 = mem" "pdir s3 = pdir s1" "WINDOW_PAGE s3 = ?hs + EARLY_HEAP_MAXSIZE + PAGE_SIZE"
    "meminfo s3 = (meminfo s)\<lparr>kernel_heap_curpos := c\<rparr>" "i386_mem_frame_bitset s3 = b" "paging_on s3" "early_init_done s3"
    "cr3 s3 = pdir s3" "tlb s3 = Map.empty" "kp_page_size (kpaging_data s3) = PAGE_SIZE"
    "isr_routines s3 = (isr_routines s)[14 := Some I386_page_fault_handler]" "paging_state.more s3 = paging_state.more s"
    using kept by (simp_all add: s3_def paging_started_def Let_def)
  have used: "used_frames s3 = used_frames s \<union> {..<380}"
    using b(3) by (simp add: used_frames_def s3(5))
  have "paging_inv s3"
  proof (rule boot_paging_inv)
    show "boot_map (phys_mem s3) (pdir s3) tab ?k"
      using bm by (simp add: s3(1,2))
    show "page_aligned (WINDOW_PAGE s3)"
      using r hs(1) by (simp add: s3(3) page_aligned_dvd)
    show "unat (WINDOW_PAGE s3) \<le> 0x17c000" "unat (pdir s3) + 4096 \<le> unat (WINDOW_PAGE s3)" "unat tab + 4096 \<le> unat (WINDOW_PAGE s3)"
      using r hs(1) low by (simp_all add: s3(2,3))
    show "frame_inv s3"
      using b(1,2) by (simp add: frame_inv_def s3(4,5))
    show "{..<380} \<subseteq> used_frames s3"
      using used by blast
  qed (simp_all add: s3(6-9))
  moreover have "mapping s3 = (\<lambda>p. if p < ?k \<and> p \<noteq> wpage s3 then Some (p * PAGE_SIZE) else None)"
    using boot_mapping [of s3 tab ?k] bm s3(1,2,6,8,9) by (auto simp: KVIRT_RESERVED_def PAGE_SIZE_def word_le_nat_alt)
  moreover have "WINDOW_PAGE s3 = ?hs + 0x51000"
    by (simp add: s3(3) EARLY_HEAP_MAXSIZE_def PAGE_SIZE_def add.assoc)
  moreover have "table_present (phys_mem s3) (pdir s3) 0" "table_at (phys_mem s3) (pdir s3) 0 = tab"
    using boot_map_tables [OF bm] by (simp_all add: s3(1,2))
  moreover have "\<forall>i < 1024. ?k \<le> i \<longrightarrow> phys_mem s3 (entry_addr tab i) = PT_RW"
    using bm by (auto simp: s3(1) boot_map_def)
  ultimately show ?thesis
    using init [folded s3_def] used s3(4,10-12) by (intro exI [of _ s3]) simp
qed

end
