(* ===== verification/Paging_Contract.thy ===== *)
theory Paging_Contract
  imports Paging_Boot
begin

text \<open>
  The i386 paging code as a provider of the kernel's paging interface: it keeps the contract of
  \<open>page_mapper\<close>, and the properties of its operations.
\<close>

section \<open>The paging interface keeps its contract\<close>

text \<open>What page operations leave alone: everything but memory, the buffer and the frame bitset.\<close>

definition paging_rest :: "'a paging_state_scheme \<Rightarrow> 'a paging_state_scheme" where
  "paging_rest s = s\<lparr>phys_mem := (\<lambda>_. 0), tlb := Map.empty,
     i386_mem_frame_bitset := \<lparr>bs_length = 0, bs_start = 0, bs_cells = []\<rparr>\<rparr>"

lemma mm_only_rest: "mm_only s s' \<Longrightarrow> paging_rest s' = paging_rest s"
  by (auto simp: mm_only_def paging_rest_def)

text \<open>The addresses clients may map: pages above the reserved memory, the window excepted.\<close>

definition dynamic_page :: "'a paging_state_scheme \<Rightarrow> uintptr_t \<Rightarrow> bool" where
  "dynamic_page s a \<longleftrightarrow> page_aligned a \<and> KVIRT_RESERVED div PAGE_SIZE \<le> a div PAGE_SIZE \<and>
     a div PAGE_SIZE \<noteq> wpage s"

definition page_flags :: "u32 \<Rightarrow> bool" where
  "page_flags fl \<longleftrightarrow> frame_base fl = 0 \<and> bit fl 0"

definition spare_frames :: "'a paging_state_scheme \<Rightarrow> nat" where
  "spare_frames s = card (free_frames s)"

lemma dynamic_page_rest [simp]: "dynamic_page (paging_rest s) a = dynamic_page s a"
  by (simp add: dynamic_page_def paging_rest_def)

lemma window_moved_contract:
  assumes "window_moved s s'" and "paging_inv s"
  shows "paging_inv s'" "paging_rest s' = paging_rest s" "spare_frames s' = spare_frames s" "mapping s' = mapping s"
  using assms window_moved_inv [OF assms(1)] mm_only_rest [OF mm_only_window [OF assms(1)]]
    window_moved_frames(3) [OF assms(1)] window_movedD(9) [OF assms(1)]
  by (simp_all add: spare_frames_def)

lemma kpage_allocate_contract:
  assumes inv: "paging_inv s" and a: "dynamic_page s a" and fl: "page_flags fl"
    and new: "mapping s (a div PAGE_SIZE) = None"
  shows "\<exists>r s'. i386_kpage_allocate kd a fl s = Inr (r, s') \<and> paging_inv s' \<and> paging_rest s' = paging_rest s \<and>
     (if r = K_SUCCESS
      then spare_frames s' < spare_frames s \<and> spare_frames s \<le> spare_frames s' + 2 \<and>
           (\<exists>f. f \<notin> ran (mapping s) \<and> mapping s' = (mapping s)(a div PAGE_SIZE \<mapsto> f))
      else r = K_OOM \<and> spare_frames s < 2 \<and> spare_frames s' = spare_frames s \<and> mapping s' = mapping s)"
proof (cases "frames_needed s (a div PAGE_SIZE) \<le> card (free_frames s)")
  case True
  obtain f s' where s': "i386_allocate_page kd (i386_kernel_mmu_data s) a fl fl s = Inr ((K_SUCCESS, Some (f * PAGE_SIZE)), s')"
    "first_free s f" "paging_inv s'" "mm_only s s'" "mapping s' = (mapping s)(a div PAGE_SIZE \<mapsto> f * PAGE_SIZE)"
    "card (free_frames s) = card (free_frames s') + frames_needed s (a div PAGE_SIZE)"
    using allocate_page_ok [OF inv _ _ new _ _ _ _ True] a fl unfolding dynamic_page_def page_flags_def by blast
  note f = first_free_frame [OF s'(2) paging_inv_table [OF inv]]
  have "f * PAGE_SIZE \<notin> ran (mapping s)"
  proof
    assume "f * PAGE_SIZE \<in> ran (mapping s)"
    then obtain q where "mapping s q = Some (f * PAGE_SIZE)"
      by (auto simp: ran_def)
    then have "frame_no (f * PAGE_SIZE) \<notin> free_frames s"
      using inv unfolding paging_inv_def by blast
    then show False
      using f(1,4) by simp
  qed
  then show ?thesis
    using s' mm_only_rest [OF s'(4)]
    by (auto simp: i386_kpage_allocate_def spare_frames_def frames_needed_def)
next
  case False
  obtain s' where s': "i386_allocate_page kd (i386_kernel_mmu_data s) a fl fl s = Inr ((K_OOM, None), s')"
    "paging_inv s'" "mm_only s s'" "mapping s' = mapping s" "used_frames s' = used_frames s"
    using allocate_page_oom [OF inv, of a] a False unfolding dynamic_page_def by (meson not_le)
  have "free_frames s' = free_frames s"
    using s'(5) frame_limit_mm_only [OF s'(3)] by (simp add: free_frames_alt)
  then show ?thesis
    using s' mm_only_rest [OF s'(3)] False
    by (auto simp: i386_kpage_allocate_def spare_frames_def frames_needed_def split: if_splits)
qed

lemma kpage_free_contract:
  assumes inv: "paging_inv s" and a: "dynamic_page s a" and m: "mapping s (a div PAGE_SIZE) = Some f"
  shows "\<exists>s'. i386_kpage_free a s = Inr (K_SUCCESS, s') \<and> paging_inv s' \<and> paging_rest s' = paging_rest s \<and>
     spare_frames s' = Suc (spare_frames s) \<and> mapping s' = (mapping s)(a div PAGE_SIZE := None)"
proof -
  obtain s' where s': "i386_free_page (i386_kernel_mmu_data s) a s = Inr (K_SUCCESS, s')" "paging_inv s'" "mm_only s s'"
    "mapping s' = (mapping s)(a div PAGE_SIZE := None)" "free_frames s' = insert (frame_no f) (free_frames s)"
    using free_page_ok [OF inv _ _ _ m] a unfolding dynamic_page_def by blast
  have "frame_no f \<notin> free_frames s"
    using inv m unfolding paging_inv_def by blast
  then show ?thesis
    using s' mm_only_rest [OF s'(3)] by (simp add: i386_kpage_free_def spare_frames_def)
qed

lemma kpage_get_phys_contract:
  assumes inv: "paging_inv s" and a: "dynamic_page s a"
  shows "\<exists>s'. i386_kpage_get_phys a s = Inr (case mapping s (a div PAGE_SIZE) of None \<Rightarrow> 0 | Some f \<Rightarrow> f, s') \<and>
     paging_inv s' \<and> paging_rest s' = paging_rest s \<and> spare_frames s' = spare_frames s \<and> mapping s' = mapping s"
proof -
  have "mmu_ok s"
    using inv by (simp add: paging_inv_def)
  then obtain s' where "i386_page_get_phys (i386_kernel_mmu_data s) a s =
      Inr (case mapping s (a div PAGE_SIZE) of None \<Rightarrow> 0 | Some f \<Rightarrow> f, s')" "window_moved s s'"
    using page_get_phys_ok a unfolding dynamic_page_def by blast
  then show ?thesis
    using window_moved_contract [OF _ inv] by (auto simp: i386_kpage_get_phys_def)
qed

interpretation i386: page_mapper "i386_kpage_allocate kd" i386_kpage_free i386_kpage_get_phys
    paging_inv mapping paging_rest dynamic_page page_flags spare_frames
  for kd :: "'a paging_state_scheme kalloc_interface"
proof (unfold_locales, goal_cases)
  case (1 s a fl)
  then show ?case
    using kpage_allocate_contract [of s a fl kd] by simp
next
  case (2 s a f)
  then show ?case
    using kpage_free_contract by simp
next
  case (3 s a)
  then show ?case
    using kpage_get_phys_contract by simp
qed

section \<open>Freeing a page that is not mapped\<close>

text \<open>
  The operation reads the frame number from the entry without looking at its present bit. The entry
  it leaves behind itself has frame number 0: freeing the same page again marks frame 0 free.
\<close>

lemma free_page_unmapped:
  assumes inv: "paging_inv s" and a: "dynamic_page s a" and b0: "0 < bs_length (i386_mem_frame_bitset s)"
    and t: "table_present (phys_mem s) (pdir s) (a div PAGE_SIZE div 1024)"
    and e: "phys_mem s (entry_addr (table_at (phys_mem s) (pdir s) (a div PAGE_SIZE div 1024))
              (a div PAGE_SIZE mod 1024)) = PT_RW"
  shows "\<exists>s'. i386_free_page (i386_kernel_mmu_data s) a s = Inr (K_SUCCESS, s') \<and>
           used_frames s' = used_frames s - {0} \<and> frame_inv s' \<and> meminfo s' = meminfo s"
proof -
  have ok: "mmu_ok s" "frame_inv s"
    using inv by (simp_all add: paging_inv_def)
  have "PT_RW div PAGE_SIZE = 0"
    by (simp add: PT_RW_def PAGE_SIZE_def)
  moreover obtain b where b: "bitset_clear_bit (i386_mem_frame_bitset s) 0 = Inr b" "bitset_inv b"
    "bitset_frame b = bitset_frame (i386_mem_frame_bitset s)" "bits b = bits (i386_mem_frame_bitset s) - {0}"
    using bs.clear_ok [OF _ b0] ok(2) by (auto simp: frame_inv_def)
  have np: "mapping s (a div PAGE_SIZE) = None"
    using mapping_entry [OF unat_page_number [of a], of s] a t e
    by (simp add: dynamic_page_def Let_def PT_RW_def entry_present_def)
  then have fixed: "a div PAGE_SIZE \<noteq> pdir s div PAGE_SIZE" "a div PAGE_SIZE \<noteq> wtable s div PAGE_SIZE"
    using fixed_pages_mapped [OF ok(1)] by auto
  ultimately obtain s' where s': "i386_free_page (i386_kernel_mmu_data s) a s = Inr (K_SUCCESS, s')" "mm_only s s'"
    "i386_mem_frame_bitset s' = b"
    using free_page_step [OF ok(1) _ _ t fixed e [symmetric], of b] a b(1) by (auto simp: dynamic_page_def)
  then show ?thesis
    using b(2-4) ok(2) mm_onlyD(3) [OF s'(2)] by (simp add: used_frames_def frame_inv_def bitset_frame_def)
qed

lemma allocate_frame_zero_free:
  assumes "frame_inv s" and "0 \<in> free_frames s"
  shows "i386_mem_allocate_frame s = Inr (0, s)"
proof -
  obtain f where f: "i386_mem_get_next_free_frame s = Inr f" "first_free s f"
    using get_next_free_frame_spec [OF assms(1)] assms(2) by (auto split: if_splits)
  have "f = 0"
    using f(2) assms(2) by (auto simp: first_free_def unat_eq_zero)
  then show ?thesis
    using f(1) by (simp add: i386_mem_allocate_frame_def)
qed

section \<open>A small machine\<close>

text \<open>Four megabytes of memory with every frame free, and the early allocator installed.\<close>

definition sample_early :: paging_state where
  "sample_early =
     \<lparr>phys_mem = (\<lambda>_. 0), cr3 = 0, paging_on = False, tlb = Map.empty,
      meminfo = sample_meminfo\<lparr>highest_free_address := 0x400000\<rparr>,
      i386_mem_frame_bitset = \<lparr>bs_length = 1024, bs_start = 0x101000, bs_cells = replicate 32 0\<rparr>,
      i386_kernel_mmu_data = \<lparr>page_directory = 0\<rparr>, WINDOW_PAGE = 0, early_init_done = False,
      kpaging_data = \<lparr>kp_kernel_start = 0, kp_kernel_end = 0, kp_highest_page = 0, kp_page_size = 0,
        kp_mem_total = 0\<rparr>,
      isr_routines = isr_routines_init\<rparr>"

definition sample_kd :: "paging_state kalloc_interface" where
  "sample_kd = \<lparr>kalloc_malloc_real_fn = Some i386_mem_kmalloc_real, kalloc_free_fn = Some i386_mem_kfree\<rparr>"

lemma sample_ready: "paging_ready sample_kd sample_early"
  by (simp add: paging_ready_def sample_early_def sample_kd_def early_def placement_ok_def sample_meminfo_def
      page_aligned_def PAGE_SIZE_def frame_inv_def bitset_inv_def isr_routines_init_def)

lemma sample_used: "used_frames sample_early = {}"
  by (auto simp: used_frames_def in_bits sample_early_def less_mult_imp_div_less)

lemma sample_limit: "meminfo s = (meminfo sample_early)\<lparr>kernel_heap_curpos := c\<rparr> \<Longrightarrow> frame_limit s = 1024"
  by (simp add: frame_limit_def sample_early_def sample_meminfo_def PAGE_SIZE_def)

text \<open>The machine with paging on: frames 380 to 1023 are free, page 1024 can be mapped.\<close>

lemma sample_paging:
  obtains s where "i386_paging_init sample_kd sample_early = Inr s" "paging_inv s"
    "free_frames s = {380..<1024}" "WINDOW_PAGE s = 0x152000"
    "mapping s = (\<lambda>p. if p < 0x17c \<and> p \<noteq> 0x152 then Some (p * PAGE_SIZE) else None)"
    "table_present (phys_mem s) (pdir s) 0"
    "\<forall>i < 1024. 0x17c \<le> i \<longrightarrow> phys_mem s (entry_addr (table_at (phys_mem s) (pdir s) 0) i) = PT_RW"
    "0 < bs_length (i386_mem_frame_bitset s)"
proof -
  have k: "KVIRT_RESERVED div PAGE_SIZE = 0x17c"
    by (simp add: KVIRT_RESERVED_def PAGE_SIZE_def)
  obtain s where s: "i386_paging_init sample_kd sample_early = Inr s" "paging_inv s"
    "WINDOW_PAGE s = kernel_heap_start (meminfo sample_early) + 0x51000"
    "mapping s = (\<lambda>p. if p < KVIRT_RESERVED div PAGE_SIZE \<and> p \<noteq> wpage s then Some (p * PAGE_SIZE) else None)"
    "used_frames s = used_frames sample_early \<union> {..<380}"
    "meminfo s = (meminfo sample_early)\<lparr>kernel_heap_curpos := kernel_heap_curpos (meminfo s)\<rparr>"
    "table_present (phys_mem s) (pdir s) 0"
    "\<forall>i < 1024. KVIRT_RESERVED div PAGE_SIZE \<le> i \<longrightarrow>
       phys_mem s (entry_addr (table_at (phys_mem s) (pdir s) 0) i) = PT_RW"
    using paging_init_ok [OF sample_ready] by blast
  have w: "WINDOW_PAGE s = 0x152000"
    using s(3) by (simp add: sample_early_def sample_meminfo_def)
  then have wp: "wpage s = 0x152"
    by (simp add: PAGE_SIZE_def)
  have "free_frames s = {380..<1024}"
    using sample_limit [OF s(6)] by (auto simp: free_frames_alt s(5) sample_used)
  moreover have "0 \<in> bits (i386_mem_frame_bitset s)"
    using s(5) by (simp add: used_frames_def)
  then have "0 < bs_length (i386_mem_frame_bitset s)"
    using bs.ones_bound [of "i386_mem_frame_bitset s"] by (auto simp: word_gt_0 subset_iff)
  ultimately show ?thesis
    using that [OF s(1,2) _ w s(4) [unfolded wp k] s(7) s(8) [unfolded k]] by blast
qed

text \<open>The same machine with memory for little more than the reserved part: no frame is left.\<close>

definition sample_tiny :: paging_state where
  "sample_tiny = sample_early\<lparr>meminfo := sample_meminfo\<lparr>highest_free_address := 0x17f000\<rparr>,
     i386_mem_frame_bitset := \<lparr>bs_length = 383, bs_start = 0x101000, bs_cells = replicate 12 0\<rparr>\<rparr>"

lemma sample_tiny_paging:
  obtains s where "i386_paging_init sample_kd sample_tiny = Inr s" "paging_inv s" "free_frames s = {}"
proof -
  have "paging_ready sample_kd sample_tiny"
    by (simp add: paging_ready_def sample_early_def sample_tiny_def sample_kd_def early_def placement_ok_def sample_meminfo_def
        page_aligned_def PAGE_SIZE_def frame_inv_def bitset_inv_def isr_routines_init_def)
  then obtain s where s: "i386_paging_init sample_kd sample_tiny = Inr s" "paging_inv s"
    "used_frames s = used_frames sample_tiny \<union> {..<380}"
    "meminfo s = (meminfo sample_tiny)\<lparr>kernel_heap_curpos := kernel_heap_curpos (meminfo s)\<rparr>"
    using paging_init_ok by blast
  have "highest_free_address (meminfo s) = 0x17f000"
    by (subst s(4)) (simp add: sample_tiny_def)
  then have "frame_limit s \<le> 380"
    by (simp add: frame_limit_def PAGE_SIZE_def)
  then have "free_frames s = {}"
    by (auto simp: free_frames_alt s(3))
  then show ?thesis
    using that s(1,2) by blast
qed

lemma sample_page:
  "page_aligned 0x400000" "0x400000 div PAGE_SIZE = (0x400 :: u32)"
  "page_aligned 0x200000" "0x200000 div PAGE_SIZE = (0x200 :: u32)"
  by (simp_all add: page_aligned_def PAGE_SIZE_def)

lemma sample_flags: "page_flags 3" "frame_base 3 = 0" "bit (3::u32) 0"
  by (simp_all add: page_flags_def frame_base_def)

section \<open>Properties\<close>

text \<open>
  C7: Turning paging on from a machine that is ready for it returns with the paging invariant
  established: the reserved memory is mapped to itself, nothing else is mapped, the window lies
  above the early heap and the frames of the reserved memory are marked used.
\<close>

theorem paging_init_establishes:
  assumes "paging_ready kd s"
  shows "\<exists>s'. i386_paging_init kd s = Inr s' \<and> paging_inv s' \<and>
           WINDOW_PAGE s' = kernel_heap_start (meminfo s) + 0x51000 \<and>
           mapping s' = (\<lambda>p. if p < KVIRT_RESERVED div PAGE_SIZE \<and> p \<noteq> wpage s' then Some (p * PAGE_SIZE) else None) \<and>
           used_frames s' = used_frames s \<union> {..<380}"
  using paging_init_ok [OF assms] by blast

theorem paging_init_establishes_witness:
  "\<exists>s'. i386_paging_init sample_kd sample_early = Inr s' \<and> paging_inv s' \<and> used_frames s' = {..<380}"
  using paging_init_establishes [OF sample_ready] sample_used by auto

text \<open>
  C5: Allocating an unmapped page takes the lowest free frame, and one more for the page table when
  that is missing; it maps exactly that page to exactly that frame, leaves the translation of every
  other page alone and keeps the invariant.
\<close>

theorem allocate_page_maps:
  assumes "paging_inv s" and "page_aligned address" and "address div PAGE_SIZE \<noteq> wpage s"
    and "mapping s (address div PAGE_SIZE) = None"
    and "frame_base ptf = 0" and "bit ptf 0" and "frame_base pdf = 0" and "bit pdf 0"
    and "frames_needed s (address div PAGE_SIZE) \<le> card (free_frames s)"
  shows "\<exists>f s'. i386_allocate_page kd (i386_kernel_mmu_data s) address ptf pdf s =
             Inr ((K_SUCCESS, Some (f * PAGE_SIZE)), s') \<and>
           first_free s f \<and> paging_inv s' \<and>
           mapping s' = (mapping s)(address div PAGE_SIZE \<mapsto> f * PAGE_SIZE) \<and>
           card (free_frames s) = card (free_frames s') + frames_needed s (address div PAGE_SIZE)"
  using allocate_page_ok [OF assms] by blast

theorem allocate_page_maps_witness:
  "\<exists>s f s'. i386_paging_init sample_kd sample_early = Inr s \<and>
     i386_allocate_page sample_kd (i386_kernel_mmu_data s) 0x400000 3 3 s = Inr ((K_SUCCESS, Some (f * PAGE_SIZE)), s') \<and>
     mapping s' 0x400 = Some (f * PAGE_SIZE)"
proof -
  obtain s where s: "i386_paging_init sample_kd sample_early = Inr s" "paging_inv s"
    "free_frames s = {380..<1024}" "WINDOW_PAGE s = 0x152000"
    "mapping s = (\<lambda>p. if p < 0x17c \<and> p \<noteq> 0x152 then Some (p * PAGE_SIZE) else None)"
    by (rule sample_paging)
  have "frames_needed s 0x400 \<le> card (free_frames s)"
    by (simp add: s(3) frames_needed_def)
  then show ?thesis
    using allocate_page_maps [OF s(2) sample_page(1), of 3 3 sample_kd] s(1,4,5) sample_flags
    by (auto simp: sample_page PAGE_SIZE_def)
qed

text \<open>
  C13: When the frames do not suffice, for the page or for its table, allocation reports
  \<open>K_OOM\<close> and gives back what it took: mapped pages and used frames are those of before.
\<close>

theorem allocate_page_exhausted:
  assumes "paging_inv s" and "page_aligned address"
    and "card (free_frames s) < frames_needed s (address div PAGE_SIZE)"
  shows "\<exists>s'. i386_allocate_page kd (i386_kernel_mmu_data s) address ptf pdf s = Inr ((K_OOM, None), s') \<and>
           paging_inv s' \<and> mapping s' = mapping s \<and> used_frames s' = used_frames s"
  using allocate_page_oom [OF assms] by blast

theorem allocate_page_exhausted_witness:
  "\<exists>s s'. i386_paging_init sample_kd sample_tiny = Inr s \<and>
     i386_allocate_page sample_kd (i386_kernel_mmu_data s) 0x400000 3 3 s = Inr ((K_OOM, None), s') \<and> mapping s' = mapping s"
proof -
  obtain s where s: "i386_paging_init sample_kd sample_tiny = Inr s" "paging_inv s" "free_frames s = {}"
    by (rule sample_tiny_paging)
  have "card (free_frames s) < frames_needed s (0x400000 div PAGE_SIZE)"
    by (simp add: s(3) frames_needed_def)
  then show ?thesis
    using allocate_page_exhausted [OF s(2) sample_page(1)] s(1) by blast
qed

text \<open>
  C6: Freeing a mapped page above the reserved memory unmaps it, leaves every other page alone,
  makes its frame free again and keeps the invariant; so the translation the processor has cached
  for the page is gone as well.
\<close>

theorem free_page_unmaps:
  assumes "paging_inv s" and "page_aligned address" and "address div PAGE_SIZE \<noteq> wpage s"
    and "KVIRT_RESERVED div PAGE_SIZE \<le> address div PAGE_SIZE"
    and "mapping s (address div PAGE_SIZE) = Some f"
  shows "\<exists>s'. i386_free_page (i386_kernel_mmu_data s) address s = Inr (K_SUCCESS, s') \<and> paging_inv s' \<and>
           mapping s' = (mapping s)(address div PAGE_SIZE := None) \<and> tlb s' (address div PAGE_SIZE) = None \<and>
           free_frames s' = insert (frame_no f) (free_frames s)"
proof -
  obtain s' where s': "i386_free_page (i386_kernel_mmu_data s) address s = Inr (K_SUCCESS, s')" "paging_inv s'"
    "mm_only s s'" "mapping s' = (mapping s)(address div PAGE_SIZE := None)"
    "free_frames s' = insert (frame_no f) (free_frames s)"
    using free_page_ok [OF assms] by (elim exE conjE) (rule that)
  have "mmu_ok s'"
    using s'(2) unfolding paging_inv_def by blast
  moreover have "address div PAGE_SIZE \<noteq> wpage s'" "mapping s' (address div PAGE_SIZE) = None"
    using s'(4) assms(3) mm_onlyD(2) [OF s'(3)] by simp_all
  ultimately have "tlb s' (address div PAGE_SIZE) = None"
    using unmapped_not_cached by metis
  then show ?thesis
    using s'(1,2,4,5) by blast
qed

theorem free_page_unmaps_witness:
  "\<exists>s f s1 s2. i386_paging_init sample_kd sample_early = Inr s \<and>
     i386_allocate_page sample_kd (i386_kernel_mmu_data s) 0x400000 3 3 s = Inr ((K_SUCCESS, Some f), s1) \<and>
     i386_free_page (i386_kernel_mmu_data s1) 0x400000 s1 = Inr (K_SUCCESS, s2) \<and> mapping s2 0x400 = None"
proof -
  obtain s where s: "i386_paging_init sample_kd sample_early = Inr s" "paging_inv s"
    "free_frames s = {380..<1024}" "WINDOW_PAGE s = 0x152000"
    "mapping s = (\<lambda>p. if p < 0x17c \<and> p \<noteq> 0x152 then Some (p * PAGE_SIZE) else None)"
    by (rule sample_paging)
  have p: "0x400000 div PAGE_SIZE \<noteq> wpage s" "mapping s (0x400000 div PAGE_SIZE) = None"
    "frames_needed s (0x400000 div PAGE_SIZE) \<le> card (free_frames s)"
    by (simp_all add: s(3-5) sample_page frames_needed_def PAGE_SIZE_def)
  obtain f s1 where s1: "i386_allocate_page sample_kd (i386_kernel_mmu_data s) 0x400000 3 3 s =
      Inr ((K_SUCCESS, Some (f * PAGE_SIZE)), s1)" "paging_inv s1" "mm_only s s1"
    "mapping s1 = (mapping s)(0x400000 div PAGE_SIZE \<mapsto> f * PAGE_SIZE)"
    using allocate_page_ok [OF s(2) sample_page(1) p(1,2) sample_flags(2,3) sample_flags(2,3) p(3)] by blast
  have "0x400000 div PAGE_SIZE \<noteq> wpage s1" "KVIRT_RESERVED div PAGE_SIZE \<le> 0x400000 div PAGE_SIZE"
    "mapping s1 (0x400000 div PAGE_SIZE) = Some (f * PAGE_SIZE)"
    using p(1) s1(4) mm_onlyD(2) [OF s1(3)] by (simp_all add: KVIRT_RESERVED_def PAGE_SIZE_def)
  from free_page_unmaps [OF s1(2) sample_page(1) this] show ?thesis
    using s(1) s1(1) by (auto simp: sample_page)
qed

text \<open>
  C8: Looking a page up gives the frame the processor's tables translate it to, or 0 when it is not
  mapped, and changes no translation.
\<close>

theorem get_phys_is_translation:
  assumes "paging_inv s" and "address div PAGE_SIZE \<noteq> wpage s"
  shows "\<exists>s'. i386_kpage_get_phys address s =
           Inr (case walk (phys_mem s) (frame_base (cr3 s)) (address div PAGE_SIZE) of None \<Rightarrow> 0 | Some f \<Rightarrow> f, s') \<and>
         paging_inv s' \<and> mapping s' = mapping s"
proof -
  have ok: "mmu_ok s"
    using assms(1) by (simp add: paging_inv_def)
  have "mapping s (address div PAGE_SIZE) = walk (phys_mem s) (frame_base (cr3 s)) (address div PAGE_SIZE)"
    using assms(2) mmu_okD(3) [OF ok] by (simp add: mapping_def unat_page_number)
  then show ?thesis
    using page_get_phys_ok [OF ok assms(2)] window_moved_inv window_movedD(9) assms(1)
    by (fastforce simp: i386_kpage_get_phys_def)
qed

theorem get_phys_is_translation_witness:
  "\<exists>s s'. i386_paging_init sample_kd sample_early = Inr s \<and>
     i386_kpage_get_phys 0x400000 s = Inr (0, s') \<and> paging_inv s'"
proof -
  obtain s where s: "i386_paging_init sample_kd sample_early = Inr s" "paging_inv s" "WINDOW_PAGE s = 0x152000"
    "mapping s = (\<lambda>p. if p < 0x17c \<and> p \<noteq> 0x152 then Some (p * PAGE_SIZE) else None)"
    by (rule sample_paging)
  have "mmu_ok s"
    using s(2) by (simp add: paging_inv_def)
  then have "walk (phys_mem s) (frame_base (cr3 s)) 0x400 = mapping s 0x400"
    using s(3) mmu_okD(3) [of s] by (simp add: mapping_def PAGE_SIZE_def)
  then show ?thesis
    using get_phys_is_translation [OF s(2), of "0x400000"] s(1,3,4)
    by (auto simp: sample_page PAGE_SIZE_def)
qed

text \<open>
  C14: With two frames to spare, mapping a page through the kernel's paging interface and freeing it
  again succeeds and restores the translation of every page.
\<close>

theorem kpage_allocate_free_roundtrip:
  assumes "paging_inv s" and "dynamic_page s a" and "page_flags fl"
    and "mapping s (a div PAGE_SIZE) = None" and "2 \<le> spare_frames s"
  shows "\<exists>s1 s2. kpage_allocate (i386_paging_interface kd) a fl s = Inr (K_SUCCESS, s1) \<and>
           kpage_free (i386_paging_interface kd) a s1 = Inr (K_SUCCESS, s2) \<and>
           paging_inv s2 \<and> mapping s2 = mapping s"
  using i386.allocate_release [of s a fl kd] assms
  by (simp add: kpage_allocate_def kpage_free_def i386_paging_interface_def)

theorem kpage_allocate_free_roundtrip_witness:
  "\<exists>s s1 s2. i386_paging_init sample_kd sample_early = Inr s \<and>
     kpage_allocate (i386_paging_interface sample_kd) 0x400000 3 s = Inr (K_SUCCESS, s1) \<and>
     kpage_free (i386_paging_interface sample_kd) 0x400000 s1 = Inr (K_SUCCESS, s2) \<and> mapping s2 = mapping s"
proof -
  obtain s where s: "i386_paging_init sample_kd sample_early = Inr s" "paging_inv s"
    "free_frames s = {380..<1024}" "WINDOW_PAGE s = 0x152000"
    "mapping s = (\<lambda>p. if p < 0x17c \<and> p \<noteq> 0x152 then Some (p * PAGE_SIZE) else None)"
    by (rule sample_paging)
  have "dynamic_page s 0x400000"
    using s(4) sample_page by (simp add: dynamic_page_def KVIRT_RESERVED_def PAGE_SIZE_def)
  then show ?thesis
    using kpage_allocate_free_roundtrip [OF s(2) _ sample_flags(1), of "0x400000" sample_kd] s
    by (auto simp: sample_page spare_frames_def)
qed

text \<open>
  C40: Freeing a page whose table exists but which is not mapped (its entry is the one that making a
  table and freeing a page leave) succeeds all the same, marks frame 0 free, and from then on the
  frame allocator reports that memory is exhausted.
\<close>

theorem free_unmapped_page_exhausts_memory:
  assumes "paging_inv s" and "dynamic_page s a" and "0 < frame_limit s"
    and "table_present (phys_mem s) (pdir s) (a div PAGE_SIZE div 1024)"
    and "phys_mem s (entry_addr (table_at (phys_mem s) (pdir s) (a div PAGE_SIZE div 1024))
              (a div PAGE_SIZE mod 1024)) = PT_RW"
  shows "\<exists>s'. i386_free_page (i386_kernel_mmu_data s) a s = Inr (K_SUCCESS, s') \<and>
           0 \<in> free_frames s' \<and> i386_mem_allocate_frame s' = Inr (0, s')"
proof -
  have "frame_inv s"
    using assms(1) by (simp add: paging_inv_def)
  then have b0: "0 < bs_length (i386_mem_frame_bitset s)"
    using frame_limit_le [of s] assms(3) by (simp add: word_less_nat_alt)
  obtain s' where s': "i386_free_page (i386_kernel_mmu_data s) a s = Inr (K_SUCCESS, s')"
    "used_frames s' = used_frames s - {0}" "frame_inv s'" "meminfo s' = meminfo s"
    using free_page_unmapped [OF assms(1,2) b0 assms(4,5)] by blast
  then have "0 \<in> free_frames s'"
    using assms(3) by (simp add: free_frames_alt frame_limit_def)
  then show ?thesis
    using s'(1,3) allocate_frame_zero_free by blast
qed

theorem free_unmapped_page_exhausts_memory_witness:
  "\<exists>s s'. i386_paging_init sample_kd sample_early = Inr s \<and> free_frames s = {380..<1024} \<and>
     i386_free_page (i386_kernel_mmu_data s) 0x200000 s = Inr (K_SUCCESS, s') \<and>
     i386_mem_allocate_frame s' = Inr (0, s')"
proof -
  obtain s where s: "i386_paging_init sample_kd sample_early = Inr s" "paging_inv s"
    "free_frames s = {380..<1024}" "WINDOW_PAGE s = 0x152000" "table_present (phys_mem s) (pdir s) 0"
    "\<forall>i < 1024. 0x17c \<le> i \<longrightarrow> phys_mem s (entry_addr (table_at (phys_mem s) (pdir s) 0) i) = PT_RW"
    by (rule sample_paging)
  have "dynamic_page s 0x200000"
    using s(4) sample_page by (simp add: dynamic_page_def KVIRT_RESERVED_def PAGE_SIZE_def)
  moreover have "0 < frame_limit s"
    using s(3) by (cases "frame_limit s = 0") (auto simp: free_frames_alt)
  ultimately show ?thesis
    using free_unmapped_page_exhausts_memory [OF s(2), of "0x200000"] s(1,3,5) s(6) [rule_format, of "0x200"]
    by (auto simp: sample_page)
qed

end
