(* ===== verification/Kheap_Expand.thy ===== *)
theory Kheap_Expand
  imports Kheap_List Paging_Contract
begin

text \<open>
  Growing the heap: it takes address space from the allocator of \<^verbatim>\<open>asa.c\<close>, maps it page by page
  through the paging interface, and puts a header in front. The loops over pages are proved once, for
  every provider of \<open>page_mapper\<close>.
\<close>

section \<open>Mapping a run of pages\<close>

definition page_no :: "uintptr_t \<Rightarrow> nat \<Rightarrow> u32" where
  "page_no loc j = (loc + of_nat j * PAGE_SIZE) div PAGE_SIZE"

text \<open>The first \<open>k\<close> pages of the run are mapped, to frames that no page was mapped to before, and the other pages as before.\<close>

definition pages_mapped :: "(nat \<Rightarrow> u32) \<Rightarrow> nat \<Rightarrow> (u32 \<rightharpoonup> u32) \<Rightarrow> (u32 \<rightharpoonup> u32) \<Rightarrow> bool" where
  "pages_mapped pg k m m' \<longleftrightarrow> (\<forall>j<k. \<exists>f. m' (pg j) = Some f \<and> f \<notin> ran m) \<and>
     (\<forall>p. p \<notin> pg ` {..<k} \<longrightarrow> m' p = m p)"

lemma unat_page_offset:
  assumes "unat loc + n * 4096 < 4294967296" and "j < n"
  shows "unat (loc + of_nat j * PAGE_SIZE) = unat loc + j * 4096"
proof -
  have "j * 4096 \<le> n * 4096"
    using assms(2) by simp
  then have b: "unat loc + j * 4096 < 4294967296" "j < 4294967296"
    using assms(1) by linarith+
  have "unat (of_nat j * PAGE_SIZE) = j * 4096"
    using b unat_mult_no_wrap [of "of_nat j" PAGE_SIZE] by (simp add: unat_of_nat_u32 PAGE_SIZE_def)
  then show ?thesis
    using b(1) unat_add_no_wrap [of loc "of_nat j * PAGE_SIZE"] by simp
qed

lemma unat_page_no:
  assumes "unat loc + n * 4096 < 4294967296" and "j < n"
  shows "unat (page_no loc j) = unat loc div 4096 + j"
  using unat_page_offset [OF assms] by (simp add: page_no_def unat_div) (simp add: PAGE_SIZE_def)

lemma page_no_inj: "unat loc + n * 4096 < 4294967296 \<Longrightarrow> inj_on (page_no loc) {..<n}"
  by (rule inj_onI) (metis add_left_cancel lessThan_iff unat_page_no)

lemma pages_mapped_0: "pages_mapped pg 0 m m"
  by (simp add: pages_mapped_def)

lemma pages_mapped_Suc:
  assumes pm: "pages_mapped pg k m m'" and inj: "inj_on pg {..<Suc k}" and f: "f \<notin> ran m'"
    and none: "\<And>j. j < Suc k \<Longrightarrow> m (pg j) = None"
  shows "pages_mapped pg (Suc k) m (m'(pg k \<mapsto> f))"
proof -
  have new: "pg k \<notin> pg ` {..<k}"
    using inj by (auto dest: inj_onD)
  have sub: "ran m \<subseteq> ran m'"
  proof
    fix g
    assume "g \<in> ran m"
    then obtain p where p: "m p = Some g"
      by (auto simp: ran_def)
    then have "p \<notin> pg ` {..<k}"
      using none by force
    then show "g \<in> ran m'"
      using p pm ranI [of m' p g] by (simp add: pages_mapped_def)
  qed
  have "\<exists>g. (m'(pg k \<mapsto> f)) (pg j) = Some g \<and> g \<notin> ran m" if "j < Suc k" for j
  proof (cases "j = k")
    case True
    then show ?thesis
      using f sub by auto
  next
    case False
    then have "j < k"
      using that by simp
    then have "pg j \<noteq> pg k"
      using new by (metis imageI lessThan_iff)
    then show ?thesis
      using pm \<open>j < k\<close> by (simp add: pages_mapped_def)
  qed
  moreover have "\<forall>p. p \<notin> insert (pg k) (pg ` {..<k}) \<longrightarrow> (m'(pg k \<mapsto> f)) p = m p"
    using pm by (simp add: pages_mapped_def)
  ultimately show ?thesis
    unfolding pages_mapped_def by (simp add: lessThan_Suc)
qed

context page_mapper
begin

text \<open>The mapping loop of the heap: either every page is mapped, or the first \<open>i\<close> of them are.\<close>

lemma map_pages_ok:
  assumes "ok s" and iface: "kpage_allocate_fn iface = Some allocate"
    and fits: "unat loc + unat n * 4096 < 4294967296"
    and use: "\<And>j. j < unat n \<Longrightarrow> usable (rest s) (loc + of_nat j * PAGE_SIZE)"
    and fl: "flags_ok (KPAGE_PRESENT OR KPAGE_RW)"
    and none: "\<And>j. j < unat n \<Longrightarrow> mapping s (page_no loc j) = None"
  shows "(\<exists>s'. map_pages iface loc PAGE_SIZE n s = Inr (Next s') \<and> ok s' \<and> rest s' = rest s \<and>
            pages_mapped (page_no loc) (unat n) (mapping s) (mapping s')) \<or>
         (\<exists>i s'. map_pages iface loc PAGE_SIZE n s = Inr (Ret (i, s')) \<and> i < n \<and> ok s' \<and> rest s' = rest s \<and>
            spare s < 2 * unat n \<and> pages_mapped (page_no loc) (unat i) (mapping s) (mapping s'))"
proof -
  let ?body = "\<lambda>i s. bindr (kpage_allocate iface (loc + i * PAGE_SIZE) (KPAGE_PRESENT OR KPAGE_RW) s)
          (\<lambda>(ret, s). if K_FAILED ret then Inr (Ret (i, s)) else Inr (Next s))"
  let ?I = "\<lambda>i t. ok t \<and> rest t = rest s \<and> spare s \<le> spare t + 2 * unat i \<and> pages_mapped (page_no loc) (unat (i :: u32)) (mapping s) (mapping t)"
  let ?Q = "\<lambda>(i, t). i < n \<and> spare s < 2 * unat n \<and> ?I i t"
  have "(\<exists>s'. for_ret 0 n ?body s = Inr (Next s') \<and> ?I n s') \<or> (\<exists>r. for_ret 0 n ?body s = Inr (Ret r) \<and> ?Q r)"
  proof (rule for_ret_rule [where I = ?I and Q = ?Q])
    show "?I 0 s"
      using assms(1) by (simp add: pages_mapped_0)
  next
    fix i t
    assume i: "i < n" and I: "?I i t"
    have ui: "unat i < unat n"
      using i by (simp add: word_less_nat_alt)
    have adr: "loc + i * PAGE_SIZE = loc + of_nat (unat i) * PAGE_SIZE" "(loc + i * PAGE_SIZE) div PAGE_SIZE = page_no loc (unat i)"
      by (simp_all add: page_no_def)
    have inj: "inj_on (page_no loc) {..<Suc (unat i)}"
      using ui by (intro inj_on_subset [OF page_no_inj [OF fits]]) auto
    have "page_no loc (unat i) \<notin> page_no loc ` {..<unat i}"
      using inj by (auto dest: inj_onD)
    then have "mapping t ((loc + i * PAGE_SIZE) div PAGE_SIZE) = None"
      using I none [OF ui] by (simp add: adr(2) pages_mapped_def)
    moreover have "usable (rest t) (loc + i * PAGE_SIZE)"
      using use [OF ui] I by simp
    ultimately obtain r t' where t': "allocate (loc + i * PAGE_SIZE) (KPAGE_PRESENT OR KPAGE_RW) t = Inr (r, t')"
      "ok t'" "rest t' = rest t"
      "if r = K_SUCCESS then spare t' < spare t \<and> spare t \<le> spare t' + 2 \<and>
              (\<exists>f. f \<notin> ran (mapping t) \<and> mapping t' = (mapping t)((loc + i * PAGE_SIZE) div PAGE_SIZE \<mapsto> f))
       else r = K_OOM \<and> spare t < 2 \<and> spare t' = spare t \<and> mapping t' = mapping t"
      using allocate_ok [of t "loc + i * PAGE_SIZE" "KPAGE_PRESENT OR KPAGE_RW"] I fl by blast
    show "(\<exists>s'. ?body i t = Inr (Next s') \<and> ?I (i + 1) s') \<or> (\<exists>r. ?body i t = Inr (Ret r) \<and> ?Q r)"
    proof (cases "r = K_SUCCESS")
      case True
      then obtain f where f: "f \<notin> ran (mapping t)" "mapping t' = (mapping t)(page_no loc (unat i) \<mapsto> f)"
        using t'(4) adr(2) by auto
      have "pages_mapped (page_no loc) (Suc (unat i)) (mapping s) (mapping t')"
        unfolding f(2) using I inj f(1) ui by (intro pages_mapped_Suc) (auto intro: none)
      then show ?thesis
        using True t' iface I by (simp add: kpage_allocate_def unat_suc_less [OF i])
    next
      case False
      then show ?thesis
        using t' iface I i ui by (simp add: kpage_allocate_def)
    qed
  qed simp
  then show ?thesis
    unfolding map_pages_def by auto
qed

lemma unmap_pages_ok:
  assumes "ok s" and iface: "kpage_free_fn iface = Some release"
    and fits: "unat loc + k * 4096 < 4294967296"
    and use: "\<And>j. j < k \<Longrightarrow> usable (rest s) (loc + of_nat j * PAGE_SIZE)"
    and some: "\<And>j. j < k \<Longrightarrow> \<exists>f. mapping s (page_no loc j) = Some f"
  shows "\<exists>s'. unmap_pages iface loc PAGE_SIZE k s = Inr s' \<and> ok s' \<and> rest s' = rest s \<and>
           mapping s' = (\<lambda>p. if p \<in> page_no loc ` {..<k} then None else mapping s p)"
  using assms
proof (induction k arbitrary: s)
  case (Suc k)
  obtain f where f: "mapping s (page_no loc k) = Some f"
    using Suc.prems(5) by blast
  then obtain t where t: "release (loc + of_nat k * PAGE_SIZE) s = Inr (K_SUCCESS, t)" "ok t" "rest t = rest s"
    "mapping t = (mapping s)(page_no loc k := None)"
    using release_ok [OF Suc.prems(1), of "loc + of_nat k * PAGE_SIZE" f] Suc.prems(4)
    by (auto simp: page_no_def)
  have inj: "inj_on (page_no loc) {..<Suc k}"
    using Suc.prems(3) by (rule page_no_inj)
  have "\<exists>f. mapping t (page_no loc j) = Some f" if "j < k" for j
  proof -
    have "page_no loc j \<noteq> page_no loc k"
      using inj_onD [OF inj, of j k] that by auto
    then show ?thesis
      using Suc.prems(5) [of j] that t(4) by simp
  qed
  then obtain s' where s': "unmap_pages iface loc PAGE_SIZE k t = Inr s'" "ok s'" "rest s' = rest t"
    "mapping s' = (\<lambda>p. if p \<in> page_no loc ` {..<k} then None else mapping t p)"
    using Suc.IH [OF t(2) Suc.prems(2)] Suc.prems(3,4) t(3) by auto
  have "mapping s' = (\<lambda>p. if p \<in> page_no loc ` {..<Suc k} then None else mapping s p)"
    unfolding s'(4) t(4) by (auto simp: lessThan_Suc fun_eq_iff)
  then show ?case
    using t(1,3) s'(1-3) Suc.prems(2) by (simp add: kpage_free_def)
qed simp

end

section \<open>The heap over address space and pages\<close>

lemma paging_inv_more [simp]:
  "paging_inv (s\<lparr>kasa_data := ka\<rparr>) = paging_inv s"
  "paging_inv (s\<lparr>kheap_default := h\<rparr>) = paging_inv s"
  "paging_inv (s\<lparr>kheap_blocks := m\<rparr>) = paging_inv s"
  unfolding paging_inv_def mmu_ok_def frame_inv_def used_frames_def free_frames_def frame_limit_def struct_frames_def
    mapping_def placement_ok_def
  by simp_all

lemma mapping_more [simp]:
  "mapping (s\<lparr>kasa_data := ka\<rparr>) = mapping s"
  "mapping (s\<lparr>kheap_default := h\<rparr>) = mapping s"
  "mapping (s\<lparr>kheap_blocks := m\<rparr>) = mapping s"
  by (rule ext, simp add: mapping_def)+

text \<open>
  Address space that the allocator hands out is not mapped: what is mapped below its limit is marked
  used, the reserved pages and the window are marked used.
\<close>

definition heap_env :: "'a heap_state_scheme \<Rightarrow> bool" where
  "heap_env s \<longleftrightarrow> paging_inv s \<and> kp_page_size (kpaging_data s) = PAGE_SIZE \<and>
     asa_inv (kasa_data s) \<and> asa_page_size (kasa_data s) = PAGE_SIZE \<and>
     unat (bs_length (asa_pages (kasa_data s))) \<le> 0x3FFFF \<and>
     {..<0x17c} \<subseteq> asa_used (kasa_data s) \<and> unat (wpage s) \<in> asa_used (kasa_data s) \<and>
     (\<forall>p. mapping s p \<noteq> None \<longrightarrow> unat p < unat (bs_length (asa_pages (kasa_data s))) \<longrightarrow>
        unat p \<in> asa_used (kasa_data s))"

text \<open>Every byte of a block lies in a page that is marked used and mapped.\<close>

definition heap_backed :: "uintptr_t list \<Rightarrow> 'a heap_state_scheme \<Rightarrow> bool" where
  "heap_backed bl s \<longleftrightarrow> (\<forall>p\<in>set bl. \<forall>x\<in>block_bytes (kheap_blocks s) p.
     x div 4096 \<in> asa_used (kasa_data s) \<and> mapping s (of_nat (x div 4096)) \<noteq> None)"

definition heap_inv ::
  "uintptr_t list \<Rightarrow> (uintptr_t \<Rightarrow> allocs) \<Rightarrow> kheap \<Rightarrow> 'a heap_state_scheme \<Rightarrow> bool" where
  "heap_inv bl H heap s \<longleftrightarrow> heap_env s \<and> heap_rel bl H heap (kheap_blocks s) \<and> heap_backed bl s"

text \<open>A megabyte takes 261 pages with its header and bitsets.\<close>

lemma expand_pages_default:
  "expand_pages PAGE_SIZE 0x100000 256 (DIV_ROUND_UP (256 * PAGE_SIZE) (SECTION_SIZE_DEFAULT * 32) * 4) = Some 261"
  by (subst expand_pages.simps, simp add: PAGE_SIZE_def DIV_ROUND_UP_def SECTION_SIZE_DEFAULT_def sizeof_kheap_block_def)+


lemma heap_envD:
  assumes "heap_env s"
  shows "paging_inv s" "kp_page_size (kpaging_data s) = PAGE_SIZE" "asa_inv (kasa_data s)"
    "asa_page_size (kasa_data s) = PAGE_SIZE" "unat (bs_length (asa_pages (kasa_data s))) \<le> 0x3FFFF"
    "{..<0x17c} \<subseteq> asa_used (kasa_data s)" "unat (wpage s) \<in> asa_used (kasa_data s)"
    "mapping s p \<noteq> None \<Longrightarrow> unat p < unat (bs_length (asa_pages (kasa_data s))) \<Longrightarrow> unat p \<in> asa_used (kasa_data s)"
  using assms unfolding heap_env_def by blast+

lemma paging_restD:
  assumes "paging_rest s = paging_rest t"
  shows "kpaging_data s = kpaging_data t" "kasa_data s = kasa_data t" "kheap_blocks s = kheap_blocks t"
    "WINDOW_PAGE s = WINDOW_PAGE t" "kheap_default s = kheap_default t"
  using arg_cong [OF assms, of kpaging_data] arg_cong [OF assms, of kasa_data] arg_cong [OF assms, of kheap_blocks]
    arg_cong [OF assms, of WINDOW_PAGE] arg_cong [OF assms, of kheap_default]
  by (simp_all add: paging_rest_def)

text \<open>The address space that the allocator finds can be mapped, and is not mapped yet.\<close>

lemma asa_run_mappable:
  assumes env: "heap_env s" and found: "asa_found (kasa_data s) n (a, ka)" and n: "n \<noteq> 0"
  shows "unat a + unat n * 4096 < 0x40000000" "a \<noteq> 0" "page_aligned a" "261 \<le> unat a div 4096"
    "j < unat n \<Longrightarrow> dynamic_page s (a + of_nat j * PAGE_SIZE)"
    "j < unat n \<Longrightarrow> mapping s (page_no a j) = None"
    "asa_used ka = asa_used (kasa_data s) \<union> {unat a div 4096..<unat a div 4096 + unat n}"
    "{unat a div 4096..<unat a div 4096 + unat n} \<inter> asa_used (kasa_data s) = {}"
    "asa_inv ka" "asa_page_size ka = PAGE_SIZE" "bs_length (asa_pages ka) = bs_length (asa_pages (kasa_data s))"
proof -
  note e = heap_envD [OF env]
  note fd = asa_foundD [OF e(3) found]
  obtain g where g: "unat a = g * 4096" "free_run (kasa_data s) (unat n) g"
    "asa_used ka = asa_used (kasa_data s) \<union> {g..<g + unat n}"
    using fd(4) e(4) by (auto simp: PAGE_SIZE_def)
  have run: "g + unat n \<le> 0x3FFFF" "{g..<g + unat n} \<inter> asa_used (kasa_data s) = {}" "0 < unat n"
    "g + unat n \<le> unat (bs_length (asa_pages (kasa_data s)))"
    using g(2) e(5) n by (simp_all add: free_run_def unat_gt_0)
  have g0: "0x17c \<le> g"
    using run(2,3) e(6) by (metis IntI atLeastLessThan_iff empty_iff le_refl less_add_same_cancel1 lessThan_iff not_le subsetD)
  have gd: "unat a div 4096 = g"
    using g(1) by simp
  show fits: "unat a + unat n * 4096 < 0x40000000"
    using g(1) run(1) by simp
  show "a \<noteq> 0" and "261 \<le> unat a div 4096"
    using g(1) g0 by auto
  have al: "page_aligned x" if "unat x = k * 4096" for x :: u32 and k
    using that by (simp add: page_aligned_def word_unat_eq_iff unat_mod PAGE_SIZE_def)
  show "page_aligned a"
    using g(1) by (rule al)
  have off: "unat (a + of_nat j * PAGE_SIZE) = (g + j) * 4096" "unat (page_no a j) = g + j" if "j < unat n" for j
    using unat_page_offset [of a "unat n" j] unat_page_no [of a "unat n" j] fits that g(1) gd by simp_all
  have free: "g + j \<notin> asa_used (kasa_data s)" if "j < unat n" for j
    using run(2) that by (metis IntI atLeastLessThan_iff empty_iff le_add1 nat_add_left_cancel_less)
  show "dynamic_page s (a + of_nat j * PAGE_SIZE)" if "j < unat n"
  proof -
    have "unat ((a + of_nat j * PAGE_SIZE) div PAGE_SIZE) = g + j"
      using off(2) [OF that] by (simp add: page_no_def)
    moreover from this have "(a + of_nat j * PAGE_SIZE) div PAGE_SIZE \<noteq> wpage s"
      using free [OF that] e(7) by auto
    ultimately show ?thesis
      using al [OF off(1) [OF that]] g0 by (simp add: dynamic_page_def word_le_nat_alt KVIRT_RESERVED_def) (simp add: PAGE_SIZE_def)
  qed
  show "mapping s (page_no a j) = None" if "j < unat n"
    using e(8) [of "page_no a j"] off(2) [OF that] free [OF that] run(4) that by force
  show "asa_used ka = asa_used (kasa_data s) \<union> {unat a div 4096..<unat a div 4096 + unat n}"
    "{unat a div 4096..<unat a div 4096 + unat n} \<inter> asa_used (kasa_data s) = {}"
    using g(3) run(2) gd by simp_all
  show "asa_inv ka" "asa_page_size ka = PAGE_SIZE" "bs_length (asa_pages ka) = bs_length (asa_pages (kasa_data s))"
    using fd(1-3) e(4) by simp_all
qed

text \<open>The environment after the run is taken and some of its pages are mapped.\<close>

lemma heap_env_mapped:
  assumes env: "heap_env s" and found: "asa_found (kasa_data s) n (a, ka)" and n: "n \<noteq> 0"
    and t: "paging_inv t" "paging_rest t = paging_rest (s\<lparr>kasa_data := ka\<rparr>)" and k: "k \<le> unat n"
    and m: "\<And>p. p \<notin> page_no a ` {..<k} \<Longrightarrow> mapping t p = mapping s p"
  shows "heap_env t" and "heap_backed bl s \<Longrightarrow> heap_backed bl t" and "kheap_blocks t = kheap_blocks s"
proof -
  note e = heap_envD [OF env] and r = asa_run_mappable [OF env found n] and rd = paging_restD [OF t(2)]
  have pg: "unat (page_no a j) = unat a div 4096 + j" if "j < unat n" for j
    using unat_page_no [of a "unat n" j] r(1) that by simp
  have other: "p \<notin> page_no a ` {..<k}" if "unat p \<in> asa_used (kasa_data s)" for p
  proof
    assume "p \<in> page_no a ` {..<k}"
    then obtain j where "j < k" "p = page_no a j"
      by blast
    then have "unat p \<in> {unat a div 4096..<unat a div 4096 + unat n}"
      using pg [of j] k by simp
    then show False
      using r(8) that by blast
  qed
  have used: "unat p \<in> asa_used ka" if "mapping t p \<noteq> None" "unat p < unat (bs_length (asa_pages ka))" for p
  proof (cases "p \<in> page_no a ` {..<k}")
    case True
    then show ?thesis
      using pg k by (auto simp: r(7))
  next
    case False
    then show ?thesis
      using e(8) [of p] m that r(7,11) by simp
  qed
  show "heap_env t"
    unfolding heap_env_def using t(1) e rd r(7,9-11) used by auto
  show "kheap_blocks t = kheap_blocks s"
    using rd(3) by simp
  show "heap_backed bl t" if "heap_backed bl s"
    unfolding heap_backed_def
  proof (intro ballI)
    fix p x
    assume "p \<in> set bl" and "x \<in> block_bytes (kheap_blocks t) p"
    then have x: "x div 4096 \<in> asa_used (kasa_data s)" "mapping s (of_nat (x div 4096)) \<noteq> None"
      using that rd(3) by (auto simp: heap_backed_def)
    have "x div 4096 < unat (bs_length (asa_pages (kasa_data s)))"
      using x(1) bs.ones_bound [of "asa_pages (kasa_data s)"] by (auto simp: asa_used_def)
    then have "unat (of_nat (x div 4096) :: u32) = x div 4096"
      using e(5) by (intro unat_of_nat_u32) linarith
    then have "mapping t (of_nat (x div 4096)) = mapping s (of_nat (x div 4096))"
      using x(1) by (intro m other) simp
    then show "x div 4096 \<in> asa_used (kasa_data t) \<and> mapping t (of_nat (x div 4096)) \<noteq> None"
      using x r(7) rd(2) by simp
  qed
qed

lemma meta_default: "meta_bytes 0x105000 0x10 = 16744" "meta_sections 0x105000 0x10 = 1047"
  by (simp_all add: meta_sections_def meta_bytes_def DIV_ROUND_UP_def sizeof_kheap_block_def)

text \<open>A new block in front of the list.\<close>

lemma heap_rel_add:
  assumes rel: "heap_rel bl H heap m" and new: "p \<notin> set bl" and b: "block_rel (meta_of b) Map.empty b" "block_at p b"
    and nx: "kb_next b = kh_first heap" and apart: "\<And>q. q \<in> set bl \<Longrightarrow> block_bytes m q \<inter> {unat p..<unat p + unat (kb_block_size b)} = {}"
    and h: "kh_first heap' = p" "kh_total_free_sections heap' = kh_total_free_sections heap + kb_free_sections b"
  shows "heap_rel (p # bl) (H(p := Map.empty)) heap' (m(p \<mapsto> b))"
proof -
  note r = rel [unfolded heap_rel_def]
  have bytes: "block_bytes (m(p \<mapsto> b)) q = (if q = p then {unat p..<unat p + unat (kb_block_size b)} else block_bytes m q)" for q
    by (simp add: block_bytes_def)
  have free: "map (block_free (m(p \<mapsto> b))) bl = map (block_free m) bl"
    using new by (auto simp: block_free_def)
  have "chain (m(p \<mapsto> b)) (kh_first heap') (p # bl)"
    using h(1) b(2) chain_other [of m "kb_next b" bl p b] nx r new by (simp add: block_at_def)
  moreover have "\<forall>q\<in>set (p # bl). \<forall>c. (m(p \<mapsto> b)) q = Some c \<longrightarrow>
      block_rel (meta_of c) ((H(p := Map.empty)) q) c \<and> block_at q c"
    using r b new by auto
  moreover have "\<forall>q\<in>set (p # bl). \<forall>q'\<in>set (p # bl). q \<noteq> q' \<longrightarrow>
      block_bytes (m(p \<mapsto> b)) q \<inter> block_bytes (m(p \<mapsto> b)) q' = {}"
    unfolding bytes using r new apart by (auto simp: Int_commute)
  moreover have "kh_total_free_sections heap' = sum_list (map (block_free (m(p \<mapsto> b))) (p # bl))"
    using h(2) r by (simp only: list.map sum_list.Cons free) (simp add: block_free_def)
  ultimately show ?thesis
    unfolding heap_rel_def using r new by simp
qed

text \<open>The block that an expansion adds: empty, with more than a megabyte of free sections.\<close>

definition fresh_block :: "kheap_block \<Rightarrow> bool" where
  "fresh_block b \<longleftrightarrow> kb_block_size b = 0x105000 \<and> kb_section_size b = 0x10 \<and> kb_first_free_section b = 1047 \<and>
     meta_of b = 1047 \<and> sections b = 66816 \<and> used_secs b = {..<1047}"

lemma block_nonempty:
  assumes "heap_rel bl H heap m" and "p \<in> set bl" and "m p = Some c"
  shows "unat p \<in> block_bytes m p"
proof -
  note at = heap_relD(3) [OF assms]
  have "0 < sections c" "0 < unat (kb_section_size c)"
    using block_relD(5) [OF heap_relD(2) [OF assms]] at by (simp_all add: block_at_def word_le_nat_alt)
  then have "0 < sections c * unat (kb_section_size c)"
    by simp
  also have "\<dots> = unat (kb_block_size c)"
    using at by (simp add: block_at_def)
  finally show ?thesis
    using assms(3) by (simp add: block_bytes_def)
qed

text \<open>The pages of the new block.\<close>

lemma run_pages:
  assumes "page_aligned a" and "x \<in> {unat a..<unat a + n * 4096}"
  shows "x div 4096 \<in> {unat a div 4096..<unat a div 4096 + n}"
proof -
  have "a mod 0x1000 = 0"
    using assms(1) by (simp add: page_aligned_def PAGE_SIZE_def)
  then have "unat a mod 4096 = 0"
    using unat_mod [of a "0x1000"] by simp
  then have "unat a div 4096 * 4096 = unat a"
    by (simp add: mod_eq_0_iff_dvd)
  then show ?thesis
    using assms(2) by (simp add: div_le_mono) (simp add: div_less_iff_less_mult)
qed

lemma run_mapped:
  assumes "unat a + n * 4096 < 0x40000000" and "pages_mapped (page_no a) n m m'"
    and "x div 4096 \<in> {unat a div 4096..<unat a div 4096 + n}"
  shows "m' (of_nat (x div 4096)) \<noteq> None"
proof -
  let ?j = "x div 4096 - unat a div 4096"
  have j: "?j < n" "x div 4096 = unat a div 4096 + ?j"
    using assms(3) by auto
  have "unat (page_no a ?j) = x div 4096"
    using unat_page_no [of a n ?j] assms(1) j by simp
  from arg_cong [OF this, of of_nat] have "page_no a ?j = of_nat (x div 4096)"
    by (rule trans [rotated]) simp
  then show ?thesis
    using assms(2) j(1) by (force simp: pages_mapped_def)
qed

text \<open>The run that the address space allocator found shares no byte with a block of the heap.\<close>

lemma expand_run_apart:
  assumes inv: "heap_inv bl H heap s" and found: "asa_found (kasa_data s) 261 (a, ka)"
  shows "q \<in> set bl \<Longrightarrow> block_bytes (kheap_blocks s) q \<inter> {unat a..<unat a + 0x105000} = {}" and "a \<notin> set bl"
proof -
  have env: "heap_env s" and rel: "heap_rel bl H heap (kheap_blocks s)" and bkd: "heap_backed bl s"
    using inv by (simp_all add: heap_inv_def)
  have n: "(261 :: u32) \<noteq> 0" "unat (261 :: u32) = 261"
    by simp_all
  note r = asa_run_mappable [OF env found n(1), unfolded n(2)]
  have ap: "block_bytes (kheap_blocks s) q \<inter> {unat a..<unat a + 0x105000} = {}" if q: "q \<in> set bl" for q
  proof -
    have "x \<notin> {unat a..<unat a + 0x105000}" if "x \<in> block_bytes (kheap_blocks s) q" for x
      using bkd q that run_pages [OF r(3), of x 261] r(8) unfolding heap_backed_def by auto
    then show ?thesis
      by blast
  qed
  then show "q \<in> set bl \<Longrightarrow> block_bytes (kheap_blocks s) q \<inter> {unat a..<unat a + 0x105000} = {}" .
  show "a \<notin> set bl"
  proof
    assume "a \<in> set bl"
    then have "unat a \<in> block_bytes (kheap_blocks s) a"
      using heap_relD(1) [OF rel] block_nonempty [OF rel] by blast
    then show False
      using ap [OF \<open>a \<in> set bl\<close>] by auto
  qed
qed

lemma kheap_expand_adds:
  fixes s :: "'a heap_state_scheme"
  assumes inv: "heap_inv bl H heap s" and ss: "kh_default_section_size heap = SECTION_SIZE_DEFAULT"
    and found: "asa_found (kasa_data s) 261 (a, ka)"
    and t: "paging_inv t" "paging_rest t = paging_rest (s\<lparr>kasa_data := ka\<rparr>)"
    and pm: "pages_mapped (page_no a) 261 (mapping s) (mapping t)"
  shows "\<exists>heap' b. kheap_add_block heap a 0x105000 (kh_default_section_size heap) t = Inr (heap', block_write a b t) \<and>
           a \<notin> set bl \<and> heap_inv (a # bl) (H(a := Map.empty)) heap' (block_write a b t) \<and> fresh_block b \<and>
           kh_first heap' = a \<and> kh_default_section_size heap' = kh_default_section_size heap \<and>
           kh_min_block_size heap' = kh_min_block_size heap"
proof -
  have env: "heap_env s" and rel: "heap_rel bl H heap (kheap_blocks s)" and bkd: "heap_backed bl s"
    using inv by (simp_all add: heap_inv_def)
  have n: "(261 :: u32) \<noteq> 0" "unat (261 :: u32) = 261"
    by simp_all
  note r = asa_run_mappable [OF env found n(1), unfolded n(2)]
  have mt: "mapping t p = mapping s p" if "p \<notin> page_no a ` {..<261}" for p
    using pm that by (simp add: pages_mapped_def)
  have em: "heap_env t" "heap_backed bl t" "kheap_blocks t = kheap_blocks s"
    using heap_env_mapped [where k = 261, OF env found n(1) t, unfolded n(2)] mt bkd by blast+
  have a0: "a mod 0x1000 = 0"
    using r(3) by (simp add: page_aligned_def PAGE_SIZE_def)
  obtain b where b: "kheap_add_block heap a 0x105000 0x10 t =
      Inr (heap\<lparr>kh_first := a, kh_total_free_sections := kh_total_free_sections heap + kb_free_sections b,
                kh_effective_size := kh_effective_size heap + (0x105000 - sizeof_kheap_block + DIV_ROUND_UP 0x105000 (0x10 * 32) * 4 * 2)\<rparr>,
           block_write a b t)"
    "block_rel 1047 Map.empty b" "block_at a b" "kb_next b = kh_first heap" "kb_block_size b = 0x105000"
    "kb_section_size b = 0x10" "unat (kb_first_free_section b) = 1047" "used_secs b = {..<1047}"
    using kheap_add_block_ok [of a "0x105000" "0x10" heap t] r(1,2) a0 meta_default by auto
  have "kb_first_free_section b = 1047"
    using b(7) by (simp add: word_unat_eq_iff)
  then have fb: "fresh_block b"
    using b(3,5,6,8) by (simp add: fresh_block_def meta_of_def meta_default block_at_def)
  let ?run = "{unat a..<unat a + unat (kb_block_size b)}"
  have run: "x div 4096 \<in> {unat a div 4096..<unat a div 4096 + 261}" if "x \<in> ?run" for x
    using run_pages [OF r(3), of x 261] that b(5) by simp
  have ap: "block_bytes (kheap_blocks s) q \<inter> ?run = {}" if "q \<in> set bl" for q
    using expand_run_apart(1) [OF inv found that] b(5) by simp
  note new = expand_run_apart(2) [OF inv found]
  let ?h = "heap\<lparr>kh_first := a, kh_total_free_sections := kh_total_free_sections heap + kb_free_sections b,
                kh_effective_size := kh_effective_size heap + (0x105000 - sizeof_kheap_block + DIV_ROUND_UP 0x105000 (0x10 * 32) * 4 * 2)\<rparr>"
  have "heap_rel (a # bl) (H(a := Map.empty)) ?h ((kheap_blocks s)(a \<mapsto> b))"
    using b(2,4) fb ap by (intro heap_rel_add [OF rel new _ b(3)]) (simp_all add: fresh_block_def)
  moreover have "heap_env (block_write a b t)"
    using em(1) unfolding heap_env_def block_write_def by simp
  moreover have "heap_backed (a # bl) (block_write a b t)"
  proof -
    have "x div 4096 \<in> asa_used (kasa_data t) \<and> mapping t (of_nat (x div 4096)) \<noteq> None" if "x \<in> ?run" for x
      using run [OF that] run_mapped [OF r(1) pm, of x] paging_restD(2) [OF t(2)] by (simp add: r(7))
    moreover have "block_bytes ((kheap_blocks s)(a \<mapsto> b)) q = (if q = a then ?run else block_bytes (kheap_blocks s) q)" for q
      by (simp add: block_bytes_def)
    ultimately show ?thesis
      using em(2) em(3) new unfolding heap_backed_def block_write_def by auto
  qed
  ultimately show ?thesis
    using b(1) ss new fb em(3) by (auto simp: SECTION_SIZE_DEFAULT_def heap_inv_def block_write_def)
qed

text \<open>
  Too little is left for a block of 261 pages: each page takes a frame and at most one more for its
  table, and the pages have to be in a row.
\<close>

definition starved :: "'a heap_state_scheme \<Rightarrow> bool" where
  "starved s \<longleftrightarrow> spare_frames s < 522 \<or> (\<forall>f. \<not> free_run (kasa_data s) 261 f)"

lemma spare_frames_more [simp]: "spare_frames (s\<lparr>kasa_data := ka\<rparr>) = spare_frames s"
  by (simp add: spare_frames_def free_frames_def frame_limit_def used_frames_def)

lemma dynamic_page_more [simp]: "dynamic_page (s\<lparr>kasa_data := ka\<rparr>) a = dynamic_page s a"
  by (simp add: dynamic_page_def)

text \<open>When a page cannot be mapped, those before it are unmapped and the heap is as it was.\<close>

lemma expand_rolls_back:
  fixes s :: "'a heap_state_scheme"
  assumes inv: "heap_inv bl H heap s" and found: "asa_found (kasa_data s) 261 (a, ka)" and i: "unat i < 261"
    and t: "paging_inv t" "paging_rest t = paging_rest (s\<lparr>kasa_data := ka\<rparr>)"
    and pm: "pages_mapped (page_no a) (unat i) (mapping s) (mapping t)"
  shows "\<exists>t'. asa_free a 261 (kasa_data t) = Inr (K_SUCCESS, ka) \<and>
     unmap_pages (i386_paging_interface kd) a PAGE_SIZE (unat i) (t\<lparr>kasa_data := ka\<rparr>) = Inr t' \<and>
     heap_inv bl H heap t' \<and> kheap_blocks t' = kheap_blocks s"
proof -
  have env: "heap_env s" and rel: "heap_rel bl H heap (kheap_blocks s)" and bkd: "heap_backed bl s"
    using inv by (simp_all add: heap_inv_def)
  have n: "(261 :: u32) \<noteq> 0" "unat (261 :: u32) = 261"
    by simp_all
  note r = asa_run_mappable [OF env found n(1), unfolded n(2)]
  have kt: "kasa_data t = ka"
    using paging_restD(2) [OF t(2)] by simp
  have "\<not> a div PAGE_SIZE < 261"
    using r(4) by (simp add: word_less_nat_alt unat_div) (simp add: PAGE_SIZE_def)
  then have fr: "asa_free a 261 (kasa_data t) = Inr (K_SUCCESS, ka)"
    using r(10) by (simp add: asa_free_def kt PAGE_SIZE_def)
  have same: "t\<lparr>kasa_data := ka\<rparr> = t"
    using kt by simp
  have "dynamic_page (paging_rest t) (a + of_nat j * PAGE_SIZE)" "\<exists>f. mapping t (page_no a j) = Some f" if "j < unat i" for j
    using r(5) [of j] that i pm by (simp_all add: t(2) pages_mapped_def) auto
  then obtain t' where t': "unmap_pages (i386_paging_interface kd) a PAGE_SIZE (unat i) t = Inr t'" "paging_inv t'"
    "paging_rest t' = paging_rest t" "mapping t' = (\<lambda>p. if p \<in> page_no a ` {..<unat i} then None else mapping t p)"
    using i386.unmap_pages_ok [of t "i386_paging_interface kd" a "unat i"] t(1) r(1) i by (auto simp: i386_paging_interface_def)
  have "mapping t' p = mapping s p" for p
    using pm r(6) i by (auto simp: t'(4) pages_mapped_def)
  then have "heap_env t'" "heap_backed bl t'" "kheap_blocks t' = kheap_blocks s"
    using heap_env_mapped [where k = 0, OF env found n(1) t'(2)] t'(3) t(2) bkd by simp_all
  then show ?thesis
    using fr t'(1) same rel by (simp add: heap_inv_def)
qed

text \<open>What is left of an expansion once a run of the address space has been found.\<close>

lemma kheap_expand_run:
  assumes env: "heap_env s" and found: "asa_alloc 261 (kasa_data s) = Inr (a, ka)" "a \<noteq> 0"
  shows "kheap_expand iface heap 0x100000 s = bindr (map_pages iface a PAGE_SIZE 261 (s\<lparr>kasa_data := ka\<rparr>)) (\<lambda>c. case c of
         Ret (i, s) \<Rightarrow> bindr (asa_free a 261 (kasa_data s)) (\<lambda>(_, ka).
           bindr (unmap_pages iface a PAGE_SIZE (unat i) (s\<lparr>kasa_data := ka\<rparr>)) (\<lambda>s. Inr ((K_OOM, heap), s)))
       | Next s \<Rightarrow> bindr (kheap_add_block heap a 0x105000 (kh_default_section_size heap) s)
           (\<lambda>(heap, s). Inr ((K_SUCCESS, heap), s)))"
proof -
  have "div_round_up 0x100000 PAGE_SIZE = Inr 256" "261 * PAGE_SIZE = (0x105000 :: u32)"
    by (simp_all add: div_round_up_def PAGE_SIZE_def)
  then show ?thesis
    using heap_envD(2) [OF env] expand_pages_default found by (simp add: kheap_expand_def Let_def)
qed

lemma kheap_expand_ok:
  assumes inv: "heap_inv bl H heap s" and ss: "kh_default_section_size heap = SECTION_SIZE_DEFAULT"
  shows "(\<exists>a b heap' s'. kheap_expand (i386_paging_interface kd) heap 0x100000 s = Inr ((K_SUCCESS, heap'), s') \<and>
            a \<notin> set bl \<and> heap_inv (a # bl) (H(a := Map.empty)) heap' s' \<and> kheap_blocks s' a = Some b \<and> fresh_block b \<and>
            (\<forall>q\<in>set bl. kheap_blocks s' q = kheap_blocks s q) \<and>
            kh_first heap' = a \<and> kh_default_section_size heap' = kh_default_section_size heap \<and>
            kh_min_block_size heap' = kh_min_block_size heap) \<or>
         (\<exists>s'. kheap_expand (i386_paging_interface kd) heap 0x100000 s = Inr ((K_OOM, heap), s') \<and> starved s \<and>
            heap_inv bl H heap s' \<and> kheap_blocks s' = kheap_blocks s)"
proof -
  let ?if = "i386_paging_interface kd"
  have env: "heap_env s"
    using inv by (simp add: heap_inv_def)
  note e = heap_envD [OF env]
  have pages: "div_round_up 0x100000 PAGE_SIZE = Inr 256" "261 * PAGE_SIZE = (0x105000 :: u32)"
    by (simp_all add: div_round_up_def PAGE_SIZE_def)
  have n: "(261 :: u32) \<noteq> 0" "unat (261 :: u32) = 261"
    by simp_all
  consider (full) "asa_alloc 261 (kasa_data s) = Inr (0, kasa_data s)" "\<forall>f. \<not> free_run (kasa_data s) 261 f"
    | (found) a ka where "asa_alloc 261 (kasa_data s) = Inr (a, ka)" "asa_found (kasa_data s) 261 (a, ka)"
    using asa_alloc_ok [OF e(3) n(1)] unfolding n(2) by (metis prod.collapse)
  then show ?thesis
  proof cases
    case full
    then have "kheap_expand ?if heap 0x100000 s = Inr ((K_OOM, heap), s)"
      using e(2) pages expand_pages_default by (simp add: kheap_expand_def Let_def)
    then show ?thesis
      using inv full(2) by (auto simp: starved_def)
  next
    case found
    note r = asa_run_mappable [OF env found(2) n(1), unfolded n(2)]
    let ?s = "s\<lparr>kasa_data := ka\<rparr>"
    note unfold = kheap_expand_run [OF env found(1) r(2), of ?if heap]
    have dyn: "dynamic_page (paging_rest ?s) (a + of_nat j * PAGE_SIZE)" "mapping ?s (page_no a j) = None" if "j < 261" for j
      using r(5,6) [OF that] by simp_all
    then consider
        (all) t where "map_pages ?if a PAGE_SIZE 261 ?s = Inr (Next t)" "paging_inv t" "paging_rest t = paging_rest ?s"
          "pages_mapped (page_no a) 261 (mapping s) (mapping t)"
      | (some) i t where "map_pages ?if a PAGE_SIZE 261 ?s = Inr (Ret (i, t))" "i < 261" "paging_inv t"
          "paging_rest t = paging_rest ?s" "pages_mapped (page_no a) (unat i) (mapping s) (mapping t)" "spare_frames s < 522"
      using i386.map_pages_ok [of ?s ?if kd a 261, unfolded n(2)] e(1) r(1)
      by (auto simp: i386_paging_interface_def page_flags_def KPAGE_PRESENT_def KPAGE_RW_def frame_base_def)
    then show ?thesis
    proof cases
      case all
      obtain heap' b where b: "kheap_add_block heap a 0x105000 (kh_default_section_size heap) t = Inr (heap', block_write a b t)"
        "a \<notin> set bl" "heap_inv (a # bl) (H(a := Map.empty)) heap' (block_write a b t)" "fresh_block b"
        "kh_first heap' = a" "kh_default_section_size heap' = kh_default_section_size heap"
        "kh_min_block_size heap' = kh_min_block_size heap"
        using kheap_expand_adds [OF inv ss found(2) all(2,3,4)] by blast
      have "kheap_expand ?if heap 0x100000 s = Inr ((K_SUCCESS, heap'), block_write a b t)"
        using unfold all(1) b(1) by simp
      moreover have "kheap_blocks (block_write a b t) = (kheap_blocks s)(a \<mapsto> b)"
        using paging_restD(3) [OF all(3)] by (simp add: block_write_def)
      ultimately show ?thesis
        using b(2-7) by (intro disjI1 exI [of _ a] exI [of _ b]) auto
    next
      case some
      then obtain t' where "kheap_expand ?if heap 0x100000 s = Inr ((K_OOM, heap), t')" "heap_inv bl H heap t'" "kheap_blocks t' = kheap_blocks s"
        using expand_rolls_back [OF inv found(2) _ some(3-5), of kd] unfold by (auto simp: word_less_nat_alt)
      then show ?thesis
        using some(6) by (auto simp: starved_def)
    qed
  qed
qed

end
