(* ===== verification/Kheap_Malloc.thy ===== *)
theory Kheap_Malloc
  imports Kheap_Expand
begin

text \<open>
  Allocation from the kernel heap: every request up to a megabyte comes back, with memory that is
  mapped and that no other allocation uses, or with \<open>K_OOM\<close>; releasing it restores the heap.
\<close>

section \<open>Allocation\<close>

text \<open>A block that an expansion has just added serves every request up to a megabyte.\<close>

lemma fresh_serves:
  assumes fb: "fresh_block b" and br: "block_rel (meta_of b) Map.empty b" and sz: "0 < sz" "sz \<le> 0x100000"
  shows "\<not> refuses b sz"
proof -
  note rs = block_relD [OF br]
  have m: "meta_of b = 1047" "sections b = 66816" "kb_section_size b = 0x10" "kb_block_size b = 0x105000"
    "kb_first_free_section b = 1047"
    using fb by (simp_all add: fresh_block_def)
  have L: "bs_length (kb_used_sections b) = 66816" "bs_length (kb_delimiters b) = 66816"
    using m(2) rs(4) by (simp_all add: word_unat_eq_iff)
  have used: "used_secs b = {..<1047}"
    using fb by (simp add: fresh_block_def)
  then have "unat (kb_free_sections b) = 65769"
    using rs(13) m(2) by simp
  moreover have n: "unat (DIV_ROUND_UP sz 0x10) \<le> 65536"
  proof -
    have "unat (DIV_ROUND_UP sz 0x10) * 16 < unat sz + 16"
      using DIV_ROUND_UP_ceiling(2) [OF sz(1), of "0x10"] by simp
    then show ?thesis
      using sz(2) by (simp add: word_le_nat_alt)
  qed
  ultimately have "DIV_ROUND_UP sz 0x10 \<le> kb_free_sections b"
    by (simp add: word_le_nat_alt)
  moreover have "sz \<le> 1052312"
    using sz(2) by (simp add: word_le_nat_alt)
  moreover have "sec_run b (unat (DIV_ROUND_UP sz 0x10)) 1047" "scan_from b = 1047"
    using n m(2,5) by (auto simp: sec_run_def scan_from_def used)
  ultimately show ?thesis
    unfolding refuses_def m L by (auto simp: not_less sizeof_kheap_block_def)
qed

text \<open>
  What a successful request gives: \<open>n\<close> free sections from \<open>f\<close> on of a block of the map \<open>m\<close> that the heap had, now
  marked used and an allocation. Nothing else changes in the blocks.
\<close>

definition granted ::
  "uintptr_t list \<Rightarrow> (uintptr_t \<Rightarrow> allocs) \<Rightarrow> size_t \<Rightarrow> size_t \<Rightarrow> bool \<Rightarrow> uintptr_t \<Rightarrow> (uintptr_t \<rightharpoonup> kheap_block) \<Rightarrow>
     kheap \<Rightarrow> 'a heap_state_scheme \<Rightarrow> bool" where
  "granted bl H sz align manual_align out m heap' s' \<longleftrightarrow>
     (\<exists>p c b f n. p \<in> set bl \<and> m p = Some c \<and> kheap_blocks s' = m(p \<mapsto> b) \<and> header b = header c \<and>
        sec_run c n f \<and> used_secs b = used_secs c \<union> {f..<f + n} \<and> H p f = None \<and>
        heap_inv bl (H(p := (H p)(f \<mapsto> n))) heap' s' \<and>
        (if manual_align then unat align dvd unat out \<and> placed p b f n out (unat sz - unat align)
         else unat out = unat p + f * unat (kb_section_size b) \<and> placed p b f n out (unat sz)))"

lemma grantedE:
  assumes "granted bl H sz align ma out m heap' s'"
  obtains p c b f n where "p \<in> set bl" and "m p = Some c" and "kheap_blocks s' = m(p \<mapsto> b)" and "header b = header c"
    and "sec_run c n f" and "used_secs b = used_secs c \<union> {f..<f + n}" and "H p f = None"
    and "heap_inv bl (H(p := (H p)(f \<mapsto> n))) heap' s'"
    and "placed p b f n out (if ma then unat sz - unat align else unat sz)"
    and "if ma then unat align dvd unat out else unat out = unat p + f * unat (kb_section_size b)"
  using assms unfolding granted_def by (auto split: if_splits)

lemma heap_inv_try:
  assumes inv: "heap_inv bl H heap s" and p: "p \<in> set bl" "kheap_blocks s p = Some b" and h: "header b' = header b"
    and sv: "served bl H sz align ma out heap' (kheap_blocks s) ((kheap_blocks s)(p \<mapsto> b'))"
  shows "granted bl H sz align ma out (kheap_blocks s) heap' (block_write p b' s)"
proof -
  obtain q c c' f where q: "q \<in> set bl" "kheap_blocks s q = Some c"
    "sec_run c (unat (DIV_ROUND_UP sz (kb_section_size c))) f"
    "heap_rel bl (H(q := (H q)(f \<mapsto> unat (DIV_ROUND_UP sz (kb_section_size c))))) heap' ((kheap_blocks s)(p \<mapsto> b'))"
    "if ma then unat align dvd unat out \<and> placed q c f (unat (DIV_ROUND_UP sz (kb_section_size c))) out (unat sz - unat align)
     else unat out = unat q + f * unat (kb_section_size c) \<and> placed q c f (unat (DIV_ROUND_UP sz (kb_section_size c))) out (unat sz)"
    and c': "(kheap_blocks s)(p \<mapsto> b') = (kheap_blocks s)(q \<mapsto> c')" "header c' = header c"
      "used_secs c' = used_secs c \<union> {f..<f + unat (DIV_ROUND_UP sz (kb_section_size c))}"
    using sv unfolding served_def Let_def by blast
  let ?n = "unat (DIV_ROUND_UP sz (kb_section_size c))"
  have at_q: "((kheap_blocks s)(p \<mapsto> b')) q = Some c'"
    by (simp add: c'(1))
  have rel: "heap_rel bl H heap (kheap_blocks s)"
    using inv by (simp add: heap_inv_def)
  note rs = block_relD [OF heap_relD(2) [OF rel q(1,2)]]
  have "0 < ?n"
    using block_relD(9) [OF heap_relD(2) [OF q(4,1) at_q], of f ?n] by simp
  then have "f \<in> {f..<f + ?n}"
    by simp
  then have free: "f \<notin> used_secs c"
    using q(3) unfolding sec_run_def by blast
  have none: "H q f = None"
  proof (rule ccontr)
    assume "H q f \<noteq> None"
    then obtain k where k: "H q f = Some k"
      by blast
    then have "f \<in> taken (H q)"
      using alloc_taken [of "H q" f k, OF k] rs(9) [OF k] by fastforce
    then show False
      using rs(11) free by blast
  qed
  have "block_bytes ((kheap_blocks s)(p \<mapsto> b')) x = block_bytes (kheap_blocks s) x" for x
    using h p(2) by (intro block_bytes_write [of _ _ b]) (simp_all add: header_def)
  then have "heap_backed bl (block_write p b' s)" "heap_env (block_write p b' s)"
    using inv by (simp_all add: heap_inv_def heap_backed_def heap_env_def block_write_def)
  then have "heap_inv bl (H(q := (H q)(f \<mapsto> ?n))) heap' (block_write p b' s)"
    using q(4) by (simp add: heap_inv_def block_write_def)
  moreover have "kheap_blocks (block_write p b' s) = (kheap_blocks s)(q \<mapsto> c')"
    using c'(1) by (simp add: block_write_def)
  moreover have "if ma then unat align dvd unat out \<and> placed q c' f ?n out (unat sz - unat align)
     else unat out = unat q + f * unat (kb_section_size c') \<and> placed q c' f ?n out (unat sz)"
    using q(5) c'(2) by (auto simp: placed_def header_def split: if_splits)
  ultimately show ?thesis
    unfolding granted_def using q(1-3) c'(2,3) none by blast
qed

text \<open>A request keeps the configuration of the heap.\<close>

definition heap_kept :: "kheap \<Rightarrow> kheap \<Rightarrow> bool" where
  "heap_kept heap heap' \<longleftrightarrow> kh_default_section_size heap' = kh_default_section_size heap \<and>
     kh_min_block_size heap' = kh_min_block_size heap"

text \<open>
  The outcomes of a request: served from the blocks there are, served after an expansion that added a
  block at \<open>a\<close>, or out of memory.
\<close>

definition malloc_outcome ::
  "uintptr_t list \<Rightarrow> (uintptr_t \<Rightarrow> allocs) \<Rightarrow> size_t \<Rightarrow> size_t \<Rightarrow> bool \<Rightarrow> kheap \<Rightarrow> 'a heap_state_scheme \<Rightarrow>
     (((k_return_t \<times> uintptr_t option) \<times> kheap) \<times> 'a heap_state_scheme) res \<Rightarrow> bool" where
  "malloc_outcome bl H sz align manual_align heap s r \<longleftrightarrow>
     (\<exists>out heap' s'. r = Inr (((K_SUCCESS, Some out), heap'), s') \<and> heap_kept heap heap' \<and>
        granted bl H sz align manual_align out (kheap_blocks s) heap' s') \<or>
     (\<exists>a m out heap' s'. r = Inr (((K_SUCCESS, Some out), heap'), s') \<and> heap_kept heap heap' \<and> a \<notin> set bl \<and>
        (\<forall>q\<in>set bl. m q = kheap_blocks s q) \<and>
        granted (a # bl) (H(a := Map.empty)) sz align manual_align out m heap' s') \<or>
     (\<exists>heap' s'. r = Inr (((K_OOM, None), heap'), s') \<and> starved s \<and> heap_inv bl H heap' s' \<and> heap_kept heap heap' \<and>
        kheap_blocks s' = kheap_blocks s)"

text \<open>The configuration that \<open>kheap_kalloc_install\<close> sets up.\<close>

definition default_heap :: "kheap \<Rightarrow> bool" where
  "default_heap heap \<longleftrightarrow> kh_default_section_size heap = SECTION_SIZE_DEFAULT \<and>
     kh_min_block_size heap = MIN_BLOCK_SIZE_DEFAULT"

lemma malloc_after_expand:
  assumes inv: "heap_inv bl H heap s" and df: "default_heap heap" and sz: "0 < sz" "sz \<le> 0x100000"
    and al: "ma \<longrightarrow> align \<noteq> 0 \<and> align \<le> sz"
  shows "\<exists>r. (case kheap_expand (i386_paging_interface kd) heap (MAX_uint (kh_min_block_size heap) sz) s of
                Inl e \<Rightarrow> Some (Inl e)
              | Inr ((ret, heap), s) \<Rightarrow>
                  if K_FAILED ret then Some (Inr (((ret, None), heap), s))
                  else kheap_malloc_loop (i386_paging_interface kd) sz align ma (kh_first heap) heap s) = Some r \<and>
           malloc_outcome bl H sz align ma heap s r"
proof -
  let ?if = "i386_paging_interface kd"
  have mx: "MAX_uint (kh_min_block_size heap) sz = 0x100000"
    using df sz(2) by (auto simp: default_heap_def MIN_BLOCK_SIZE_DEFAULT_def MAX_uint_def max_impl_is_max max_def)
  have ss: "kh_default_section_size heap = SECTION_SIZE_DEFAULT"
    using df by (simp add: default_heap_def)
  from kheap_expand_ok [OF inv ss, of kd] show ?thesis
  proof (elim disjE exE conjE)
    fix a b heap1 s1
    assume x: "kheap_expand ?if heap 0x100000 s = Inr ((K_SUCCESS, heap1), s1)" and a: "a \<notin> set bl"
      and i1: "heap_inv (a # bl) (H(a := Map.empty)) heap1 s1" and b: "kheap_blocks s1 a = Some b" "fresh_block b"
      and h1: "kh_first heap1 = a" and old: "\<forall>q\<in>set bl. kheap_blocks s1 q = kheap_blocks s q"
      and k1: "kh_default_section_size heap1 = kh_default_section_size heap" "kh_min_block_size heap1 = kh_min_block_size heap"
    have rel: "heap_rel (a # bl) (H(a := Map.empty)) heap1 (kheap_blocks s1)"
      using i1 by (simp add: heap_inv_def)
    have br: "block_rel (meta_of b) Map.empty b" "a \<noteq> 0"
      using heap_relD(2,3) [OF rel _ b(1)] by (simp_all add: block_at_def)
    obtain out heap2 b2 where t: "kheap_try_block heap1 sz align ma a s1 = Inr ((Some out, heap2), block_write a b2 s1)"
      "served (a # bl) (H(a := Map.empty)) sz align ma out heap2 (kheap_blocks s1) ((kheap_blocks s1)(a \<mapsto> b2))"
      "header b2 = header b" "kh_default_section_size heap2 = kh_default_section_size heap1" "kh_min_block_size heap2 = kh_min_block_size heap1"
      using kheap_try_block_ok [OF rel _ b(1) sz(1) al] fresh_serves [OF b(2) br(1) sz] by auto
    have "kheap_malloc_loop ?if sz align ma a heap1 s1 = Some (Inr (((K_SUCCESS, Some out), heap2), block_write a b2 s1))"
      using t(1) br(2) by (subst kheap_malloc_loop.simps) simp
    moreover have "granted (a # bl) (H(a := Map.empty)) sz align ma out (kheap_blocks s1) heap2 (block_write a b2 s1)"
      using heap_inv_try [OF i1 _ b(1) t(3,2)] by simp
    moreover have "heap_kept heap heap2"
      using k1 t(4,5) by (simp add: heap_kept_def)
    ultimately show ?thesis
      using x a h1 old unfolding mx malloc_outcome_def by auto
  next
    fix s1
    assume "kheap_expand ?if heap 0x100000 s = Inr ((K_OOM, heap), s1)" "starved s" "heap_inv bl H heap s1"
      "kheap_blocks s1 = kheap_blocks s"
    then show ?thesis
      unfolding mx malloc_outcome_def heap_kept_def by simp
  qed
qed

lemma kheap_malloc_loop_ok:
  assumes inv: "heap_inv bl H heap s" and df: "default_heap heap" and sz: "0 < sz" "sz \<le> 0x100000"
    and al: "ma \<longrightarrow> align \<noteq> 0 \<and> align \<le> sz"
    and walk: "chain (kheap_blocks s) q qs" "set qs \<subseteq> set bl" "qs \<noteq> []"
  shows "\<exists>r. kheap_malloc_loop (i386_paging_interface kd) sz align ma q heap s = Some r \<and> malloc_outcome bl H sz align ma heap s r"
  using walk
proof (induction qs arbitrary: q)
  case (Cons x xs)
  let ?if = "i386_paging_interface kd"
  obtain c where c: "kheap_blocks s q = Some c" "x = q" "q \<noteq> 0" "chain (kheap_blocks s) (kb_next c) xs"
    using chain_ConsD [OF Cons.prems(1)] by blast
  have q: "q \<in> set bl"
    using Cons.prems(2) c(2) by simp
  have rel: "heap_rel bl H heap (kheap_blocks s)"
    using inv by (simp add: heap_inv_def)
  from kheap_try_block_ok [OF rel q c(1) sz(1) al] show ?case
  proof (elim disjE exE conjE)
    fix out heap' b'
    assume "kheap_try_block heap sz align ma q s = Inr ((Some out, heap'), block_write q b' s)"
      and "served bl H sz align ma out heap' (kheap_blocks s) ((kheap_blocks s)(q \<mapsto> b'))" and h: "header b' = header c"
      and k: "kh_default_section_size heap' = kh_default_section_size heap" "kh_min_block_size heap' = kh_min_block_size heap"
    moreover have "heap_kept heap heap'"
      using k by (simp add: heap_kept_def)
    ultimately show ?thesis
      using heap_inv_try [OF inv q c(1)] c(3) unfolding malloc_outcome_def
      by (subst kheap_malloc_loop.simps) auto
  next
    assume t: "kheap_try_block heap sz align ma q s = Inr ((None, heap), s)"
    show ?thesis
    proof (cases xs)
      case Nil
      then have "kb_next c = 0"
        using c(4) by simp
      then show ?thesis
        using t c(1,3) malloc_after_expand [OF inv df sz al, of kd]
        by (subst kheap_malloc_loop.simps) (simp add: block_read_def)
    next
      case (Cons y ys)
      then have "kb_next c \<noteq> 0"
        using chain_ConsD [of "kheap_blocks s" "kb_next c" y ys] c(4) by auto
      then show ?thesis
        using t c(1,3) Cons.IH [OF c(4)] Cons.prems(2) Cons
        by (subst kheap_malloc_loop.simps) (simp add: block_read_def)
    qed
  qed
qed simp

lemma kheap_malloc_ok:
  assumes inv: "heap_inv bl H heap s" and df: "default_heap heap" and sz: "0 < sz" "unat sz + unat align \<le> 0x100000"
  shows "\<exists>r. kheap_malloc (i386_paging_interface kd) heap sz align s = r \<and>
           (if align = 0 \<or> align = SECTION_SIZE_DEFAULT then malloc_outcome bl H sz align False heap s r
            else malloc_outcome bl H (sz + align) align True heap s r)"
proof -
  define ma where "ma = (align > 0 \<and> kh_default_section_size heap \<noteq> align)"
  define sz' where "sz' = (if ma then sz + align else sz)"
  have sum: "unat (sz + align) = unat sz + unat align"
    using sz(2) by (intro unat_add_no_wrap) linarith
  have sz0: "0 < unat sz"
    using sz(1) by (simp add: word_gt_0 unat_gt_0)
  have sz': "0 < sz'" "sz' \<le> 0x100000" and al: "ma \<longrightarrow> align \<noteq> 0 \<and> align \<le> sz'"
    using sz sz0 sum by (auto simp: sz'_def ma_def word_le_nat_alt word_less_nat_alt)
  have rel: "heap_rel bl H heap (kheap_blocks s)"
    using inv by (simp add: heap_inv_def)
  then have ch: "chain (kheap_blocks s) (kh_first heap) bl"
    by (simp add: heap_rel_def)
  let ?if = "i386_paging_interface kd"
  have "malloc_outcome bl H sz' align ma heap s (kheap_malloc ?if heap sz align s)"
  proof (cases bl)
    case Nil
    then have "kh_first heap = 0"
      using ch by simp
    then have "kheap_malloc ?if heap sz align s =
        bindr (kheap_expand ?if heap (MAX_uint (kh_min_block_size heap) sz') s) (\<lambda>((ret, heap), s).
              if K_FAILED ret then Inr (((ret, None), heap), s)
              else or_diverge (kheap_malloc_loop ?if sz' align ma (kh_first heap) heap s))"
      unfolding kheap_malloc_def Let_def ma_def [symmetric] sz'_def [symmetric] by simp
    then show ?thesis
      using malloc_after_expand [OF inv df sz' al, of kd]
      by (auto simp: bindr_def split: sum.splits prod.splits if_splits)
  next
    case (Cons p ps)
    then have "kh_first heap \<noteq> 0"
      using chain_ConsD [of _ _ p ps] ch by auto
    then have "kheap_malloc ?if heap sz align s = or_diverge (kheap_malloc_loop ?if sz' align ma (kh_first heap) heap s)"
      unfolding kheap_malloc_def Let_def ma_def [symmetric] sz'_def [symmetric] by simp
    then show ?thesis
      using kheap_malloc_loop_ok [OF inv df sz' al ch order_refl, of kd] Cons by auto
  qed
  moreover have "ma \<longleftrightarrow> \<not> (align = 0 \<or> align = SECTION_SIZE_DEFAULT)"
    using df by (auto simp: ma_def default_heap_def word_gt_0)
  ultimately show ?thesis
    by (auto simp: sz'_def)
qed

section \<open>Safety of allocation\<close>

text \<open>The bytes of the live allocations.\<close>

definition live_bytes :: "uintptr_t list \<Rightarrow> (uintptr_t \<Rightarrow> allocs) \<Rightarrow> (uintptr_t \<rightharpoonup> kheap_block) \<Rightarrow> nat set" where
  "live_bytes bl H m = {x. \<exists>p\<in>set bl. \<exists>b f n. m p = Some b \<and> H p f = Some n \<and>
     unat p + f * unat (kb_section_size b) \<le> x \<and> x < unat p + (f + n) * unat (kb_section_size b)}"

lemma live_in_block:
  assumes rel: "heap_rel bl H heap m" and p: "p \<in> set bl" "m p = Some b" "H p f = Some n"
    and x: "unat p + f * unat (kb_section_size b) \<le> x" "x < unat p + (f + n) * unat (kb_section_size b)"
  shows "x \<in> block_bytes m p"
proof -
  note rs = block_relD [OF heap_relD(2) [OF rel p(1,2)]]
  have "(f + n) * unat (kb_section_size b) \<le> sections b * unat (kb_section_size b)"
    using rs(9) [OF p(3)] by (intro mult_le_mono1) simp
  also have "\<dots> = unat (kb_block_size b)"
    using heap_relD(3) [OF rel p(1,2)] by (simp add: block_at_def)
  finally show ?thesis
    using p(2) x by (simp add: block_bytes_def)
qed

text \<open>Two allocations that both exist do not share a byte.\<close>

lemma live_apart:
  assumes rel: "heap_rel bl H heap m" and p: "p \<in> set bl" "m p = Some b" "H p f = Some n"
    and x: "unat p + f * unat (kb_section_size b) \<le> x" "x < unat p + (f + n) * unat (kb_section_size b)"
    and q: "q \<in> set bl" "m q = Some c" "H q g = Some k"
    and y: "unat q + g * unat (kb_section_size c) \<le> x" "x < unat q + (g + k) * unat (kb_section_size c)"
  shows "p = q \<and> f = g"
proof -
  have pq: "p = q"
    using heap_rel_apart [OF rel p(1) q(1)] live_in_block [OF rel p x] live_in_block [OF rel q y] by blast
  then have bc: "b = c"
    using p(2) q(2) by simp
  let ?s = "unat (kb_section_size b)"
  have "f * ?s < (g + k) * ?s" "g * ?s < (f + n) * ?s"
    using x y unfolding pq bc by linarith+
  then have "f < g + k" "g < f + n"
    by (simp_all only: mult_less_cancel2)
  moreover have "f < g \<Longrightarrow> f + n \<le> g" "g < f \<Longrightarrow> g + k \<le> f"
    using block_relD(10) [OF heap_relD(2) [OF rel p(1,2)]] p(3) q(3) pq unfolding apart_def by blast+
  ultimately show ?thesis
    using pq by (metis linorder_neqE_nat not_le)
qed

lemma granted_safe:
  assumes g: "granted bl H sz align ma out m heap' s'" and len: "len = (if ma then unat sz - unat align else unat sz)"
    and x: "unat out \<le> x" "x < unat out + len"
  shows "mapping s' (of_nat (x div 4096)) \<noteq> None" and "x \<notin> live_bytes bl H (kheap_blocks s')"
proof -
  obtain p c b f n where p: "p \<in> set bl" "kheap_blocks s' = m(p \<mapsto> b)" "H p f = None"
    "heap_inv bl (H(p := (H p)(f \<mapsto> n))) heap' s'" "placed p b f n out len"
    using g unfolding len by (rule grantedE)
  then have b: "kheap_blocks s' p = Some b"
    by simp
  let ?H = "H(p := (H p)(f \<mapsto> n))"
  have rel: "heap_rel bl ?H heap' (kheap_blocks s')" and bkd: "heap_backed bl s'"
    using p(4) by (simp_all add: heap_inv_def)
  have x': "unat p + f * unat (kb_section_size b) \<le> x" "x < unat p + (f + n) * unat (kb_section_size b)"
    using p(5) x by (simp_all add: placed_def)
  have f: "?H p f = Some n"
    by simp
  show "mapping s' (of_nat (x div 4096)) \<noteq> None"
    using bkd p(1) live_in_block [OF rel p(1) b f x'] by (simp add: heap_backed_def)
  show "x \<notin> live_bytes bl H (kheap_blocks s')"
  proof
    assume "x \<in> live_bytes bl H (kheap_blocks s')"
    then obtain q c h k where q: "q \<in> set bl" "kheap_blocks s' q = Some c" "H q h = Some k"
      "unat q + h * unat (kb_section_size c) \<le> x" "x < unat q + (h + k) * unat (kb_section_size c)"
      unfolding live_bytes_def by blast
    have ne: "\<not> (p = q \<and> f = h)"
      using q(3) p(3) by auto
    then have "?H q h = Some k"
      using q(3) by auto
    from live_apart [OF rel p(1) b f x' q(1,2) this q(4,5)] ne show False
      by blast
  qed
qed

text \<open>Releasing what was granted gives back the map of allocations and the used sections.\<close>

lemma heap_inv_release:
  assumes inv: "heap_inv bl H heap s" and p: "p \<in> set bl" "kheap_blocks s p = Some b" and f: "H p f = Some n"
    and addr: "unat p + f * unat (kb_section_size b) \<le> unat addr" "unat addr < unat p + (f + n) * unat (kb_section_size b)"
  obtains heap' b' where "kheap_free heap addr s = Inr ((True, heap'), block_write p b' s)"
    and "heap_inv bl (H(p := (H p)(f := None))) heap' (block_write p b' s)" and "header b' = header b"
    and "used_secs b' = used_secs b - {(unat addr - unat p) div unat (kb_section_size b)..<f + n}"
    and "heap_kept heap heap'"
proof -
  have rel: "heap_rel bl H heap (kheap_blocks s)"
    using inv by (simp add: heap_inv_def)
  obtain heap' b' where r: "kheap_free heap addr s = Inr ((True, heap'), block_write p b' s)"
    "heap_rel bl (H(p := (H p)(f := None))) heap' ((kheap_blocks s)(p \<mapsto> b'))" "header b' = header b"
    "used_secs b' = used_secs b - {(unat addr - unat p) div unat (kb_section_size b)..<f + n}" "heap_kept heap heap'"
    using kheap_free_ok [OF rel p f addr] by (auto simp: heap_kept_def)
  have "block_bytes ((kheap_blocks s)(p \<mapsto> b')) x = block_bytes (kheap_blocks s) x" for x
    using r(3) p(2) by (intro block_bytes_write [of _ _ b]) (simp_all add: header_def)
  then have "heap_backed bl (block_write p b' s)" "heap_env (block_write p b' s)"
    using inv by (simp_all add: heap_inv_def heap_backed_def heap_env_def block_write_def)
  then have "heap_inv bl (H(p := (H p)(f := None))) heap' (block_write p b' s)"
    using r(2) by (simp add: heap_inv_def block_write_def)
  then show thesis
    using that r by blast
qed

lemma granted_release:
  assumes g: "granted bl H sz align ma out m heap' s'" and len: "0 < (if ma then unat sz - unat align else unat sz)"
  shows "\<exists>heap'' s''. kheap_free heap' out s' = Inr ((True, heap''), s'') \<and> heap_inv bl H heap'' s'' \<and>
           (\<not> ma \<longrightarrow> (\<forall>q. map_option used_secs (kheap_blocks s'' q) = map_option used_secs (m q)))"
proof -
  obtain p c b f n where p: "p \<in> set bl" "m p = Some c" "kheap_blocks s' = m(p \<mapsto> b)"
    "sec_run c n f" "used_secs b = used_secs c \<union> {f..<f + n}" "H p f = None"
    and inv: "heap_inv bl (H(p := (H p)(f \<mapsto> n))) heap' s'"
    and pl: "placed p b f n out (if ma then unat sz - unat align else unat sz)"
    and out: "if ma then unat align dvd unat out else unat out = unat p + f * unat (kb_section_size b)"
    by (rule grantedE [OF g])
  let ?H = "H(p := (H p)(f \<mapsto> n))"
  let ?k = "(unat out - unat p) div unat (kb_section_size b)"
  have b: "kheap_blocks s' p = Some b" and f: "?H p f = Some n"
    by (simp_all add: p(3))
  have addr: "unat p + f * unat (kb_section_size b) \<le> unat out" "unat out < unat p + (f + n) * unat (kb_section_size b)"
    using pl len unfolding placed_def by linarith+
  obtain h2 b2 where r: "kheap_free heap' out s' = Inr ((True, h2), block_write p b2 s')"
    "heap_inv bl (?H(p := (?H p)(f := None))) h2 (block_write p b2 s')" "used_secs b2 = used_secs b - {?k..<f + n}"
    by (rule heap_inv_release [OF inv p(1) b f addr])
  have "?H(p := (?H p)(f := None)) = H"
    using p(6) by (auto simp: fun_eq_iff)
  moreover have "map_option used_secs (kheap_blocks (block_write p b2 s') q) = map_option used_secs (m q)" if "\<not> ma" for q
  proof -
    have rel: "heap_rel bl ?H heap' (kheap_blocks s')"
      using inv by (simp add: heap_inv_def)
    have "0 < unat (kb_section_size b)"
      using heap_relD(3) [OF rel p(1) b] by (simp add: block_at_def word_le_nat_alt)
    then have "?k = f"
      using out that by simp
    then have "used_secs b2 = used_secs c"
      using r(3) p(4,5) by (auto simp: sec_run_def)
    then show ?thesis
      using p(2,3) by (simp add: block_write_def)
  qed
  ultimately show ?thesis
    using r(1,2) by auto
qed

section \<open>A small machine\<close>

text \<open>The machine of \<open>sample_early\<close> with an address space of 1024 pages and an empty heap.\<close>

definition sample_heap_asa :: kasa_data where
  "sample_heap_asa = \<lparr>asa_pages = \<lparr>bs_length = 1024, bs_start = 0x110000,
     bs_cells = replicate 11 0xFFFFFFFF @ 0x0FFFFFFF # replicate 20 0\<rparr>, asa_page_size = PAGE_SIZE\<rparr>"

definition sample_heap_early :: heap_state where
  "sample_heap_early = paging_state.extend sample_early
     \<lparr>kasa_data = sample_heap_asa,
      kheap_default = kheap_init SECTION_SIZE_DEFAULT MIN_BLOCK_SIZE_DEFAULT KHEAP_AUTO_EXPAND,
      kheap_blocks = Map.empty\<rparr>"

definition sample_heap_kd :: "heap_state kalloc_interface" where
  "sample_heap_kd = \<lparr>kalloc_malloc_real_fn = Some i386_mem_kmalloc_real, kalloc_free_fn = Some i386_mem_kfree\<rparr>"

lemma sample_heap_asa_used: "asa_used sample_heap_asa = {..<380}"
proof -
  have "bit (0xFFFFFFFF :: u32) m \<longleftrightarrow> m < 32" "bit (0x0FFFFFFF :: u32) m \<longleftrightarrow> m < 28" for m
  proof -
    have "(0xFFFFFFFF :: u32) = mask 32" "(0x0FFFFFFF :: u32) = mask 28"
      by (simp_all add: mask_eq_exp_minus_1)
    then show "bit (0xFFFFFFFF :: u32) m \<longleftrightarrow> m < 32" "bit (0x0FFFFFFF :: u32) m \<longleftrightarrow> m < 28"
      by (simp_all only: bit_mask_iff) auto
  qed
  note ones = this
  have "k \<in> bits (asa_pages sample_heap_asa) \<longleftrightarrow> k < 380" for k
  proof -
    have k: "k = k div 32 * 32 + k mod 32" "k mod 32 < 32"
      by simp_all
    consider "k div 32 < 11" | "k div 32 = 11" | "11 < k div 32" "k div 32 < 32" | "32 \<le> k div 32"
      by linarith
    then show ?thesis
    proof cases
      case 1
      then have "k < 380"
        using k by linarith
      then show ?thesis
        using 1 ones [of "k mod 32"] by (simp add: in_bits sample_heap_asa_def nth_append)
    next
      case 2
      then have "k < 380 \<longleftrightarrow> k mod 32 < 28" "k < 1024"
        using k by linarith+
      then show ?thesis
        using 2 ones [of "k mod 32"] by (simp add: in_bits sample_heap_asa_def nth_append)
    next
      case 3
      then have "\<not> k < 380"
        using k by linarith
      then show ?thesis
        using 3 by (simp add: in_bits sample_heap_asa_def nth_append nth_Cons')
    next
      case 4
      then have "\<not> k < 1024"
        using k by linarith
      then show ?thesis
        by (simp add: in_bits sample_heap_asa_def)
    qed
  qed
  then show ?thesis
    by (auto simp: asa_used_def)
qed

lemma sample_heap_ready: "paging_ready sample_heap_kd sample_heap_early"
  by (simp add: paging_ready_def sample_heap_early_def sample_early_def sample_heap_kd_def early_def placement_ok_def
      sample_meminfo_def page_aligned_def PAGE_SIZE_def frame_inv_def bitset_inv_def isr_routines_init_def
      paging_state.defs heap_state.defs)

text \<open>After paging is on, the empty heap satisfies the invariant, and frames for a block are left.\<close>

abbreviation sample_heap :: kheap where
  "sample_heap \<equiv> kheap_init SECTION_SIZE_DEFAULT MIN_BLOCK_SIZE_DEFAULT KHEAP_AUTO_EXPAND"

lemma sample_default: "default_heap sample_heap"
  by (simp add: default_heap_def kheap_init_def)

lemma paging_more_eqD:
  assumes "paging_state.more s = paging_state.more t"
  shows "kasa_data s = kasa_data t" "kheap_default s = kheap_default t" "kheap_blocks s = kheap_blocks t"
  using assms by (cases s, cases t, simp)+

lemma heap_inv_boot:
  assumes s: "paging_inv s" "unat (wpage s) < 0x17c" "kp_page_size (kpaging_data s) = PAGE_SIZE"
      "mapping s = (\<lambda>p. if p < KVIRT_RESERVED div PAGE_SIZE \<and> p \<noteq> wpage s then Some (p * PAGE_SIZE) else None)"
    and ka: "asa_inv (kasa_data s)" "asa_page_size (kasa_data s) = PAGE_SIZE"
      "unat (bs_length (asa_pages (kasa_data s))) \<le> 0x3FFFF" "asa_used (kasa_data s) = {..<0x17c}"
    and h: "kh_first heap = 0" "kh_total_free_sections heap = 0"
  shows "heap_inv [] H heap s"
proof -
  have "unat p < 0x17c" if "mapping s p \<noteq> None" for p
    using that s(4) by (auto simp: word_less_nat_alt unat_div KVIRT_RESERVED_def PAGE_SIZE_def split: if_splits)
  then have "heap_env s"
    unfolding heap_env_def using s(1-3) ka by auto
  then show ?thesis
    using h by (simp add: heap_inv_def heap_rel_def heap_backed_def)
qed

lemma sample_heap_state:
  obtains s where "i386_paging_init sample_heap_kd sample_heap_early = Inr s" "heap_inv [] (\<lambda>_. Map.empty) sample_heap s"
    "\<not> starved s"
proof -
  have ext: "kasa_data sample_heap_early = sample_heap_asa" "meminfo sample_heap_early = meminfo sample_early"
    by (simp_all add: sample_heap_early_def paging_state.defs heap_state.defs)
  obtain s where s: "i386_paging_init sample_heap_kd sample_heap_early = Inr s" "paging_inv s"
    "WINDOW_PAGE s = kernel_heap_start (meminfo sample_heap_early) + 0x51000"
    "mapping s = (\<lambda>p. if p < KVIRT_RESERVED div PAGE_SIZE \<and> p \<noteq> wpage s then Some (p * PAGE_SIZE) else None)"
    "kp_page_size (kpaging_data s) = PAGE_SIZE" "paging_state.more s = paging_state.more sample_heap_early"
    "used_frames s = used_frames sample_heap_early \<union> {..<380}"
    "meminfo s = (meminfo sample_heap_early)\<lparr>kernel_heap_curpos := kernel_heap_curpos (meminfo s)\<rparr>"
    using paging_init_ok [OF sample_heap_ready] by blast
  have ka: "kasa_data s = sample_heap_asa"
    using paging_more_eqD(1) [OF s(6)] ext(1) by simp
  have "unat (wpage s) < 0x17c"
    using s(3) by (simp add: ext(2) sample_early_def sample_meminfo_def PAGE_SIZE_def)
  then have "heap_inv [] (\<lambda>_. Map.empty) sample_heap s"
    using s(2,4,5) ka sample_heap_asa_used
    by (intro heap_inv_boot) (auto simp: asa_inv_def bitset_inv_def sample_heap_asa_def PAGE_SIZE_def kheap_init_def)
  moreover have "\<not> starved s"
  proof -
    have "used_frames sample_heap_early = used_frames sample_early"
      by (simp add: used_frames_def sample_heap_early_def paging_state.defs heap_state.defs)
    then have "free_frames s = {380..<1024}"
      using sample_limit [OF s(8) [unfolded ext(2)]] by (auto simp: free_frames_alt s(7) sample_used)
    moreover have "free_run (kasa_data s) 261 380"
      unfolding free_run_def ka sample_heap_asa_used by (auto simp: sample_heap_asa_def)
    ultimately show ?thesis
      by (auto simp: starved_def spare_frames_def)
  qed
  ultimately show ?thesis
    using that s(1) by blast
qed

lemma live_bytes_old: "a \<notin> set bl \<Longrightarrow> live_bytes bl H m \<subseteq> live_bytes (a # bl) (H(a := Map.empty)) m"
proof (rule subsetI)
  fix x
  assume a: "a \<notin> set bl" and "x \<in> live_bytes bl H m"
  then obtain p b f n where p: "p \<in> set bl" "m p = Some b" "H p f = Some n"
    "unat p + f * unat (kb_section_size b) \<le> x" "x < unat p + (f + n) * unat (kb_section_size b)"
    unfolding live_bytes_def by blast
  moreover have "(H(a := Map.empty)) p f = Some n"
    using p(1,3) a by auto
  ultimately show "x \<in> live_bytes (a # bl) (H(a := Map.empty)) m"
    unfolding live_bytes_def by (metis (mono_tags, lifting) mem_Collect_eq list.set_intros(2))
qed

lemma malloc_success_safe:
  assumes inv: "heap_inv bl H heap s" "default_heap heap" and sz: "0 < sz" "unat sz + unat align \<le> 0x100000"
    and r: "kheap_malloc (i386_paging_interface kd) heap sz align s = Inr (((K_SUCCESS, Some out), heap'), s')"
    and x: "unat out \<le> x" "x < unat out + unat sz"
  shows "mapping s' (of_nat (x div 4096)) \<noteq> None \<and> x \<notin> live_bytes bl H (kheap_blocks s')"
proof -
  have sum: "unat (sz + align) = unat sz + unat align"
    using sz(2) by (intro unat_add_no_wrap) linarith
  obtain sz' ma where sz': "malloc_outcome bl H sz' align ma heap s (Inr (((K_SUCCESS, Some out), heap'), s'))"
    "unat sz = (if ma then unat sz' - unat align else unat sz')"
    using kheap_malloc_ok [OF inv sz, of kd] sum unfolding r by (auto split: if_splits)
  consider "granted bl H sz' align ma out (kheap_blocks s) heap' s'"
    | a m where "a \<notin> set bl" "granted (a # bl) (H(a := Map.empty)) sz' align ma out m heap' s'"
    using sz'(1) by (auto simp: malloc_outcome_def)
  then show ?thesis
  proof cases
    case 1
    then show ?thesis
      using granted_safe [OF 1 sz'(2) x] by blast
  next
    case 2
    then show ?thesis
      using granted_safe [OF 2(2) sz'(2) x] live_bytes_old [OF 2(1), of H "kheap_blocks s'"] by blast
  qed
qed

lemma sample_malloc:
  obtains s out heap' s' where "i386_paging_init sample_heap_kd sample_heap_early = Inr s"
    "heap_inv [] (\<lambda>_. Map.empty) sample_heap s"
    "kheap_malloc (i386_paging_interface sample_heap_kd) sample_heap 100 0 s = Inr (((K_SUCCESS, Some out), heap'), s')"
proof -
  obtain s where s: "i386_paging_init sample_heap_kd sample_heap_early = Inr s" "heap_inv [] (\<lambda>_. Map.empty) sample_heap s"
    "\<not> starved s"
    by (rule sample_heap_state)
  have "malloc_outcome [] (\<lambda>_. Map.empty) 100 0 False sample_heap s (kheap_malloc (i386_paging_interface sample_heap_kd) sample_heap 100 0 s)"
    using kheap_malloc_ok [OF s(2) sample_default, of 100 0 sample_heap_kd] by simp
  then show ?thesis
    using s that by (auto simp: malloc_outcome_def)
qed

section \<open>Properties\<close>

text \<open>
  C10: A request for up to a megabyte from a heap in its default configuration always returns. It
  succeeds, from an existing block or from a new one, with sections that were free and that are now
  an allocation of the heap's map, or it reports \<open>K_OOM\<close>, and then only because frames or address
  space for one more block are missing; the allocations are then those of before. The walk over the
  blocks never faults, fails an assertion or runs on.
\<close>

theorem kheap_malloc_total:
  assumes "heap_inv bl H heap s" and "default_heap heap" and "0 < sz" and "unat sz + unat align \<le> 0x100000"
  shows "\<exists>r. kheap_malloc (i386_paging_interface kd) heap sz align s = r \<and>
           (if align = 0 \<or> align = SECTION_SIZE_DEFAULT then malloc_outcome bl H sz align False heap s r
            else malloc_outcome bl H (sz + align) align True heap s r)"
  using kheap_malloc_ok [OF assms] .

theorem kheap_malloc_total_witness:
  "\<exists>s out heap' s'. i386_paging_init sample_heap_kd sample_heap_early = Inr s \<and>
     kheap_malloc (i386_paging_interface sample_heap_kd) sample_heap 100 0x1000 s = Inr (((K_SUCCESS, Some out), heap'), s') \<and>
     0x1000 dvd unat out"
proof -
  obtain s where s: "i386_paging_init sample_heap_kd sample_heap_early = Inr s" "heap_inv [] (\<lambda>_. Map.empty) sample_heap s"
    "\<not> starved s"
    by (rule sample_heap_state)
  have "malloc_outcome [] (\<lambda>_. Map.empty) (100 + 0x1000) 0x1000 True sample_heap s
      (kheap_malloc (i386_paging_interface sample_heap_kd) sample_heap 100 0x1000 s)"
    using kheap_malloc_total [OF s(2) sample_default, of 100 "0x1000" sample_heap_kd] by (simp add: SECTION_SIZE_DEFAULT_def)
  then show ?thesis
    using s(1,3) by (auto simp: malloc_outcome_def granted_def)
qed

text \<open>
  C4: What a successful request returns can be used: every byte lies in a page that is mapped, and
  none belongs to an allocation that existed before.
\<close>

theorem kheap_malloc_safe:
  assumes "heap_inv bl H heap s" and "default_heap heap" and "0 < sz" and "unat sz + unat align \<le> 0x100000"
    and "kheap_malloc (i386_paging_interface kd) heap sz align s = Inr (((K_SUCCESS, Some out), heap'), s')"
    and "unat out \<le> x" and "x < unat out + unat sz"
  shows "mapping s' (of_nat (x div 4096)) \<noteq> None \<and> x \<notin> live_bytes bl H (kheap_blocks s')"
  using malloc_success_safe [OF assms] .

theorem kheap_malloc_safe_witness:
  "\<exists>s out heap' s'. i386_paging_init sample_heap_kd sample_heap_early = Inr s \<and>
     kheap_malloc (i386_paging_interface sample_heap_kd) sample_heap 100 0 s = Inr (((K_SUCCESS, Some out), heap'), s') \<and>
     mapping s' (of_nat (unat out div 4096)) \<noteq> None"
proof -
  obtain s out heap' s' where s: "i386_paging_init sample_heap_kd sample_heap_early = Inr s"
    "heap_inv [] (\<lambda>_. Map.empty) sample_heap s"
    "kheap_malloc (i386_paging_interface sample_heap_kd) sample_heap 100 0 s = Inr (((K_SUCCESS, Some out), heap'), s')"
    by (rule sample_malloc)
  have "mapping s' (of_nat (unat out div 4096)) \<noteq> None"
    using kheap_malloc_safe [OF s(2) sample_default _ _ s(3), of "unat out"] by simp
  then show ?thesis
    using s(1,3) by blast
qed

text \<open>
  C11: Releasing what a request returned, aligned or not, succeeds, and the heap has exactly the allocations of
  before the request again; a block that the request added stays, empty. Without alignment the sections marked used
  in each block are those of before as well.
\<close>

theorem kheap_malloc_free_roundtrip:
  assumes "heap_inv bl H heap s" and "default_heap heap" and "0 < sz" and "unat sz + unat align \<le> 0x100000"
    and "kheap_malloc (i386_paging_interface kd) heap sz align s = Inr (((K_SUCCESS, Some out), heap'), s')"
  shows "\<exists>heap'' s''. kheap_free heap' out s' = Inr ((True, heap''), s'') \<and>
           (heap_inv bl H heap'' s'' \<or> (\<exists>a. a \<notin> set bl \<and> heap_inv (a # bl) (H(a := Map.empty)) heap'' s'')) \<and>
           (align = 0 \<longrightarrow> (\<forall>q\<in>set bl. map_option used_secs (kheap_blocks s'' q) = map_option used_secs (kheap_blocks s q)))"
proof -
  have sum: "unat (sz + align) = unat sz + unat align" "0 < unat sz"
    using assms(3,4) unat_add_no_wrap [of sz align] by (simp_all add: word_gt_0 unat_gt_0)
  obtain sz' ma where o: "malloc_outcome bl H sz' align ma heap s (Inr (((K_SUCCESS, Some out), heap'), s'))"
    "0 < (if ma then unat sz' - unat align else unat sz')" "align = 0 \<longrightarrow> \<not> ma"
    using kheap_malloc_ok [OF assms(1-4), of kd] sum unfolding assms(5) by (auto split: if_splits)
  then consider "granted bl H sz' align ma out (kheap_blocks s) heap' s'"
    | a m where "a \<notin> set bl" "granted (a # bl) (H(a := Map.empty)) sz' align ma out m heap' s'" "\<forall>q\<in>set bl. m q = kheap_blocks s q"
    by (auto simp: malloc_outcome_def)
  then show ?thesis
  proof cases
    case 1
    then show ?thesis
      using granted_release [OF 1 o(2)] o(3) by blast
  next
    case 2
    then show ?thesis
      using granted_release [OF 2(2) o(2)] o(3) by fastforce
  qed
qed

theorem kheap_malloc_free_roundtrip_witness:
  "\<exists>s out heap' s' heap'' s''. i386_paging_init sample_heap_kd sample_heap_early = Inr s \<and>
     kheap_malloc (i386_paging_interface sample_heap_kd) sample_heap 100 0 s = Inr (((K_SUCCESS, Some out), heap'), s') \<and>
     kheap_free heap' out s' = Inr ((True, heap''), s'')"
proof -
  obtain s out heap' s' where s: "i386_paging_init sample_heap_kd sample_heap_early = Inr s"
    "heap_inv [] (\<lambda>_. Map.empty) sample_heap s"
    "kheap_malloc (i386_paging_interface sample_heap_kd) sample_heap 100 0 s = Inr (((K_SUCCESS, Some out), heap'), s')"
    by (rule sample_malloc)
  have "\<exists>heap'' s''. kheap_free heap' out s' = Inr ((True, heap''), s'')"
    using kheap_malloc_free_roundtrip [OF s(2) sample_default _ _ s(3)] by auto
  then show ?thesis
    using s(1,3) by blast
qed

text \<open>
  Releasing an address that lies in no block of the heap reports failure and changes nothing.
\<close>

theorem kheap_free_foreign:
  assumes "heap_inv bl H heap s" and "\<And>p. p \<in> set bl \<Longrightarrow> unat addr \<notin> block_bytes (kheap_blocks s) p"
  shows "kheap_free heap addr s = Inr ((False, heap), s)"
proof -
  have "heap_rel bl H heap (kheap_blocks s)"
    using assms(1) by (simp add: heap_inv_def)
  then show ?thesis
    using assms(2) by (rule kheap_free_unknown)
qed

theorem kheap_free_foreign_witness:
  "\<exists>s. i386_paging_init sample_heap_kd sample_heap_early = Inr s \<and>
     kheap_free sample_heap 0x200000 s = Inr ((False, sample_heap), s)"
proof -
  obtain s where s: "i386_paging_init sample_heap_kd sample_heap_early = Inr s" "heap_inv [] (\<lambda>_. Map.empty) sample_heap s"
    by (rule sample_heap_state)
  then show ?thesis
    using kheap_free_foreign [OF s(2), of "0x200000"] by auto
qed

end
