(* ===== verification/Kheap_Provider.thy ===== *)
theory Kheap_Provider
  imports Kheap_Malloc
begin

unbundle bit_operations_syntax

text \<open>
  The heap as a provider of the kernel's allocation interface: once \<open>kheap_kalloc_install\<close> has run,
  \<open>kmalloc\<close> leads to it. It keeps the contract of the early allocator, and that of an allocator that takes
  memory back: what its clients hold is mapped, lies apart, and can be released.
\<close>

section \<open>Invariant and owned memory\<close>

definition heap_ok :: "'a heap_state_scheme \<Rightarrow> bool" where
  "heap_ok s \<longleftrightarrow> default_heap (kheap_default s) \<and> (\<exists>bl H. heap_inv bl H (kheap_default s) s)"

text \<open>The sizes it is meant for: a megabyte with the page that an aligned request may lose.\<close>

definition heap_request :: "size_t \<Rightarrow> bool" where
  "heap_request sz \<longleftrightarrow> 0 < sz \<and> unat sz + 4096 \<le> 0x100000"

text \<open>
  What the clients of the heap hold, by address: each piece lies in an allocation of the heap, and no
  two pieces in the same. \<open>loc\<close> gives the block and the first section of the allocation.
\<close>

definition piece_at ::
  "uintptr_t list \<Rightarrow> (uintptr_t \<Rightarrow> allocs) \<Rightarrow> (uintptr_t \<rightharpoonup> kheap_block) \<Rightarrow> uintptr_t \<times> nat \<Rightarrow> uintptr_t \<Rightarrow> size_t \<Rightarrow> bool" where
  "piece_at bl H m = (\<lambda>(p, f) a sz. 0 < sz \<and> p \<in> set bl \<and> (\<exists>b n. m p = Some b \<and> H p f = Some n \<and> placed p b f n a (unat sz)))"

definition tracked :: "uintptr_t list \<Rightarrow> (uintptr_t \<Rightarrow> allocs) \<Rightarrow> (uintptr_t \<rightharpoonup> kheap_block) \<Rightarrow> (uintptr_t \<rightharpoonup> size_t) \<Rightarrow> bool" where
  "tracked bl H m L \<longleftrightarrow> (\<exists>loc. inj_on loc (dom L) \<and> (\<forall>a sz. L a = Some sz \<longrightarrow> piece_at bl H m (loc a) a sz))"

lemma piece_atE:
  assumes "piece_at bl H m (p, f) a sz"
  obtains b n where "0 < sz" and "p \<in> set bl" and "m p = Some b" and "H p f = Some n" and "placed p b f n a (unat sz)"
  using assms by (auto simp: piece_at_def)

lemma trackedE:
  assumes "tracked bl H m L"
  obtains loc where "inj_on loc (dom L)" and "\<And>a sz. L a = Some sz \<Longrightarrow> piece_at bl H m (loc a) a sz"
  using assms unfolding tracked_def by blast

lemma tracked_pieceE:
  assumes "tracked bl H m L" and "L a = Some sz"
  obtains p f b n where "0 < sz" and "p \<in> set bl" and "m p = Some b" and "H p f = Some n" and "placed p b f n a (unat sz)"
proof -
  obtain p f where "piece_at bl H m (p, f) a sz"
    using assms unfolding tracked_def by (metis surj_pair)
  then show thesis
    using that by (rule piece_atE) blast
qed

text \<open>A piece does not depend on other blocks or allocations, or on more than the header of its block.\<close>

lemma piece_at_keep:
  assumes p: "piece_at bl H m (p, f) a sz" and "set bl \<subseteq> set bl'" and "H' p f = H p f"
    and hd: "map_option header (m' p) = map_option header (m p)"
  shows "piece_at bl' H' m' (p, f) a sz"
proof -
  obtain b n where b: "0 < sz" "p \<in> set bl" "m p = Some b" "H p f = Some n" "placed p b f n a (unat sz)"
    by (rule piece_atE [OF p])
  obtain b' where "m' p = Some b'" "header b' = header b"
    using hd b(3) by auto
  then show ?thesis
    using b assms(2,3) by (auto simp: piece_at_def placed_def header_def)
qed

definition heap_tracks :: "'a heap_state_scheme \<Rightarrow> (uintptr_t \<rightharpoonup> size_t) \<Rightarrow> bool" where
  "heap_tracks s L \<longleftrightarrow> default_heap (kheap_default s) \<and>
     (\<exists>bl H. heap_inv bl H (kheap_default s) s \<and> tracked bl H (kheap_blocks s) L)"

lemma tracked_empty [simp]: "tracked bl H m Map.empty"
  by (simp add: tracked_def)

lemma heap_ok_tracks: "heap_ok s \<longleftrightarrow> heap_tracks s Map.empty"
  by (simp add: heap_ok_def heap_tracks_def)

lemma heap_tracks_ok: "heap_tracks s L \<Longrightarrow> heap_ok s"
  by (auto simp: heap_ok_def heap_tracks_def)

text \<open>The bytes in used sections of the blocks \<open>bl\<close>, headers and bitsets included.\<close>

definition owned_in :: "uintptr_t list \<Rightarrow> (uintptr_t \<rightharpoonup> kheap_block) \<Rightarrow> nat set" where
  "owned_in bl m = {x. \<exists>p\<in>set bl. \<exists>b. m p = Some b \<and> unat p \<le> x \<and>
     (x - unat p) div unat (kb_section_size b) \<in> used_secs b}"

definition heap_owned :: "'a heap_state_scheme \<Rightarrow> nat set" where
  "heap_owned s = {x. \<exists>bl. chain (kheap_blocks s) (kh_first (kheap_default s)) bl \<and> x \<in> owned_in bl (kheap_blocks s)}"

lemma chain_unique: "chain m p bl \<Longrightarrow> chain m p bl' \<Longrightarrow> bl = bl'"
proof (induction bl arbitrary: p bl')
  case Nil
  then show ?case
    by (cases bl') auto
next
  case (Cons x xs)
  then show ?case
    by (cases bl') (auto split: option.splits)
qed

lemma heap_owned_eq:
  assumes "heap_inv bl H (kheap_default s) s"
  shows "heap_owned s = owned_in bl (kheap_blocks s)"
proof -
  have "chain (kheap_blocks s) (kh_first (kheap_default s)) bl"
    using assms by (simp add: heap_inv_def heap_rel_def)
  then show ?thesis
    unfolding heap_owned_def using chain_unique by blast
qed

section \<open>What a request does to owned memory\<close>

lemma owned_section:
  assumes rel: "heap_rel bl H heap m" and p: "p \<in> set bl" "m p = Some b"
    and x: "unat p \<le> x" "(x - unat p) div unat (kb_section_size b) \<in> used_secs b"
  shows "x \<in> block_bytes m p"
proof -
  let ?ss = "unat (kb_section_size b)"
  have "(x - unat p) div ?ss < sections b"
    using x(2) bs.ones_bound [of "kb_used_sections b"] by blast
  moreover have at: "0 < ?ss" "sections b * ?ss = unat (kb_block_size b)"
    using heap_relD(3) [OF rel p] by (auto simp: block_at_def word_le_nat_alt)
  ultimately have "x - unat p < sections b * ?ss"
    by (simp add: div_less_iff_less_mult)
  then show ?thesis
    using p(2) x(1) at(2) by (simp add: block_bytes_def)
qed

text \<open>What a request grants was not owned and is owned from then on; the rest of owned memory stays owned.\<close>

lemma placed_section:
  assumes "placed p b f n out len" and "0 < unat (kb_section_size b)" and "x \<in> {unat out..<unat out + len}"
  shows "(x - unat p) div unat (kb_section_size b) \<in> {f..<f + n}" and "unat p \<le> x"
proof -
  have "unat p + f * unat (kb_section_size b) \<le> x" "x < unat p + (f + n) * unat (kb_section_size b)"
    using assms(1,3) by (auto simp: placed_def)
  then show "(x - unat p) div unat (kb_section_size b) \<in> {f..<f + n}" "unat p \<le> x"
    using assms(2) by (auto simp: div_less_iff_less_mult less_eq_div_iff_mult_less_eq)
qed

lemma owned_in_grow:
  assumes "m p = Some c" and "header b = header c" and "used_secs c \<subseteq> used_secs b"
  shows "owned_in bl m \<subseteq> owned_in bl (m(p \<mapsto> b))"
proof
  fix x
  assume "x \<in> owned_in bl m"
  then obtain q d where q: "q \<in> set bl" "m q = Some d" "unat q \<le> x" "(x - unat q) div unat (kb_section_size d) \<in> used_secs d"
    unfolding owned_in_def by blast
  let ?d = "if q = p then b else d"
  have "(m(p \<mapsto> b)) q = Some ?d" "kb_section_size ?d = kb_section_size d" "used_secs d \<subseteq> used_secs ?d"
    using assms q(2) by (auto simp: header_def)
  then show "x \<in> owned_in bl (m(p \<mapsto> b))"
    using q unfolding owned_in_def by (intro CollectI bexI [of _ q] exI [of _ ?d]) auto
qed

lemma granted_owned:
  assumes g: "granted bl' H' sz align ma out m heap' s'"
    and bl: "set bl \<subseteq> set bl'" "\<forall>q\<in>set bl. m q = kheap_blocks s q"
    and len: "len = (if ma then unat sz - unat align else unat sz)"
  shows "owned_in bl (kheap_blocks s) \<subseteq> owned_in bl' (kheap_blocks s')"
    and "{unat out..<unat out + len} \<inter> owned_in bl (kheap_blocks s) = {}"
    and "{unat out..<unat out + len} \<subseteq> owned_in bl' (kheap_blocks s')"
proof -
  obtain p c b f n where p: "p \<in> set bl'" "m p = Some c" "kheap_blocks s' = m(p \<mapsto> b)" "header b = header c"
    and new: "sec_run c n f" "used_secs b = used_secs c \<union> {f..<f + n}"
    and inv: "heap_inv bl' (H'(p := (H' p)(f \<mapsto> n))) heap' s'" and pl: "placed p b f n out len"
    using g unfolding len by (rule grantedE)
  let ?H = "H'(p := (H' p)(f \<mapsto> n))"
  have b: "kheap_blocks s' p = Some b" and rel: "heap_rel bl' ?H heap' (kheap_blocks s')"
    using inv by (simp_all add: p(3) heap_inv_def)
  have ss: "0 < unat (kb_section_size b)"
    using heap_relD(3) [OF rel p(1) b] by (auto simp: block_at_def word_le_nat_alt)
  note sect = placed_section [OF pl ss]
  show "{unat out..<unat out + len} \<subseteq> owned_in bl' (kheap_blocks s')"
    using sect new(2) p(1) b unfolding owned_in_def by blast
  have eq: "owned_in bl (kheap_blocks s) = owned_in bl m"
    using bl(2) unfolding owned_in_def by simp
  have "owned_in bl m \<subseteq> owned_in bl (m(p \<mapsto> b))"
    using new(2) by (intro owned_in_grow [of m p c, OF p(2,4)]) blast
  also have "\<dots> \<subseteq> owned_in bl' (m(p \<mapsto> b))"
    using bl(1) unfolding owned_in_def by blast
  finally show "owned_in bl (kheap_blocks s) \<subseteq> owned_in bl' (kheap_blocks s')"
    by (simp add: eq p(3))
  have "x \<notin> owned_in bl m" if x: "x \<in> {unat out..<unat out + len}" for x
  proof
    assume "x \<in> owned_in bl m"
    then obtain q d where q: "q \<in> set bl" "m q = Some d" "unat q \<le> x" "(x - unat q) div unat (kb_section_size d) \<in> used_secs d"
      unfolding owned_in_def by blast
    have q': "q \<in> set bl'"
      using q(1) bl(1) by blast
    have in_p: "x \<in> block_bytes (kheap_blocks s') p"
      using sect [OF x] new(2) by (intro owned_section [OF rel p(1) b]) auto
    have "q = p"
    proof (rule ccontr)
      assume ne: "q \<noteq> p"
      then have "kheap_blocks s' q = Some d"
        using q(2) by (simp add: p(3))
      then have "x \<in> block_bytes (kheap_blocks s') q"
        using q(3,4) by (intro owned_section [OF rel q']) auto
      then show False
        using heap_rel_apart [OF rel q' p(1) ne] in_p by blast
    qed
    then have "(x - unat p) div unat (kb_section_size b) \<in> used_secs c"
      using q(2,4) p(2,4) by (simp add: header_def)
    then show False
      using new(1) sect(1) [OF x] unfolding sec_run_def by blast
  qed
  then show "{unat out..<unat out + len} \<inter> owned_in bl (kheap_blocks s) = {}"
    unfolding eq by blast
qed

section \<open>What clients hold\<close>

text \<open>A grant adds a piece.\<close>

lemma granted_tracked:
  assumes g: "granted bl' H' sz' align ma out m heap' s'" and bl: "set bl \<subseteq> set bl'" "\<forall>q\<in>set bl. H' q = H q"
    and m: "\<forall>q\<in>set bl. m q = kheap_blocks s q" and sz: "0 < sz" "unat sz = (if ma then unat sz' - unat align else unat sz')"
    and L: "tracked bl H (kheap_blocks s) L"
  obtains H'' where "heap_inv bl' H'' heap' s'" and "tracked bl' H'' (kheap_blocks s') (L(out \<mapsto> sz))"
proof -
  obtain p c b f n where p: "p \<in> set bl'" "m p = Some c" "kheap_blocks s' = m(p \<mapsto> b)" "header b = header c"
    and none: "H' p f = None" and inv: "heap_inv bl' (H'(p := (H' p)(f \<mapsto> n))) heap' s'" and pl: "placed p b f n out (unat sz)"
    using g unfolding sz(2) by (rule grantedE)
  let ?H = "H'(p := (H' p)(f \<mapsto> n))"
  obtain loc where inj: "inj_on loc (dom L)" and loc: "\<And>a sz. L a = Some sz \<Longrightarrow> piece_at bl H (kheap_blocks s) (loc a) a sz"
    using L by (rule trackedE) blast
  let ?loc = "loc(out := (p, f))"
  have old: "loc a \<noteq> (p, f)" "piece_at bl' ?H (kheap_blocks s') (loc a) a z" if a: "L a = Some z" for a z
  proof -
    obtain q h where q: "loc a = (q, h)"
      by force
    have piece: "piece_at bl H (kheap_blocks s) (q, h) a z"
      using loc [OF a] q by simp
    then have h: "q \<in> set bl" "H' q h \<noteq> None" "H' q h = H q h" "kheap_blocks s q = m q"
      using bl(2) m by (auto simp: piece_at_def)
    then show ne: "loc a \<noteq> (p, f)"
      using none q by auto
    have "map_option header (kheap_blocks s' q) = map_option header (kheap_blocks s q)"
      using h(4) p(2-4) by simp
    moreover have "?H q h = H q h"
      using ne q h(3) by auto
    ultimately show "piece_at bl' ?H (kheap_blocks s') (loc a) a z"
      using piece_at_keep [OF piece bl(1)] q by metis
  qed
  have "inj_on ?loc (dom (L(out \<mapsto> sz)))"
    using inj old(1) unfolding inj_on_def by (simp add: dom_def) metis
  moreover have "piece_at bl' ?H (kheap_blocks s') (p, f) out sz"
    using sz(1) p(1,3) pl by (simp add: piece_at_def)
  ultimately have "tracked bl' ?H (kheap_blocks s') (L(out \<mapsto> sz))"
    using old(2) unfolding tracked_def by (intro exI [of _ ?loc]) simp
  then show thesis
    using that inv by blast
qed

text \<open>Releasing a piece at its address takes it away and returns.\<close>

lemma tracked_release:
  assumes inv: "heap_inv bl H heap s" and L: "tracked bl H (kheap_blocks s) L" and a: "L a = Some sz"
  obtains heap' t H' where "kheap_free heap a s = Inr ((True, heap'), t)" and "heap_inv bl H' heap' t"
    and "tracked bl H' (kheap_blocks t) (L(a := None))" and "heap_kept heap heap'"
proof -
  obtain loc where inj: "inj_on loc (dom L)" and loc: "\<And>a sz. L a = Some sz \<Longrightarrow> piece_at bl H (kheap_blocks s) (loc a) a sz"
    using L by (rule trackedE) blast
  obtain p f where pf: "loc a = (p, f)"
    by force
  obtain b n where b: "0 < sz" "p \<in> set bl" "kheap_blocks s p = Some b" "H p f = Some n" "placed p b f n a (unat sz)"
    using loc [OF a] unfolding pf by (rule piece_atE)
  have "0 < unat sz"
    using b(1) by (simp add: word_gt_0 unat_gt_0)
  then have addr: "unat p + f * unat (kb_section_size b) \<le> unat a" "unat a < unat p + (f + n) * unat (kb_section_size b)"
    using b(5) by (simp_all add: placed_def)
  let ?H = "H(p := (H p)(f := None))"
  obtain heap' b' where r: "kheap_free heap a s = Inr ((True, heap'), block_write p b' s)" "heap_inv bl ?H heap' (block_write p b' s)"
    "header b' = header b" "heap_kept heap heap'"
    by (rule heap_inv_release [OF inv b(2-4) addr])
  have "piece_at bl ?H (kheap_blocks (block_write p b' s)) (loc c) c z" if c: "(L(a := None)) c = Some z" for c z
  proof -
    obtain q h where q: "loc c = (q, h)"
      by force
    have c': "c \<noteq> a" "L c = Some z"
      using c by (auto split: if_splits)
    then have "(q, h) \<noteq> (p, f)"
      using inj a q pf unfolding inj_on_def by (metis domI)
    then have "?H q h = H q h"
      by auto
    moreover have "map_option header (kheap_blocks (block_write p b' s) q) = map_option header (kheap_blocks s q)"
      using b(3) r(3) by (simp add: block_write_def)
    ultimately show ?thesis
      using piece_at_keep [of bl H "kheap_blocks s" q h c z bl ?H] loc [OF c'(2)] q by simp
  qed
  moreover have "inj_on loc (dom (L(a := None)))"
    using inj by (auto simp: inj_on_def)
  ultimately have "tracked bl ?H (kheap_blocks (block_write p b' s)) (L(a := None))"
    unfolding tracked_def by blast
  then show thesis
    using that r by blast
qed

text \<open>The pieces are owned memory and lie apart.\<close>

lemma tracked_owned:
  assumes rel: "heap_rel bl H heap m" and L: "tracked bl H m L" and a: "L a = Some sz"
  shows "region a sz \<subseteq> owned_in bl m"
proof -
  obtain p b f n where b: "p \<in> set bl" "m p = Some b" "H p f = Some n" "placed p b f n a (unat sz)"
    by (rule tracked_pieceE [OF L a])
  have "0 < unat (kb_section_size b)"
    using heap_relD(3) [OF rel b(1,2)] by (auto simp: block_at_def word_le_nat_alt)
  note sect = placed_section [OF b(4) this]
  have "{f..<f + n} \<subseteq> used_secs b"
    using alloc_taken [of "H p" f n, OF b(3)] block_relD(11) [OF heap_relD(2) [OF rel b(1,2)]] by blast
  then show ?thesis
    using sect b(1,2) unfolding owned_in_def region_def by blast
qed

lemma tracked_apart:
  assumes rel: "heap_rel bl H heap m" and L: "tracked bl H m L" and a: "L a = Some sz" "L a' = Some sz'" "a \<noteq> a'"
  shows "region a sz \<inter> region a' sz' = {}"
proof -
  obtain loc where inj: "inj_on loc (dom L)" and loc: "\<And>a sz. L a = Some sz \<Longrightarrow> piece_at bl H m (loc a) a sz"
    using L by (rule trackedE) blast
  obtain p f p' f' where pf: "loc a = (p, f)" "loc a' = (p', f')"
    by force
  obtain b n where b: "p \<in> set bl" "m p = Some b" "H p f = Some n" "placed p b f n a (unat sz)"
    using loc [OF a(1)] unfolding pf by (rule piece_atE)
  obtain b' n' where b': "p' \<in> set bl" "m p' = Some b'" "H p' f' = Some n'" "placed p' b' f' n' a' (unat sz')"
    using loc [OF a(2)] unfolding pf by (rule piece_atE)
  have ne: "\<not> (p = p' \<and> f = f')"
    using inj a pf unfolding inj_on_def by (metis domI)
  have False if x: "x \<in> region a sz" "x \<in> region a' sz'" for x
    using live_apart [OF rel b(1-3) _ _ b'(1-3), of x] x b(4) b'(4) ne by (auto simp: region_def placed_def)
  then show ?thesis
    by blast
qed

section \<open>The wrapper behind \<open>kmalloc\<close>\<close>

lemma heap_inv_same:
  assumes "heap_inv bl H heap s" and "paging_inv t" and "paging_rest t = paging_rest s" and "mapping t = mapping s"
  shows "heap_inv bl H heap t"
  using assms(1,2,4) paging_restD [OF assms(3)] by (simp add: heap_inv_def heap_env_def heap_backed_def)

lemma heap_inv_default [simp]: "heap_inv bl H heap (s\<lparr>kheap_default := h\<rparr>) = heap_inv bl H heap s"
  by (simp add: heap_inv_def heap_env_def heap_backed_def)

text \<open>A request that succeeded was served from the blocks there were or from those and a new one.\<close>

lemma malloc_outcome_granted:
  assumes o: "malloc_outcome bl H sz align ma heap s (Inr (((ret, res), heap'), s'))" and ret: "\<not> K_FAILED ret"
  obtains out bl' H' m where "res = Some out" and "heap_kept heap heap'" and "set bl \<subseteq> set bl'"
    and "\<forall>q\<in>set bl. H' q = H q" and "\<forall>q\<in>set bl. m q = kheap_blocks s q" and "granted bl' H' sz align ma out m heap' s'"
proof -
  obtain out where out: "res = Some out" "heap_kept heap heap'"
    and "granted bl H sz align ma out (kheap_blocks s) heap' s' \<or>
      (\<exists>a m. a \<notin> set bl \<and> (\<forall>q\<in>set bl. m q = kheap_blocks s q) \<and> granted (a # bl) (H(a := Map.empty)) sz align ma out m heap' s')"
    using o ret unfolding malloc_outcome_def K_FAILED_def by (auto simp: K_OOM_def K_SUCCESS_def)
  then show thesis
  proof (elim disjE exE conjE)
    fix a m
    assume a: "a \<notin> set bl" "\<forall>q\<in>set bl. m q = kheap_blocks s q" "granted (a # bl) (H(a := Map.empty)) sz align ma out m heap' s'"
    show thesis
      by (rule that [OF out, of "a # bl" "H(a := Map.empty)" m]) (use a in auto)
  qed (use that [OF out, of bl H "kheap_blocks s"] in simp)
qed

lemma heap_malloc_owned:
  assumes tr: "heap_tracks s L" and req: "heap_request sz" and align: "align = 0 \<or> align = PAGE_SIZE"
    and r: "kheap_malloc (i386_paging_interface kd) (kheap_default s) sz align s = Inr (((ret, res), heap'), s')"
    and ret: "\<not> K_FAILED ret"
  defines "t \<equiv> s'\<lparr>kheap_default := heap'\<rparr>"
  obtains out where "res = Some out" and "heap_tracks t (L(out \<mapsto> sz))" and "heap_owned s \<subseteq> heap_owned t"
    and "region out sz \<inter> heap_owned s = {}" and "region out sz \<subseteq> heap_owned t"
    and "align = PAGE_SIZE \<longrightarrow> 4096 dvd unat out" and "mapping t (out div PAGE_SIZE) \<noteq> None"
proof -
  obtain bl H where df: "default_heap (kheap_default s)" and inv: "heap_inv bl H (kheap_default s) s"
    and L: "tracked bl H (kheap_blocks s) L"
    using tr by (auto simp: heap_tracks_def)
  have sz: "0 < sz" "unat sz + unat align \<le> 0x100000"
    using req align by (auto simp: heap_request_def PAGE_SIZE_def)
  have sum: "unat (sz + align) = unat sz + unat align"
    using sz(2) by (intro unat_add_no_wrap) linarith
  obtain sz' ma where o: "malloc_outcome bl H sz' align ma (kheap_default s) s (Inr (((ret, res), heap'), s'))"
    "unat sz = (if ma then unat sz' - unat align else unat sz')" "align = PAGE_SIZE \<longrightarrow> ma"
    using kheap_malloc_ok [OF inv df sz, of kd] sum unfolding r by (auto simp: PAGE_SIZE_def SECTION_SIZE_DEFAULT_def split: if_splits)
  obtain out bl' H' m where res: "res = Some out" and kept: "heap_kept (kheap_default s) heap'" and bl': "set bl \<subseteq> set bl'"
    and H': "\<forall>q\<in>set bl. H' q = H q" and m: "\<forall>q\<in>set bl. m q = kheap_blocks s q" and g: "granted bl' H' sz' align ma out m heap' s'"
    using o(1) ret by (rule malloc_outcome_granted)
  obtain H'' where inv': "heap_inv bl' H'' heap' s'" and L': "tracked bl' H'' (kheap_blocks s') (L(out \<mapsto> sz))"
    by (rule granted_tracked [OF g bl' H' m sz(1) o(2) L])
  have reg: "region out sz = {unat out..<unat out + (if ma then unat sz' - unat align else unat sz')}"
    by (simp add: region_def o(2))
  have own: "heap_owned s = owned_in bl (kheap_blocks s)" "heap_owned t = owned_in bl' (kheap_blocks s')"
    using heap_owned_eq [OF inv] heap_owned_eq [of bl' H'' t] inv' by (simp_all add: t_def)
  note go = granted_owned [OF g bl' m refl, folded own reg]
  have "mapping s' (of_nat (unat out div 4096)) \<noteq> None"
    using sz(1) o(2) by (intro granted_safe(1) [OF g refl]) (auto simp: word_less_nat_alt)
  moreover have "of_nat (unat out div 4096) = out div PAGE_SIZE"
    by (rule word_unat_eq_iff [THEN iffD2])
      (use le_less_trans [OF div_le_dividend unsigned_less [of out], of 4096] in \<open>simp add: PAGE_SIZE_def unat_div unat_of_nat\<close>)
  moreover have "heap_tracks t (L(out \<mapsto> sz))"
    unfolding heap_tracks_def
    using df kept inv' L' by (intro conjI exI [of _ bl'] exI [of _ H'']) (simp_all add: t_def default_heap_def heap_kept_def)
  moreover have "align = PAGE_SIZE \<longrightarrow> 4096 dvd unat out"
    using o(3) g unfolding granted_def by (auto simp: PAGE_SIZE_def)
  ultimately show thesis
    using that [OF res _ go] by (simp add: t_def)
qed

text \<open>The physical address asked for is that of the page the memory starts in.\<close>

lemma heap_get_phys:
  fixes s :: "'a heap_state_scheme"
  assumes tr: "heap_tracks s L" and m: "mapping s (a div PAGE_SIZE) = Some f"
  obtains t where "kpage_get_phys (i386_paging_interface kd) a s = Inr (f, t)" and "heap_tracks t L" and "heap_owned t = heap_owned s"
    and "mapping t = mapping s"
proof -
  obtain bl H where df: "default_heap (kheap_default s)" and inv: "heap_inv bl H (kheap_default s) s"
    and L: "tracked bl H (kheap_blocks s) L"
    using tr by (auto simp: heap_tracks_def)
  have p: "paging_inv s" "mmu_ok s"
    using inv by (simp_all add: heap_inv_def heap_env_def paging_inv_def)
  have "a div PAGE_SIZE \<noteq> wpage s"
    using m by (auto simp: mapping_def split: if_splits)
  then obtain t where t: "i386_page_get_phys (i386_kernel_mmu_data s) a s = Inr (f, t)" "window_moved s t"
    using page_get_phys_ok [OF p(2), of a] m by auto
  note c = window_moved_contract [OF t(2) p(1)]
  have i: "heap_inv bl H (kheap_default t) t" and kd: "kheap_default t = kheap_default s" "kheap_blocks t = kheap_blocks s"
    using heap_inv_same [OF inv c(1,2,4)] paging_restD [OF c(2)] by simp_all
  then have "heap_tracks t L" "heap_owned t = heap_owned s"
    using df L heap_owned_eq [OF i] heap_owned_eq [OF inv] by (auto simp: heap_tracks_def)
  moreover have "kpage_get_phys (i386_paging_interface kd) a s = Inr (f, t)"
    using t(1) by (simp add: kpage_get_phys_def i386_paging_interface_def i386_kpage_get_phys_def)
  ultimately show thesis
    using that c(4) by blast
qed

lemma heap_alloc_ok:
  fixes s :: "'a heap_state_scheme"
  assumes tr: "heap_tracks s L" and req: "heap_request sz"
  shows "kheap_kalloc_malloc_real (i386_paging_interface kd) sz phys flags s = Inl (Panic ''kheap OOM!'') \<and> starved s \<or>
    (\<exists>a f t. kheap_kalloc_malloc_real (i386_paging_interface kd) sz phys flags s = Inr ((a, if phys then Some f else None), t) \<and>
       heap_tracks t (L(a \<mapsto> sz)) \<and> heap_owned s \<subseteq> heap_owned t \<and> region a sz \<inter> heap_owned s = {} \<and> region a sz \<subseteq> heap_owned t \<and>
       (bit flags 2 \<longrightarrow> 4096 dvd unat a) \<and> mapping t (a div PAGE_SIZE) = Some f)"
proof -
  let ?if = "i386_paging_interface kd"
  let ?align = "if flags AND KALLOC_PAGE_ALIGN \<noteq> 0 then kp_page_size (kpaging_data s) else 0"
  obtain bl H where df: "default_heap (kheap_default s)" and inv: "heap_inv bl H (kheap_default s) s"
    using tr by (auto simp: heap_tracks_def)
  have bit2: "flags AND KALLOC_PAGE_ALIGN \<noteq> 0 \<longleftrightarrow> bit flags 2"
    by (simp add: flag_tests)
  have align: "?align = (if bit flags 2 then PAGE_SIZE else 0)"
    using inv bit2 by (simp add: heap_inv_def heap_env_def)
  then have sz: "0 < sz" "unat sz + unat ?align \<le> 0x100000"
    using req by (auto simp: heap_request_def PAGE_SIZE_def)
  obtain r where r: "kheap_malloc ?if (kheap_default s) sz ?align s = r"
    "\<exists>sz' ma. malloc_outcome bl H sz' ?align ma (kheap_default s) s r"
    using kheap_malloc_ok [OF inv df sz, of kd] by (auto split: if_splits)
  obtain ret res heap' s' where r': "r = Inr (((ret, res), heap'), s')" "K_FAILED ret \<longrightarrow> starved s"
    using r(2) by (auto simp: malloc_outcome_def K_FAILED_def)
  show ?thesis
  proof (cases "K_FAILED ret")
    case True
    then show ?thesis
      using r(1) r' by (simp add: kheap_kalloc_malloc_real_def PANIC_def)
  next
    case False
    let ?t = "s'\<lparr>kheap_default := heap'\<rparr>"
    obtain out where o: "res = Some out" "heap_tracks ?t (L(out \<mapsto> sz))" "heap_owned s \<subseteq> heap_owned ?t" "region out sz \<inter> heap_owned s = {}"
      "region out sz \<subseteq> heap_owned ?t" "?align = PAGE_SIZE \<longrightarrow> 4096 dvd unat out" "mapping ?t (out div PAGE_SIZE) \<noteq> None"
      by (rule heap_malloc_owned [OF tr req _ r(1) [unfolded r'(1)] False]) (use align in auto)
    then obtain f where f: "mapping ?t (out div PAGE_SIZE) = Some f"
      by blast
    obtain t where t: "kpage_get_phys ?if out ?t = Inr (f, t)" "heap_tracks t (L(out \<mapsto> sz))" "heap_owned t = heap_owned ?t" "mapping t = mapping ?t"
      by (rule heap_get_phys [OF o(2) f])
    show ?thesis
      using r(1) r'(1) False o t f align
      by (intro disjI2 exI [of _ out] exI [of _ f] exI [of _ "if phys then t else ?t"])
        (simp add: kheap_kalloc_malloc_real_def Let_def)
  qed
qed

interpretation heap_alloc: kalloc_provider "kheap_kalloc_malloc_real (i386_paging_interface kd)" heap_ok heap_request heap_owned
  for kd :: "'a heap_state_scheme kalloc_interface"
proof (unfold_locales, goal_cases)
  case (1 s sz phys flags a p s')
  then show ?case
    using heap_alloc_ok [OF "1"(1) [unfolded heap_ok_tracks] "1"(2), of kd phys flags] by (auto dest: heap_tracks_ok)
next
  case (2 s sz phys flags a p s')
  then show ?case
    using heap_alloc_ok [OF "2"(1) [unfolded heap_ok_tracks] "2"(2), of kd phys flags] by (auto dest: heap_tracks_ok)
next
  case (3 s sz phys flags a p s')
  then show ?case
    using heap_alloc_ok [OF "3"(1) [unfolded heap_ok_tracks] "3"(2), of kd phys flags] by (auto dest: heap_tracks_ok)
qed

text \<open>Addresses of pieces are not null, and releasing one through the interface returns.\<close>

lemma tracked_nonnull:
  assumes "heap_tracks s L" and "L a = Some sz"
  shows "a \<noteq> 0" and "0 < sz"
proof -
  obtain bl H where inv: "heap_inv bl H (kheap_default s) s" and L: "tracked bl H (kheap_blocks s) L"
    using assms(1) by (auto simp: heap_tracks_def)
  obtain p f b n where p: "p \<in> set bl" "kheap_blocks s p = Some b" "placed p b f n a (unat sz)" and sz: "0 < sz"
    by (rule tracked_pieceE [OF L assms(2)])
  have rel: "heap_rel bl H (kheap_default s) (kheap_blocks s)"
    using inv by (simp add: heap_inv_def)
  have "unat p \<noteq> 0"
    using heap_relD(3) [OF rel p(1,2)] by (simp add: block_at_def unat_eq_zero)
  then show "a \<noteq> 0"
    using p(3) by (auto simp: placed_def)
  show "0 < sz"
    by (rule sz)
qed

lemma heap_free_ok:
  assumes tr: "heap_tracks s L" and a: "L a = Some sz"
  shows "\<exists>t. kheap_kalloc_free a s = Inr t \<and> heap_tracks t (L(a := None))"
proof -
  obtain bl H where df: "default_heap (kheap_default s)" and inv: "heap_inv bl H (kheap_default s) s"
    and L: "tracked bl H (kheap_blocks s) L"
    using tr by (auto simp: heap_tracks_def)
  obtain heap' t H' where r: "kheap_free (kheap_default s) a s = Inr ((True, heap'), t)" "heap_inv bl H' heap' t"
    "tracked bl H' (kheap_blocks t) (L(a := None))" "heap_kept (kheap_default s) heap'"
    by (rule tracked_release [OF inv L a])
  have "heap_tracks (t\<lparr>kheap_default := heap'\<rparr>) (L(a := None))"
    unfolding heap_tracks_def
    using df r(2-4) by (intro conjI exI [of _ bl] exI [of _ H']) (simp_all add: default_heap_def heap_kept_def)
  then show ?thesis
    using r(1) by (simp add: kheap_kalloc_free_def)
qed

interpretation heap_clients: kalloc_heap "kheap_kalloc_malloc_real (i386_paging_interface kd)" heap_ok heap_request heap_owned
  kheap_kalloc_free heap_tracks
  for kd :: "'a heap_state_scheme kalloc_interface"
proof (unfold_locales, goal_cases)
  case (1 s L)
  then show ?case
    by (rule heap_tracks_ok)
next
  case (2 s)
  then show ?case
    by (simp add: heap_ok_tracks)
next
  case (3 s L a n)
  then obtain bl H where inv: "heap_inv bl H (kheap_default s) s" "tracked bl H (kheap_blocks s) L"
    by (auto simp: heap_tracks_def)
  have "heap_rel bl H (kheap_default s) (kheap_blocks s)"
    using inv(1) by (simp add: heap_inv_def)
  then show ?case
    using tracked_owned [OF _ inv(2)] 3(2) heap_owned_eq [OF inv(1)] by blast
next
  case (4 s L a n b m)
  then obtain bl H where inv: "heap_inv bl H (kheap_default s) s" "tracked bl H (kheap_blocks s) L"
    by (auto simp: heap_tracks_def)
  have "heap_rel bl H (kheap_default s) (kheap_blocks s)"
    using inv(1) by (simp add: heap_inv_def)
  then show ?case
    using tracked_apart [OF _ inv(2)] 4(2-4) by blast
next
  case (5 s L sz phys flags a p s')
  then have "heap_tracks s' (L(a \<mapsto> sz))"
    using heap_alloc_ok [OF "5"(1,2), of kd phys flags] by auto
  then show ?case
    using tracked_nonnull(1) [of s' "L(a \<mapsto> sz)" a sz] by simp
next
  case (6 s L a n)
  then show ?case
    by (rule heap_free_ok)
next
  case (7 sz)
  then show ?case
    by (simp add: heap_request_def)
next
  case (8 s L a n)
  then show ?case
    by (rule tracked_nonnull(2))
qed

text \<open>Owned memory is mapped.\<close>

lemma heap_owned_mapped:
  assumes "heap_ok s" and "x \<in> heap_owned s"
  shows "mapping s (of_nat (x div 4096)) \<noteq> None"
proof -
  obtain bl H where inv: "heap_inv bl H (kheap_default s) s"
    using assms(1) by (auto simp: heap_ok_def)
  obtain p b where p: "p \<in> set bl" "kheap_blocks s p = Some b" "unat p \<le> x" "(x - unat p) div unat (kb_section_size b) \<in> used_secs b"
    using assms(2) unfolding heap_owned_eq [OF inv] owned_in_def by blast
  have "heap_rel bl H (kheap_default s) (kheap_blocks s)"
    using inv by (simp add: heap_inv_def)
  then have "x \<in> block_bytes (kheap_blocks s) p"
    using owned_section p by blast
  then show ?thesis
    using inv p(1) by (simp add: heap_inv_def heap_backed_def)
qed

end
