(* ===== verification/Libsc_String.thy ===== *)
theory Libsc_String
  imports Prelude
begin

text \<open>
  The memory and string routines of the C library, \<^verbatim>\<open>libsc/string\<close>. They work on bytes at addresses;
  an address that belongs to no object has no byte, and touching it is a wild access. \<open>memset32\<close>
  runs on physical memory and is in theory Machine.
\<close>

type_synonym bytes = "uintptr_t \<rightharpoonup> u8"

definition rd :: "bytes \<Rightarrow> uintptr_t \<Rightarrow> u8 res" where
  "rd m a = (case m a of None \<Rightarrow> Inl Wild_access | Some v \<Rightarrow> Inr v)"

definition wr :: "bytes \<Rightarrow> uintptr_t \<Rightarrow> u8 \<Rightarrow> bytes res" where
  "wr m a v = (if m a = None then Inl Wild_access else Inr (m(a \<mapsto> v)))"

section \<open>Memory\<close>

definition memset :: "uintptr_t \<Rightarrow> u8 \<Rightarrow> size_t \<Rightarrow> bytes \<Rightarrow> bytes res" where
  "memset buf v n m = for_loop 0 n (\<lambda>i m. wr m (buf + i) v) m"

definition memcpy :: "uintptr_t \<Rightarrow> uintptr_t \<Rightarrow> size_t \<Rightarrow> bytes \<Rightarrow> bytes res" where
  "memcpy dst src n m = for_loop 0 n (\<lambda>i m. bindr (rd m (src + i)) (wr m (dst + i))) m"

text \<open>\<^verbatim>\<open>for (i = size; i != 0; i--) dst[i-1] = src[i-1]\<close>\<close>

fun copy_down :: "uintptr_t \<Rightarrow> uintptr_t \<Rightarrow> nat \<Rightarrow> bytes \<Rightarrow> bytes res" where
  "copy_down dst src 0 m = Inr m"
| "copy_down dst src (Suc i) m =
     bindr (rd m (src + of_nat i)) (\<lambda>v. bindr (wr m (dst + of_nat i) v) (copy_down dst src i))"

definition memmove :: "uintptr_t \<Rightarrow> uintptr_t \<Rightarrow> size_t \<Rightarrow> bytes \<Rightarrow> bytes res" where
  "memmove dst src n m =
     (if dst < src
      then for_loop 0 n (\<lambda>i m. bindr (rd m (src + i)) (wr m (dst + i))) m
      else copy_down dst src (unat n) m)"

definition memcmp :: "uintptr_t \<Rightarrow> uintptr_t \<Rightarrow> size_t \<Rightarrow> bytes \<Rightarrow> int res" where
  "memcmp a b n m =
     bindr (for_ret 0 n (\<lambda>i _. bindr (rd m (a + i)) (\<lambda>x. bindr (rd m (b + i)) (\<lambda>y.
              if x < y then Inr (Ret (-1)) else if y < x then Inr (Ret 1) else Inr (Next ())))) ())
       (\<lambda>c. case c of Next _ \<Rightarrow> Inr 0 | Ret r \<Rightarrow> Inr r)"

section \<open>Strings\<close>

partial_function (option) strlen_loop :: "uintptr_t \<Rightarrow> size_t \<Rightarrow> bytes \<Rightarrow> size_t res option" where
  "strlen_loop p result m =
     (case rd m (p + result) of
        Inl e \<Rightarrow> Some (Inl e)
      | Inr c \<Rightarrow> if c \<noteq> 0 then strlen_loop p (result + 1) m else Some (Inr result))"

definition strlen :: "uintptr_t \<Rightarrow> bytes \<Rightarrow> size_t res" where
  "strlen p m = or_diverge (strlen_loop p 0 m)"

text \<open>\<open>char\<close> is signed, so is the difference.\<close>

partial_function (option) strcmp_loop :: "uintptr_t \<Rightarrow> uintptr_t \<Rightarrow> bytes \<Rightarrow> int res option" where
  "strcmp_loop a b m =
     (case rd m a of
        Inl e \<Rightarrow> Some (Inl e)
      | Inr x \<Rightarrow>
          (case rd m b of
             Inl e \<Rightarrow> Some (Inl e)
           | Inr y \<Rightarrow> if x \<noteq> 0 \<and> x = y then strcmp_loop (a + 1) (b + 1) m else Some (Inr (sint x - sint y))))"

definition strcmp :: "uintptr_t \<Rightarrow> uintptr_t \<Rightarrow> bytes \<Rightarrow> int res" where
  "strcmp a b m = or_diverge (strcmp_loop a b m)"

partial_function (option) strcpy_loop :: "uintptr_t \<Rightarrow> uintptr_t \<Rightarrow> bytes \<Rightarrow> bytes res option" where
  "strcpy_loop dst src m =
     (case bindr (rd m src) (\<lambda>c. bindr (wr m dst c) (\<lambda>m. Inr (c, m))) of
        Inl e \<Rightarrow> Some (Inl e)
      | Inr (c, m) \<Rightarrow> if c \<noteq> 0 then strcpy_loop (dst + 1) (src + 1) m else Some (Inr m))"

definition strcpy :: "uintptr_t \<Rightarrow> uintptr_t \<Rightarrow> bytes \<Rightarrow> bytes res" where
  "strcpy dst src m = or_diverge (strcpy_loop dst src m)"

text \<open>\<^verbatim>\<open>while (n--) *dest++ = *src++\<close>: exactly \<open>n\<close> bytes, also past the end of the string.\<close>

fun strncpy_loop :: "uintptr_t \<Rightarrow> uintptr_t \<Rightarrow> nat \<Rightarrow> bytes \<Rightarrow> bytes res" where
  "strncpy_loop dst src 0 m = Inr m"
| "strncpy_loop dst src (Suc n) m =
     bindr (rd m src) (\<lambda>v. bindr (wr m dst v) (strncpy_loop (dst + 1) (src + 1) n))"

definition strncpy :: "uintptr_t \<Rightarrow> uintptr_t \<Rightarrow> size_t \<Rightarrow> bytes \<Rightarrow> bytes res" where
  "strncpy dst src n m = strncpy_loop dst src (unat n) m"

partial_function (option) strcat_loop :: "uintptr_t \<Rightarrow> uintptr_t \<Rightarrow> size_t \<Rightarrow> size_t \<Rightarrow> bytes \<Rightarrow> bytes res option" where
  "strcat_loop dst src i j m =
     (case rd m (src + j) of
        Inl e \<Rightarrow> Some (Inl e)
      | Inr c \<Rightarrow>
          if c \<noteq> 0
          then (case wr m (dst + (i + j)) c of Inl e \<Rightarrow> Some (Inl e) | Inr m \<Rightarrow> strcat_loop dst src i (j + 1) m)
          else Some (wr m (dst + (i + j)) 0))"

definition strcat :: "uintptr_t \<Rightarrow> uintptr_t \<Rightarrow> bytes \<Rightarrow> bytes res" where
  "strcat dst src m =
     bindr (or_diverge (strlen_loop dst 0 m)) (\<lambda>i. or_diverge (strcat_loop dst src i 0 m))"

section \<open>Copying\<close>

text \<open>The \<open>n\<close> bytes from \<open>p\<close> on exist and do not wrap around the address space.\<close>

definition valid_range :: "bytes \<Rightarrow> uintptr_t \<Rightarrow> nat \<Rightarrow> bool" where
  "valid_range m p n \<longleftrightarrow> unat p + n \<le> 4294967296 \<and> (\<forall>i<n. m (p + of_nat i) \<noteq> None)"

text \<open>\<open>m'\<close> is \<open>m\<close> with the \<open>n\<close> bytes from \<open>dst\<close> on replaced by those that \<open>m\<close> has from \<open>src\<close> on.\<close>

definition copied :: "uintptr_t \<Rightarrow> uintptr_t \<Rightarrow> nat \<Rightarrow> bytes \<Rightarrow> bytes \<Rightarrow> bool" where
  "copied dst src n m m' \<longleftrightarrow> (\<forall>i<n. m' (dst + of_nat i) = m (src + of_nat i)) \<and>
     (\<forall>a. (\<forall>i<n. a \<noteq> dst + of_nat i) \<longrightarrow> m' a = m a)"

lemma unat_ptr_add: "unat p + n \<le> 4294967296 \<Longrightarrow> i < n \<Longrightarrow> unat (p + of_nat i :: u32) = unat p + i"
  using unat_add_no_wrap [of p "of_nat i"] by (simp add: unat_of_nat_u32)

lemma ptr_add_inj:
  fixes p :: u32
  assumes "unat p + n \<le> 4294967296" and "i < n" and "j < n"
  shows "p + of_nat i = p + of_nat j \<longleftrightarrow> i = j"
  using unat_ptr_add [OF assms(1,2)] unat_ptr_add [OF assms(1,3)] by (metis add_left_cancel)

lemma rd_ok: "m a = Some v \<Longrightarrow> rd m a = Inr v"
  by (simp add: rd_def)

lemma wr_ok: "m a \<noteq> None \<Longrightarrow> wr m a v = Inr (m(a \<mapsto> v))"
  by (simp add: wr_def)

text \<open>Copying upwards is right when the source does not start below the destination.\<close>

lemma copied_up_step:
  assumes c: "copied dst src i m t" and i: "i < n" and s: "unat src + n \<le> 4294967296" and d: "unat dst + n \<le> 4294967296"
    and o: "dst \<le> src \<or> (\<forall>j<n. \<forall>k<n. src + of_nat j \<noteq> dst + of_nat k)"
  shows "t (src + of_nat i) = m (src + of_nat i)"
    and "copied dst src (Suc i) m (t(dst + of_nat i := m (src + of_nat i)))"
proof -
  have "src + of_nat i \<noteq> dst + of_nat k" if "k < i" for k
    using o
  proof
    assume "dst \<le> src"
    then have "unat dst + k < unat src + i"
      using that by (simp add: word_le_nat_alt)
    then show ?thesis
      using unat_ptr_add [OF s i] unat_ptr_add [OF d, of k] that i by auto
  qed (use that i in auto)
  then show "t (src + of_nat i) = m (src + of_nat i)"
    using c by (auto simp: copied_def)
  show "copied dst src (Suc i) m (t(dst + of_nat i := m (src + of_nat i)))"
    using c ptr_add_inj [OF d, of _ i] i by (auto simp: copied_def less_Suc_eq)
qed

lemma copy_up_ok:
  assumes s: "valid_range m src (unat n)" and d: "valid_range m dst (unat n)"
    and o: "dst \<le> src \<or> (\<forall>j<unat n. \<forall>k<unat n. src + of_nat j \<noteq> dst + of_nat k)"
  shows "\<exists>m'. for_loop 0 n (\<lambda>i m. bindr (rd m (src + i)) (wr m (dst + i))) m = Inr m' \<and> copied dst src (unat n) m m'"
proof (rule for_loop_rule [where I = "\<lambda>i t. copied dst src (unat i) m t"])
  show "copied dst src (unat 0) m m"
    by (simp add: copied_def)
next
  fix i t
  assume i: "i < n" and c: "copied dst src (unat i) m t"
  have ui: "unat i < unat n"
    using i by (simp add: word_less_nat_alt)
  have b: "unat src + unat n \<le> 4294967296" "unat dst + unat n \<le> 4294967296"
    using s d by (simp_all add: valid_range_def)
  have w: "of_nat (unat i) = i"
    by simp
  note st = copied_up_step [OF c ui b o, unfolded w]
  obtain v where v: "m (src + i) = Some v"
    using s ui w unfolding valid_range_def by (metis not_None_eq)
  have "dst + i \<noteq> dst + of_nat j" if "j < unat i" for j
    using ptr_add_inj [OF b(2) ui, of j, unfolded w] that ui by simp
  then have "t (dst + i) = m (dst + i)"
    using c by (simp add: copied_def)
  moreover have "m (dst + i) \<noteq> None"
    using d ui w unfolding valid_range_def by metis
  ultimately have "t (dst + i) \<noteq> None"
    by simp
  then show "\<exists>t'. bindr (rd t (src + i)) (wr t (dst + i)) = Inr t' \<and> copied dst src (unat (i + 1)) m t'"
    using st v by (simp add: rd_ok wr_ok unat_suc_less [OF i])
qed simp

text \<open>Copying downwards is right when the source does not start above the destination.\<close>

lemma copy_down_ok:
  assumes s: "valid_range m src n" and d: "valid_range m dst n" and o: "src \<le> dst"
    and i: "i \<le> n" and t: "\<And>j. i \<le> j \<Longrightarrow> j < n \<Longrightarrow> t (dst + of_nat j) = m (src + of_nat j)"
      "\<And>a. (\<forall>j<n. i \<le> j \<longrightarrow> a \<noteq> dst + of_nat j) \<Longrightarrow> t a = m a"
  shows "\<exists>m'. copy_down dst src i t = Inr m' \<and> copied dst src n m m'"
  using i t
proof (induction i arbitrary: t)
  case 0
  then show ?case
    by (auto simp: copied_def)
next
  case (Suc i)
  have b: "unat src + n \<le> 4294967296" "unat dst + n \<le> 4294967296"
    using s d by (simp_all add: valid_range_def)
  have ne: "src + of_nat i \<noteq> dst + of_nat j" if "Suc i \<le> j" "j < n" for j
    using unat_ptr_add [OF b(1), of i] unat_ptr_add [OF b(2), of j] that o by (auto simp: word_le_nat_alt)
  obtain v where v: "m (src + of_nat i) = Some v"
    using s Suc.prems(1) unfolding valid_range_def by (metis Suc_le_lessD not_None_eq)
  have r: "t (src + of_nat i) = Some v"
    using Suc.prems(3) [of "src + of_nat i"] ne v by simp
  have "dst + of_nat i \<noteq> dst + of_nat j" if "Suc i \<le> j" "j < n" for j
    using ptr_add_inj [OF b(2), of i j] that by simp
  then have "t (dst + of_nat i) = m (dst + of_nat i)"
    using Suc.prems(3) [of "dst + of_nat i"] by blast
  then have w: "wr t (dst + of_nat i) v = Inr (t(dst + of_nat i \<mapsto> v))"
    using d Suc.prems(1) by (intro wr_ok) (simp add: valid_range_def)
  have "\<exists>m'. copy_down dst src i (t(dst + of_nat i \<mapsto> v)) = Inr m' \<and> copied dst src n m m'"
  proof (rule Suc.IH)
    show "i \<le> n"
      using Suc.prems(1) by simp
    show "(t(dst + of_nat i \<mapsto> v)) (dst + of_nat j) = m (src + of_nat j)" if "i \<le> j" "j < n" for j
      using Suc.prems(2) [of j] v that by (cases "j = i") auto
    show "(t(dst + of_nat i \<mapsto> v)) a = m a" if "\<forall>j<n. i \<le> j \<longrightarrow> a \<noteq> dst + of_nat j" for a
      using Suc.prems(1,3) that by simp
  qed
  then show ?case
    using r w by (simp add: rd_ok)
qed

lemma memmove_ok:
  assumes "valid_range m src (unat n)" and "valid_range m dst (unat n)"
  shows "\<exists>m'. memmove dst src n m = Inr m' \<and> copied dst src (unat n) m m'"
proof (cases "dst < src")
  case True
  then show ?thesis
    using copy_up_ok [OF assms disjI1 [OF less_imp_le]] by (simp add: memmove_def)
next
  case False
  then have "\<exists>m'. copy_down dst src (unat n) m = Inr m' \<and> copied dst src (unat n) m m'"
    using copy_down_ok [OF assms, of "unat n" m] by (simp add: not_less)
  then show ?thesis
    using False by (simp add: memmove_def)
qed

section \<open>Strings in memory\<close>

text \<open>At \<open>p\<close> stand the bytes \<open>cs\<close>, none of them 0, and then a 0.\<close>

definition cstr :: "bytes \<Rightarrow> uintptr_t \<Rightarrow> u8 list \<Rightarrow> bool" where
  "cstr m p cs \<longleftrightarrow> length cs < 4294967296 \<and> 0 \<notin> set cs \<and>
     (\<forall>i<length cs. m (p + of_nat i) = Some (cs ! i)) \<and> m (p + of_nat (length cs)) = Some 0"

lemma cstr_Nil: "cstr m p [] \<longleftrightarrow> m p = Some 0"
  by (simp add: cstr_def)

lemma cstr_Cons: "cstr m p (c # cs) \<longleftrightarrow> m p = Some c \<and> c \<noteq> 0 \<and> cstr m (p + 1) cs \<and> Suc (length cs) < 4294967296"
  unfolding cstr_def by (auto simp: less_Suc_eq_0_disj algebra_simps)

lemma strlen_loop_ok:
  assumes "cstr m (p + r) cs"
  shows "strlen_loop p r m = Some (Inr (r + of_nat (length cs)))"
  using assms
proof (induction cs arbitrary: r)
  case Nil
  then show ?case
    by (subst strlen_loop.simps) (simp add: cstr_Nil rd_ok)
next
  case (Cons c cs)
  then have "m (p + r) = Some c" "c \<noteq> 0" "cstr m (p + (r + 1)) cs"
    by (simp_all add: cstr_Cons add.assoc)
  then show ?case
    using Cons.IH [of "r + 1"] by (subst strlen_loop.simps) (simp add: rd_ok)
qed

lemma strlen_ok: "cstr m p cs \<Longrightarrow> strlen p m = Inr (of_nat (length cs))"
  using strlen_loop_ok [of m p 0 cs] by (simp add: strlen_def)

text \<open>The result of a comparison: the difference of the first bytes that differ, the end included.\<close>

fun cmp :: "u8 list \<Rightarrow> u8 list \<Rightarrow> int" where
  "cmp [] [] = 0"
| "cmp [] (b # bs) = - sint b"
| "cmp (a # as) [] = sint a"
| "cmp (a # as) (b # bs) = (if a = b then cmp as bs else sint a - sint b)"

lemma strcmp_loop_ok:
  assumes "cstr m a as" and "cstr m b bs"
  shows "strcmp_loop a b m = Some (Inr (cmp as bs))"
  using assms
proof (induction as bs arbitrary: a b rule: cmp.induct)
  case 1
  then show ?case
    by (subst strcmp_loop.simps) (simp add: cstr_Nil rd_ok)
next
  case (2 y ys)
  then show ?case
    by (subst strcmp_loop.simps) (simp add: cstr_Nil cstr_Cons rd_ok)
next
  case (3 x xs)
  then show ?case
    by (subst strcmp_loop.simps) (simp add: cstr_Nil cstr_Cons rd_ok)
next
  case (4 x xs y ys)
  then show ?case
    by (subst strcmp_loop.simps) (auto simp: cstr_Cons rd_ok)
qed

lemma sint_inj: "sint (a :: 'a::len word) = sint b \<longleftrightarrow> a = b"
proof
  assume "sint a = sint b"
  then have "(of_int (sint a) :: 'a word) = of_int (sint b)"
    by simp
  then show "a = b"
    by simp
qed simp

lemma cmp_eq_0:
  assumes "0 \<notin> set as" and "0 \<notin> set bs"
  shows "cmp as bs = 0 \<longleftrightarrow> as = bs"
  using assms by (induction as bs rule: cmp.induct) (auto simp: sint_inj dest: sint_inj [of _ 0, simplified, THEN iffD1])

section \<open>Properties\<close>

text \<open>
  C33: Moving \<open>n\<close> bytes between two ranges that exist returns, puts into the destination what the source
  held before, also when the ranges overlap in either direction, and changes no other byte.
\<close>

theorem memmove_copies:
  assumes "valid_range m src (unat n)" and "valid_range m dst (unat n)"
  shows "\<exists>m'. memmove dst src n m = Inr m' \<and> (\<forall>i<unat n. m' (dst + of_nat i) = m (src + of_nat i)) \<and>
           (\<forall>a. (\<forall>i<unat n. a \<noteq> dst + of_nat i) \<longrightarrow> m' a = m a)"
  using memmove_ok [OF assms] unfolding copied_def .

theorem memmove_copies_witness:
  "\<exists>m'. memmove 0x101 0x100 2 [0x100 \<mapsto> 1, 0x101 \<mapsto> 2, 0x102 \<mapsto> 3] = Inr m' \<and> m' 0x101 = Some 1 \<and> m' 0x102 = Some 2"
proof -
  have "valid_range [0x100 \<mapsto> 1, 0x101 \<mapsto> 2, 0x102 \<mapsto> 3] 0x100 (unat (2::u32))"
    "valid_range [0x100 \<mapsto> 1, 0x101 \<mapsto> 2, 0x102 \<mapsto> 3] 0x101 (unat (2::u32))"
    by (auto simp: valid_range_def less_2_cases_iff)
  from memmove_copies [OF this] show ?thesis
    by (auto simp: less_2_cases_iff)
qed

text \<open>
  Comparing two strings in memory returns, without reading past their ends, 0 exactly when the
  strings are equal.
\<close>

theorem strcmp_decides_equality:
  assumes "cstr m a as" and "cstr m b bs"
  shows "\<exists>r. strcmp a b m = Inr r \<and> (r = 0 \<longleftrightarrow> as = bs)"
  using strcmp_loop_ok [OF assms] cmp_eq_0 [of as bs] assms by (simp add: strcmp_def cstr_def)

theorem strcmp_decides_equality_witness:
  "\<exists>r. strcmp 0x10 0x20 [0x10 \<mapsto> 97, 0x11 \<mapsto> 0, 0x20 \<mapsto> 97, 0x21 \<mapsto> 98, 0x22 \<mapsto> 0] = Inr r \<and> r \<noteq> 0"
  using strcmp_decides_equality [of "[0x10 \<mapsto> 97, 0x11 \<mapsto> 0, 0x20 \<mapsto> 97, 0x21 \<mapsto> 98, 0x22 \<mapsto> 0]" "0x10" "[97]" "0x20" "[97, 98]"]
  by (simp add: cstr_Nil cstr_Cons)

end
