(* ===== verification/Libsc_Stdlib.thy ===== *)
theory Libsc_Stdlib
  imports Libsc_String "HOL-Library.Signed_Division"
begin

text \<open>
  Number conversion, \<^verbatim>\<open>libsc/stdlib/itoa.c\<close>. An \<open>int\<close> is a 32-bit word read as a signed number;
  division and remainder truncate. \<open>abort()\<close> of the same directory is the outcome \<open>Aborted\<close>.
\<close>

type_synonym i32 = "32 word"

text \<open>\<^verbatim>\<open>'0' + d\<close>, kept in a \<open>char\<close>\<close>

definition digit_char :: "i32 \<Rightarrow> u8" where
  "digit_char d = ucast (d + 48)"

definition CHAR_MINUS :: u8 where "CHAR_MINUS = 45"

definition irem :: "i32 \<Rightarrow> int \<Rightarrow> i32" where "irem n k = word_of_int (sint n smod k)"
definition idiv :: "i32 \<Rightarrow> int \<Rightarrow> i32" where "idiv n k = word_of_int (sint n sdiv k)"

partial_function (option) reverse_loop :: "uintptr_t \<Rightarrow> i32 \<Rightarrow> i32 \<Rightarrow> bytes \<Rightarrow> bytes res option" where
  "reverse_loop s i j m =
     (if i <s j then
        (case bindr (rd m (s + i)) (\<lambda>c. bindr (rd m (s + j)) (\<lambda>d.
                bindr (wr m (s + i) d) (\<lambda>m. wr m (s + j) c))) of
           Inl e \<Rightarrow> Some (Inl e)
         | Inr m \<Rightarrow> reverse_loop s (i + 1) (j - 1) m)
      else Some (Inr m))"

definition reverse :: "uintptr_t \<Rightarrow> bytes \<Rightarrow> bytes res" where
  "reverse s m = bindr (strlen s m) (\<lambda>len. or_diverge (reverse_loop s 0 (len - 1) m))"

text \<open>The loop that writes the digits in reverse order; it returns the number of bytes written.\<close>

partial_function (option) itoa_loop :: "i32 \<Rightarrow> uintptr_t \<Rightarrow> i32 \<Rightarrow> bytes \<Rightarrow> (i32 \<times> bytes) res option" where
  "itoa_loop n s i m =
     (case wr m (s + i) (digit_char (irem n 10)) of
        Inl e \<Rightarrow> Some (Inl e)
      | Inr m \<Rightarrow> if 0 <s idiv n 10 then itoa_loop (idiv n 10) s (i + 1) m else Some (Inr (i + 1, m)))"

definition itoa :: "i32 \<Rightarrow> uintptr_t \<Rightarrow> bytes \<Rightarrow> bytes res" where
  "itoa n s m =
     (let sign = n; n = (if sign <s 0 then - n else n)
      in bindr (or_diverge (itoa_loop n s 0 m)) (\<lambda>(i, m).
         bindr (if sign <s 0 then bindr (wr m (s + i) CHAR_MINUS) (\<lambda>m. Inr (i + 1, m)) else Inr (i, m)) (\<lambda>(i, m).
         bindr (wr m (s + i) 0) (reverse s))))"

section \<open>Decimal numbers\<close>

text \<open>The digits of a number, least significant first, and the number that digits stand for.\<close>

fun rev_decimal :: "nat \<Rightarrow> u8 list" where
  "rev_decimal n = (48 + of_nat (n mod 10)) # (if 10 \<le> n then rev_decimal (n div 10) else [])"

declare rev_decimal.simps [simp del]

definition decimal :: "nat \<Rightarrow> u8 list" where
  "decimal n = rev (rev_decimal n)"

primrec rev_value :: "u8 list \<Rightarrow> nat" where
  "rev_value [] = 0"
| "rev_value (c # cs) = unat (c - 48) + 10 * rev_value cs"

definition decimal_value :: "u8 list \<Rightarrow> nat" where
  "decimal_value cs = rev_value (rev cs)"

lemma rev_decimal_value: "rev_value (rev_decimal n) = n"
proof (induction n rule: rev_decimal.induct)
  case (1 n)
  have "unat ((48 + of_nat (n mod 10) :: u8) - 48) = n mod 10"
    by (simp add: unat_of_nat)
  then show ?case
    using 1 by (subst rev_decimal.simps) auto
qed

lemma decimal_value_decimal: "decimal_value (decimal n) = n"
  by (simp add: decimal_def decimal_value_def rev_decimal_value)

lemma digit_bounds: "n < 10 \<Longrightarrow> 48 \<le> (48 + of_nat n :: u8) \<and> (48 + of_nat n :: u8) \<le> 57"
  by (auto simp: word_le_nat_alt unat_word_ariths unat_of_nat)

lemma rev_decimal_digits: "c \<in> set (rev_decimal n) \<Longrightarrow> 48 \<le> c \<and> c \<le> 57"
proof (induction n rule: rev_decimal.induct)
  case (1 n)
  then show ?case
    using digit_bounds [of "n mod 10"] by (subst (asm) (2) rev_decimal.simps) (auto split: if_splits)
qed

lemma rev_decimal_length:
  assumes "n < 10 ^ k" and "0 < k"
  shows "length (rev_decimal n) \<le> k"
  using assms
proof (induction n arbitrary: k rule: rev_decimal.induct)
  case (1 n)
  show ?case
  proof (cases "10 \<le> n")
    case True
    then obtain j where j: "k = Suc j" "0 < j"
      using "1.prems" by (cases k; cases "k = 1") auto
    then have "n div 10 < 10 ^ j"
      using "1.prems"(1) by (simp add: less_mult_imp_div_less mult.commute)
    then show ?thesis
      using "1.IH" [OF True] j True by (subst rev_decimal.simps) simp
  next
    case False
    then show ?thesis
      using "1.prems"(2) by (subst rev_decimal.simps) simp
  qed
qed

section \<open>Signed arithmetic on small numbers\<close>

lemma sint_small:
  fixes x :: i32
  assumes "unat x < 2147483648"
  shows "sint x = int (unat x)"
proof -
  have "int (unat x) < 2147483648"
    using assms by linarith
  then have "uint x < 2 ^ 31"
    by simp
  moreover have "- (2 ^ 31) \<le> uint x"
    by (rule order_trans [OF _ uint_ge_0]) simp
  ultimately have "signed_take_bit 31 (uint x) = uint x"
    by (intro signed_take_bit_int_eq_self)
  then show ?thesis
    by (simp add: sint_uint)
qed

lemma sless_small:
  fixes x y :: i32
  assumes "unat x < 2147483648" and "unat y < 2147483648"
  shows "x <s y \<longleftrightarrow> unat x < unat y"
  using assms word_less_nat_alt [of x y] word_less_def [of x y] by (simp add: word_sless_alt sint_small)

lemma int_sdiv_smod: "int k sdiv 10 = int (k div 10)" "int k smod 10 = int (k mod 10)"
  by (cases "k = 0"; simp add: signed_divide_int_def signed_modulo_int_def zdiv_int zmod_int minus_div_mult_eq_mod)+

lemma idiv_irem_small:
  assumes "unat n < 2147483648"
  shows "unat (irem n 10) = unat n mod 10" and "unat (idiv n 10) = unat n div 10"
proof -
  have q: "unat (word_of_int (int k) :: i32) = k" if "k < 4294967296" for k
    using that by (simp add: unat_of_nat_u32)
  show "unat (irem n 10) = unat n mod 10" and "unat (idiv n 10) = unat n div 10"
    using q [of "unat n mod 10"] q [of "unat n div 10"] assms
    by (simp_all only: irem_def idiv_def sint_small [OF assms] int_sdiv_smod)
qed

lemma digit_char_small:
  assumes "unat n < 2147483648"
  shows "digit_char (irem n 10) = 48 + of_nat (unat n mod 10)"
proof -
  have "unat (digit_char (irem n 10)) = (unat n mod 10 + 48) mod 4294967296 mod 256"
    using idiv_irem_small(1) [OF assms] by (simp add: digit_char_def unsigned_ucast_eq unat_word_ariths take_bit_eq_mod)
  moreover have "unat (48 + of_nat (unat n mod 10) :: u8) = unat n mod 10 + 48"
    by (simp add: unat_word_ariths unat_of_nat)
  ultimately show ?thesis
    by (simp add: word_unat_eq_iff)
qed

section \<open>Writing and reversing a buffer\<close>

text \<open>The bytes \<open>cs\<close> stand at \<open>p\<close>; \<open>m'\<close> differs from \<open>m\<close> only in the \<open>n\<close> bytes from \<open>p\<close> on.\<close>

definition content :: "bytes \<Rightarrow> uintptr_t \<Rightarrow> u8 list \<Rightarrow> bool" where
  "content m p cs \<longleftrightarrow> (\<forall>i<length cs. m (p + of_nat i) = Some (cs ! i))"

definition frame_from :: "uintptr_t \<Rightarrow> nat \<Rightarrow> bytes \<Rightarrow> bytes \<Rightarrow> bool" where
  "frame_from p n m m' \<longleftrightarrow> (\<forall>a. (\<forall>i<n. a \<noteq> p + of_nat i) \<longrightarrow> m' a = m a)"

lemma content_append:
  "content m p (cs @ ds) \<longleftrightarrow> content m p cs \<and> content m (p + of_nat (length cs)) ds"
proof -
  have "(\<forall>i<length cs + length ds. m (p + of_nat i) = Some ((cs @ ds) ! i)) \<longleftrightarrow>
      (\<forall>i<length cs. m (p + of_nat i) = Some (cs ! i)) \<and>
      (\<forall>i<length ds. m (p + of_nat (length cs + i)) = Some (ds ! i))"
    (is "?l \<longleftrightarrow> ?r")
  proof
    assume l: ?l
    show ?r
      using l [rule_format, of "length cs + _"] l by (auto simp: nth_append)
  next
    assume r: ?r
    show ?l
    proof (intro allI impI)
      fix i
      assume "i < length cs + length ds"
      then show "m (p + of_nat i) = Some ((cs @ ds) ! i)"
        using r r [THEN conjunct2, rule_format, of "i - length cs"] by (cases "i < length cs") (auto simp: nth_append)
    qed
  qed
  then show ?thesis
    by (simp add: content_def add.assoc)
qed

lemma cstr_content:
  "cstr m p cs \<longleftrightarrow> length cs < 4294967296 \<and> 0 \<notin> set cs \<and> content m p (cs @ [0])"
  unfolding content_append by (auto simp: cstr_def content_def)

lemma content_update:
  assumes "content m p cs" and "unat p + length cs \<le> 4294967296" and "j < length cs"
  shows "content (m(p + of_nat j \<mapsto> v)) p (cs[j := v])"
  using assms ptr_add_inj [OF assms(2)] by (auto simp: content_def nth_list_update)

lemma append_char:
  assumes c: "content m s cs" and s: "unat s + 12 \<le> 4294967296" and l: "length cs < 12"
  shows "content (m(s + of_nat (length cs) \<mapsto> v)) s (cs @ [v])"
    and "length cs < j \<Longrightarrow> j < 12 \<Longrightarrow> (m(s + of_nat (length cs) \<mapsto> v)) (s + of_nat j) = m (s + of_nat j)"
  using c l ptr_add_inj [OF s] unfolding content_append by (auto simp: content_def)

lemma frame_update:
  "frame_from p n m t \<Longrightarrow> j < n \<Longrightarrow> frame_from p n m (t(p + of_nat j := v))"
  by (auto simp: frame_from_def)

text \<open>One exchange, and the loop of exchanges from both ends.\<close>

text \<open>Reversing a stretch of a list by swapping its ends and reversing what is between them.\<close>

lemma reversed_swap:
  fixes cs :: "'a list"
  assumes ij: "i < j" "i + j + 1 = length cs" and cs1: "cs1 = cs[i := cs ! j, j := cs ! i]"
    and ds: "\<forall>k<length cs. ds ! k = (if Suc i \<le> k \<and> k \<le> j - 1 then cs1 ! (Suc i + (j - 1) - k) else cs1 ! k)"
    and k: "k < length cs"
  shows "ds ! k = (if i \<le> k \<and> k \<le> j then cs ! (i + j - k) else cs ! k)"
proof -
  have q: "cs1 ! q = (if q = j then cs ! i else if q = i then cs ! j else cs ! q)" if "q < length cs" for q
    using ij that by (simp add: cs1 nth_list_update)
  note dk = ds [rule_format, OF k]
  consider "k < i" | "k = i" | "i < k" "k < j" | "k = j" | "j < k"
    by linarith
  then show ?thesis
    using dk q [OF k] q [of "i + j - k"] ij by cases auto
qed

lemma reversed_middle:
  fixes cs :: "'a list"
  shows "\<not> i < j \<Longrightarrow> cs ! k = (if i \<le> k \<and> k \<le> j then cs ! (i + j - k) else cs ! k)"
  by (cases "k = i \<and> i = j") auto

text \<open>One round swaps two characters.\<close>

lemma reverse_loop_round:
  assumes c: "content m s cs" and b: "unat s + length cs \<le> 4294967296" "length cs < 2147483648" and ij: "i + j + 1 = length cs" "i < j"
  shows "\<exists>m'. reverse_loop s (of_nat i) (of_nat j) m = reverse_loop s (of_nat (Suc i)) (of_nat (j - 1)) m' \<and>
           content m' s (cs[i := cs ! j, j := cs ! i]) \<and> frame_from s (length cs) m m'"
proof -
  have i: "i < length cs" "j < length cs"
    using ij(1) by simp_all
  have "i < 4294967296" "j < 4294967296"
    using i b(2) by linarith+
  then have "unat (of_nat i :: i32) = i" "unat (of_nat j :: i32) = j"
    by (simp_all only: unat_of_nat_u32)
  then have sl: "(of_nat i :: i32) <s of_nat j"
    using i b(2) ij(2) sless_small [of "of_nat i" "of_nat j"] by simp
  define m1 where "m1 = m(s + of_nat i \<mapsto> cs ! j)"
  define m2 where "m2 = m1(s + of_nat j \<mapsto> cs ! i)"
  have "content m1 s (cs[i := cs ! j])"
    unfolding m1_def using c b(1) i(1) by (rule content_update)
  then have "content m2 s (cs[i := cs ! j, j := cs ! i])"
    unfolding m2_def using content_update [of m1 s "cs[i := cs ! j]" j "cs ! i"] b(1) i(2) by simp
  moreover have "frame_from s (length cs) m m2"
    unfolding m2_def m1_def using i by (intro frame_update) (simp_all add: frame_from_def)
  moreover have "m (s + of_nat i) = Some (cs ! i)" "m (s + of_nat j) = Some (cs ! j)"
    using c i by (simp_all add: content_def)
  then have "bindr (rd m (s + of_nat i)) (\<lambda>c. bindr (rd m (s + of_nat j)) (\<lambda>d.
      bindr (wr m (s + of_nat i) d) (\<lambda>m. wr m (s + of_nat j) c))) = Inr m2"
    by (simp add: rd_ok wr_ok m1_def m2_def)
  then have "reverse_loop s (of_nat i) (of_nat j) m = reverse_loop s (of_nat i + 1) (of_nat j - 1) m2"
    using sl by (subst reverse_loop.simps) simp
  moreover have "of_nat i + 1 = (of_nat (Suc i) :: i32)" "of_nat j - 1 = (of_nat (j - 1) :: i32)"
    using ij(2) by (simp_all add: of_nat_diff)
  ultimately show ?thesis
    by auto
qed

lemma reverse_loop_ok:
  assumes "content m s cs" and "unat s + length cs \<le> 4294967296" and "length cs < 2147483648" and "i + j + 1 = length cs"
  shows "\<exists>m' ds. reverse_loop s (of_nat i) (of_nat j) m = Some (Inr m') \<and> content m' s ds \<and> length ds = length cs \<and>
           frame_from s (length cs) m m' \<and> (\<forall>k<length cs. ds ! k = (if i \<le> k \<and> k \<le> j then cs ! (i + j - k) else cs ! k))"
  using assms
proof (induction "j - i" arbitrary: i j m cs rule: less_induct)
  case less
  show ?case
  proof (cases "i < j")
    case False
    have "i < 4294967296" "j < 4294967296"
      using less.prems by linarith+
    then have "unat (of_nat i :: i32) = i" "unat (of_nat j :: i32) = j"
      by (simp_all only: unat_of_nat_u32)
    then have "\<not> (of_nat i :: i32) <s of_nat j"
      using less.prems False sless_small [of "of_nat i" "of_nat j"] by simp
    then show ?thesis
      using reversed_middle [OF False, of cs] less.prems(1) by (subst reverse_loop.simps) (simp add: frame_from_def, blast)
  next
    case True
    define cs1 where "cs1 = cs[i := cs ! j, j := cs ! i]"
    obtain m2 where m2: "reverse_loop s (of_nat i) (of_nat j) m = reverse_loop s (of_nat (Suc i)) (of_nat (j - 1)) m2"
      "content m2 s cs1" "frame_from s (length cs) m m2"
      unfolding cs1_def using reverse_loop_round [OF less.prems True] by blast
    have l: "length cs1 = length cs"
      by (simp add: cs1_def)
    have "\<exists>m' ds. reverse_loop s (of_nat (Suc i)) (of_nat (j - 1)) m2 = Some (Inr m') \<and> content m' s ds \<and>
        length ds = length cs1 \<and> frame_from s (length cs1) m2 m' \<and>
        (\<forall>k<length cs1. ds ! k = (if Suc i \<le> k \<and> k \<le> j - 1 then cs1 ! (Suc i + (j - 1) - k) else cs1 ! k))"
      using less.prems True l m2(2) by (intro less.hyps) auto
    then obtain m' ds where m': "reverse_loop s (of_nat (Suc i)) (of_nat (j - 1)) m2 = Some (Inr m')" "content m' s ds"
      "length ds = length cs" "frame_from s (length cs) m2 m'"
      "\<forall>k<length cs. ds ! k = (if Suc i \<le> k \<and> k \<le> j - 1 then cs1 ! (Suc i + (j - 1) - k) else cs1 ! k)"
      unfolding l by blast
    have "frame_from s (length cs) m m'"
      using m2(3) m'(4) by (simp add: frame_from_def)
    moreover have "ds ! k = (if i \<le> k \<and> k \<le> j then cs ! (i + j - k) else cs ! k)" if "k < length cs" for k
      using less.prems(4) that by (intro reversed_swap [OF True _ _ m'(5)]) (simp_all add: cs1_def)
    ultimately show ?thesis
      using m'(1-3) m2(1) by auto
  qed
qed

lemma reverse_ok:
  assumes c: "cstr m s cs" and b: "unat s + length cs < 4294967296" "length cs < 2147483648" and ne: "cs \<noteq> []"
  shows "\<exists>m'. reverse s m = Inr m' \<and> cstr m' s (rev cs)"
proof -
  have l: "strlen s m = Inr (of_nat (length cs))"
    using c by (rule strlen_ok)
  obtain n where n: "length cs = Suc n"
    using ne by (cases cs) auto
  have ct: "content m s cs" "m (s + of_nat (length cs)) = Some 0" "0 \<notin> set cs"
    using c by (simp_all add: cstr_def content_def)
  obtain m' ds where m': "reverse_loop s (of_nat 0) (of_nat n) m = Some (Inr m')" "content m' s ds" "length ds = length cs"
    "frame_from s (length cs) m m'" "\<forall>k<length cs. ds ! k = (if 0 \<le> k \<and> k \<le> n then cs ! (0 + n - k) else cs ! k)"
    using reverse_loop_ok [OF ct(1) _ b(2), of 0 n] b(1) n by auto
  have ds: "ds = rev cs"
    using m'(3,5) n by (intro nth_equalityI) (auto simp: rev_nth)
  have "s + of_nat (length cs) \<noteq> s + of_nat i" if "i < length cs" for i
    using ptr_add_inj [of s "Suc (length cs)" "length cs" i] b(1) that by simp
  then have "m' (s + of_nat (length cs)) = Some 0"
    using m'(4) ct(2) by (simp add: frame_from_def)
  then have "cstr m' s (rev cs)"
    using m'(2) ds ct(3) c by (simp add: cstr_def content_def)
  moreover have "(of_nat (length cs) - 1 :: u32) = of_nat n"
    using n by simp
  ultimately show ?thesis
    using l m'(1) by (simp add: reverse_def)
qed

section \<open>Conversion\<close>

text \<open>A character in front of a string.\<close>

lemma frame_from_Cons:
  assumes "frame_from (p + 1) n (m(p \<mapsto> c)) m'" and "unat p + Suc n \<le> 4294967296"
  shows "frame_from p (Suc n) m m'" and "m' p = Some c"
proof -
  have sh: "p + 1 + of_nat j = p + of_nat (Suc j)" for j
    by simp
  have "p \<noteq> p + of_nat (Suc j)" if "j < n" for j
    using ptr_add_inj [OF assms(2), of 0 "Suc j"] that by simp
  then show "m' p = Some c"
    using assms(1) unfolding frame_from_def sh by (metis fun_upd_same)
  show "frame_from p (Suc n) m m'"
    unfolding frame_from_def
  proof (intro allI impI)
    fix a
    assume a: "\<forall>j<Suc n. a \<noteq> p + of_nat j"
    then have "\<forall>j<n. a \<noteq> p + 1 + of_nat j" "a \<noteq> p"
      using a [rule_format, of 0] a [rule_format, of "Suc _"] unfolding sh by auto
    then show "m' a = m a"
      using assms(1) unfolding frame_from_def by (metis fun_upd_other)
  qed
qed

lemma idiv_positive:
  assumes "unat n < 2147483648"
  shows "0 <s idiv n 10 \<longleftrightarrow> 10 \<le> unat n"
proof -
  note q = idiv_irem_small(2) [OF assms]
  have "unat (idiv n 10) < 2147483648"
    using q assms div_le_dividend [of "unat n" 10] by linarith
  then show ?thesis
    using sless_small [of 0 "idiv n 10"] q by (simp add: div_greater_zero_iff)
qed

lemma itoa_loop_ok:
  assumes n: "unat n < 2147483648" and d: "rev_decimal (unat n) = cs"
    and b: "unat s + unat i + length cs \<le> 4294967296"
    and v: "\<And>j. j < length cs \<Longrightarrow> m (s + i + of_nat j) \<noteq> None"
  shows "\<exists>m'. itoa_loop n s i m = Some (Inr (i + of_nat (length cs), m')) \<and> content m' (s + i) cs \<and>
           frame_from (s + i) (length cs) m m'"
  using assms
proof (induction "unat n" arbitrary: n i m cs rule: less_induct)
  case less
  let ?m = "m(s + i \<mapsto> 48 + of_nat (unat n mod 10))"
  note q = idiv_irem_small(2) [OF less.prems(1)]
  have cs: "cs = (48 + of_nat (unat n mod 10)) # (if 10 \<le> unat n then rev_decimal (unat n div 10) else [])"
    using less.prems(2) by (subst (asm) rev_decimal.simps) simp
  have w: "wr m (s + i) (digit_char (irem n 10)) = Inr ?m"
    using less.prems(4) [of 0] cs digit_char_small [OF less.prems(1)] by (simp add: wr_ok)
  note pos = idiv_positive [OF less.prems(1)]
  show ?case
  proof (cases "10 \<le> unat n")
    case False
    then show ?thesis
      using w pos cs by (subst itoa_loop.simps) (auto simp: content_def frame_from_def)
  next
    case True
    obtain ds where ds: "rev_decimal (unat n div 10) = ds" "cs = (48 + of_nat (unat n mod 10)) # ds"
      using True cs by simp
    have "0 < length ds"
      using ds(1) by (subst (asm) rev_decimal.simps) auto
    then have "unat i + unat (1 :: i32) < 4294967296"
      using less.prems(3) unfolding ds(2) by (simp only: list.size unat_1)
    then have i1: "unat (i + 1) = unat i + 1"
      using unat_add_no_wrap [of i 1] by simp
    have b: "unat (s + i) + length cs \<le> 4294967296"
      using less.prems(3) unat_add_no_wrap [of s i] ds(2) by simp
    have sh: "s + (i + 1) + of_nat j = s + i + of_nat (Suc j)" for j
      by simp
    have "\<exists>m'. itoa_loop (idiv n 10) s (i + 1) ?m = Some (Inr (i + 1 + of_nat (length ds), m')) \<and>
        content m' (s + (i + 1)) ds \<and> frame_from (s + (i + 1)) (length ds) ?m m'"
    proof (rule less.hyps)
      show "unat (idiv n 10) < unat n" "unat (idiv n 10) < 2147483648" "rev_decimal (unat (idiv n 10)) = ds"
        using True q ds(1) less.prems(1) by auto
      show "unat s + unat (i + 1) + length ds \<le> 4294967296"
        using less.prems(3) ds(2) i1 by simp
      show "?m (s + (i + 1) + of_nat j) \<noteq> None" if "j < length ds" for j
        using less.prems(4) [of "Suc j"] ds(2) that unfolding sh by simp
    qed
    then obtain m' where m': "itoa_loop (idiv n 10) s (i + 1) ?m = Some (Inr (i + 1 + of_nat (length ds), m'))"
      "content m' (s + (i + 1)) ds" "frame_from (s + (i + 1)) (length ds) ?m m'"
      by blast
    have fr: "frame_from (s + i) (length cs) m m'" "m' (s + i) = Some (48 + of_nat (unat n mod 10))"
      using frame_from_Cons [of "s + i" "length ds" m _ m'] m'(3) b ds(2) by (simp_all add: add.assoc)
    moreover have "content m' (s + i) cs"
      using fr(2) m'(2) ds(2) content_append [of m' "s + i" "[48 + of_nat (unat n mod 10)]" ds] by (simp add: content_def add.assoc)
    ultimately show ?thesis
      using w pos True m'(1) ds(2) by (subst itoa_loop.simps) (simp add: algebra_simps)
  qed
qed

text \<open>What \<open>itoa\<close> is to write for a number.\<close>

definition signed_decimal :: "i32 \<Rightarrow> u8 list" where
  "signed_decimal n = (if n <s 0 then CHAR_MINUS # decimal (unat (- n)) else decimal (unat n))"

lemma rev_decimal_nonzero: "0 \<notin> set (rev_decimal n)"
  using rev_decimal_digits [of 0 n] by auto

lemma sless_0_iff: "n <s 0 \<longleftrightarrow> 2147483648 \<le> unat n" for n :: i32
proof (cases "unat n < 2147483648")
  case True
  then show ?thesis
    using sless_small [of n 0] by (simp add: not_le)
next
  case False
  then have "2147483648 \<le> int (unat n)"
    by linarith
  then have "2 ^ 31 \<le> uint n"
    by simp
  then have "signed_take_bit 31 (uint n) \<le> uint n - 2 ^ Suc 31"
    by (rule signed_take_bit_int_less_eq)
  also have "uint n - 2 ^ Suc 31 < 0"
    using uint_lt2p [of n] by simp
  finally have "signed_take_bit 31 (uint n) < 0" .
  then have "sint n < 0"
    by (simp add: sint_uint)
  then show ?thesis
    using False by (simp add: word_sless_alt)
qed

lemma unat_uminus: "n \<noteq> 0 \<Longrightarrow> unat (- n) = 4294967296 - unat n" for n :: i32
proof -
  assume "n \<noteq> 0"
  then have p: "0 < unat n" "unat n < 4294967296"
    using unat_u32_less [of n] by (simp_all add: unat_gt_0)
  have "- n = of_nat (4294967296 - unat n)"
    using p by (simp add: of_nat_diff)
  then show ?thesis
    using p by (simp only: unat_of_nat_u32)
qed

lemma itoa_ok:
  assumes n: "n \<noteq> 0x80000000" and s: "unat s + 12 \<le> 4294967296" and v: "\<And>j. j < 12 \<Longrightarrow> m (s + of_nat j) \<noteq> None"
  shows "\<exists>m'. itoa n s m = Inr m' \<and> cstr m' s (signed_decimal n)"
proof -
  define k where "k = (if n <s 0 then - n else n)"
  have n': "unat n \<noteq> 2147483648"
    using n by (auto simp: word_unat_eq_iff)
  have k: "unat k < 2147483648"
  proof (cases "n <s 0")
    case True
    then have "2147483648 \<le> unat n" "n \<noteq> 0"
      by (auto simp: sless_0_iff)
    then show ?thesis
      using True n' unat_uminus [of n] by (simp add: k_def)
  qed (simp add: k_def sless_0_iff)
  define cs where "cs = rev_decimal (unat k)"
  have len: "0 < length cs" "length cs \<le> 10"
    using rev_decimal_length [of "unat k" 10] k rev_decimal.simps [of "unat k"] unfolding cs_def by simp_all
  obtain m1 where m1: "itoa_loop k s 0 m = Some (Inr (of_nat (length cs), m1))" "content m1 s cs" "frame_from s (length cs) m m1"
    using itoa_loop_ok [OF k, of cs s 0 m] s v len(2) by (auto simp: cs_def)
  have valid: "m1 (s + of_nat j) \<noteq> None" if "j < 12" for j
  proof (cases "j < length cs")
    case True
    then show ?thesis
      using m1(2) by (simp add: content_def)
  next
    case False
    have "s + of_nat j \<noteq> s + of_nat i" if "i < length cs" for i
      using ptr_add_inj [OF s, of j i] \<open>j < 12\<close> that len(2) False by auto
    then show ?thesis
      using m1(3) v [OF that] by (simp add: frame_from_def)
  qed
  define tl where "tl = (if n <s 0 then [CHAR_MINUS] else [])"
  obtain m2 where m2: "(if n <s 0 then bindr (wr m1 (s + of_nat (length cs)) CHAR_MINUS) (\<lambda>m. Inr (of_nat (length cs) + 1, m))
      else Inr (of_nat (length cs), m1)) = Inr (of_nat (length (cs @ tl)) :: i32, m2)" "content m2 s (cs @ tl)"
      "m2 (s + of_nat (length (cs @ tl))) \<noteq> None"
    using append_char(1) [OF m1(2) s, of CHAR_MINUS] append_char(2) [OF m1(2) s, of "Suc (length cs)" CHAR_MINUS] valid [of "length cs"] valid [of "Suc (length cs)"] len(2) m1(2)
    by (cases "n <s 0") (simp_all add: tl_def wr_ok algebra_simps)
  obtain m3 where m3: "wr m2 (s + of_nat (length (cs @ tl))) 0 = Inr m3" "content m3 s ((cs @ tl) @ [0])"
    using append_char(1) [OF m2(2) s, of 0] m2(3) len(2) by (auto simp: tl_def wr_ok split: if_splits)
  have "0 \<notin> set (cs @ tl)"
    using rev_decimal_nonzero [of "unat k"] by (simp add: cs_def tl_def CHAR_MINUS_def)
  then have "cstr m3 s (cs @ tl)"
    using m3(2) len(2) by (simp add: cstr_content tl_def)
  then obtain m' where m': "reverse s m3 = Inr m'" "cstr m' s (rev (cs @ tl))"
    using reverse_ok [of m3 s "cs @ tl"] s len by (auto simp: tl_def split: if_splits)
  have "rev (cs @ tl) = signed_decimal n"
    by (simp add: signed_decimal_def tl_def cs_def k_def decimal_def)
  then show ?thesis
    using m1(1) m2(1) m3(1) m' by (cases "n <s 0") (simp_all add: itoa_def Let_def k_def)
qed

section \<open>Properties\<close>

text \<open>The value of what \<open>itoa\<close> writes: digits, with a minus sign in front of a negative number.\<close>

definition signed_value :: "u8 list \<Rightarrow> int" where
  "signed_value cs = (case cs of [] \<Rightarrow> 0
     | c # ds \<Rightarrow> if c = CHAR_MINUS then - int (decimal_value ds) else int (decimal_value cs))"

lemma signed_value_decimal:
  assumes "n \<noteq> 0x80000000"
  shows "signed_value (signed_decimal n) = sint n"
proof (cases "n <s 0")
  case True
  have "sint n = - int (unat (- n))"
  proof -
    have u: "2147483648 \<le> unat n" "n \<noteq> 0"
      using True by (auto simp: sless_0_iff)
    then have "unat n \<noteq> 2147483648"
      using assms by (auto simp: word_unat_eq_iff)
    then have "unat (- n) < 2147483648"
      using u unat_uminus [of n] by simp
    then have "sint (- n) = int (unat (- n))"
      by (rule sint_small)
    moreover have "sint (- n) = - sint n"
    proof -
      have "- (2 ^ 31) < sint n"
        using assms sint_inj [of n "0x80000000"] sint_ge [of n] by (simp add: order_less_le)
      then show ?thesis
        using sint_lt [of n] by (simp add: sint_word_minus) (intro signed_take_bit_int_eq_self, simp_all)
    qed
    ultimately show ?thesis
      by linarith
  qed
  then show ?thesis
    using True by (simp add: signed_decimal_def signed_value_def decimal_value_decimal)
next
  case False
  then have u: "unat n < 2147483648"
    by (simp add: sless_0_iff)
  obtain c ds where c: "decimal (unat n) = c # ds"
    by (cases "decimal (unat n)") (use rev_decimal.simps [of "unat n"] in \<open>auto simp: decimal_def\<close>)
  then have "c \<in> set (rev_decimal (unat n))"
    by (metis decimal_def list.set_intros(1) set_rev)
  then have "c \<noteq> CHAR_MINUS"
    using rev_decimal_digits [of c "unat n"] by (auto simp: CHAR_MINUS_def)
  then show ?thesis
    using False u c decimal_value_decimal [of "unat n"] sint_small [OF u] by (simp add: signed_decimal_def signed_value_def)
qed

text \<open>
  C34: For every number but the least one, \<open>itoa\<close> with a buffer of twelve bytes returns and leaves in
  it a string of decimal digits, with a sign for a negative number, that reads back as the number.
\<close>

theorem itoa_roundtrip:
  assumes "n \<noteq> 0x80000000" and "valid_range m s 12"
  shows "\<exists>m' cs. itoa n s m = Inr m' \<and> cstr m' s cs \<and> signed_value cs = sint n"
  using itoa_ok [OF assms(1), of s m] signed_value_decimal [OF assms(1)] assms(2) by (auto simp: valid_range_def)

theorem itoa_roundtrip_witness:
  "\<exists>m' cs. itoa (- 42) 0x100 (\<lambda>_. Some 0) = Inr m' \<and> cstr m' 0x100 cs \<and> signed_value cs = - 42"
  using itoa_roundtrip [of "- 42" "\<lambda>_. Some 0" "0x100"] by (simp add: valid_range_def)

end
