(* ===== verification/Vga.thy ===== *)
theory Vga
  imports Prelude
begin

text \<open>
  The text-mode display driver, \<^verbatim>\<open>kernel/drivers/vga/textmode.c\<close>: colours, the cursor, writing and
  scrolling. Video memory is what the processor sees at \<^verbatim>\<open>0xB8000\<close> to \<^verbatim>\<open>0xBFFFF\<close>; an access outside
  it is a wild access. Bytes sent to I/O ports are recorded in the order they are sent. The driver
  is shown to implement a screen of cells with a linear cursor.
\<close>

section \<open>State\<close>

type_synonym cstring = "u8 list"

text \<open>The bytes of a string literal (its terminating zero left out).\<close>

definition lit :: "string \<Rightarrow> cstring" where
  "lit cs = map of_char cs"

definition CHAR_NL :: u8 where "CHAR_NL = 10"
definition CHAR_SPACE :: u8 where "CHAR_SPACE = 32"

datatype vga_color =
    COLOR_BLACK | COLOR_BLUE | COLOR_GREEN | COLOR_CYAN | COLOR_RED | COLOR_MAGENTA | COLOR_BROWN
  | COLOR_LIGHT_GREY | COLOR_DARK_GREY | COLOR_LIGHT_BLUE | COLOR_LIGHT_GREEN | COLOR_LIGHT_CYAN
  | COLOR_LIGHT_RED | COLOR_LIGHT_MAGENTA | COLOR_LIGHT_BROWN | COLOR_WHITE

fun color_code :: "vga_color \<Rightarrow> u32" where
  "color_code COLOR_BLACK = 0"
| "color_code COLOR_BLUE = 1"
| "color_code COLOR_GREEN = 2"
| "color_code COLOR_CYAN = 3"
| "color_code COLOR_RED = 4"
| "color_code COLOR_MAGENTA = 5"
| "color_code COLOR_BROWN = 6"
| "color_code COLOR_LIGHT_GREY = 7"
| "color_code COLOR_DARK_GREY = 8"
| "color_code COLOR_LIGHT_BLUE = 9"
| "color_code COLOR_LIGHT_GREEN = 10"
| "color_code COLOR_LIGHT_CYAN = 11"
| "color_code COLOR_LIGHT_RED = 12"
| "color_code COLOR_LIGHT_MAGENTA = 13"
| "color_code COLOR_LIGHT_BROWN = 14"
| "color_code COLOR_WHITE = 15"

definition VGA_WIDTH :: size_t where "VGA_WIDTH = 80"
definition VGA_HEIGHT :: size_t where "VGA_HEIGHT = 25"

text \<open>\<open>vram\<close> is the 16-bit cell at each even address of video memory.\<close>

record vga_state =
  port_writes :: "(u16 \<times> u8) list"
  vram :: "uintptr_t \<Rightarrow> u16"
  vga_textmode_row :: size_t
  vga_textmode_column :: size_t
  vga_textmode_color :: u8
  vga_textmode_buffer :: uintptr_t

definition outportb :: "u16 \<Rightarrow> u8 \<Rightarrow> 'a vga_state_scheme \<Rightarrow> 'a vga_state_scheme" where
  "outportb port data s = s\<lparr>port_writes := port_writes s @ [(port, data)]\<rparr>"

text \<open>What the ports answer is up to the machine, \<open>ports\<close>.\<close>

definition inportb :: "(u16 \<Rightarrow> u8) \<Rightarrow> u16 \<Rightarrow> u8" where
  "inportb ports port = ports port"

text \<open>\<^verbatim>\<open>vga_textmode_buffer[i]\<close>, read and written\<close>

definition vga_slot :: "size_t \<Rightarrow> 'a vga_state_scheme \<Rightarrow> uintptr_t" where
  "vga_slot i s = vga_textmode_buffer s + 2 * i"

definition in_vram :: "uintptr_t \<Rightarrow> bool" where
  "in_vram a \<longleftrightarrow> 0xB8000 \<le> a \<and> a < 0xC0000"

definition vga_get :: "size_t \<Rightarrow> 'a vga_state_scheme \<Rightarrow> u16 res" where
  "vga_get i s = (if in_vram (vga_slot i s) then Inr (vram s (vga_slot i s)) else Inl Wild_access)"

definition vga_put :: "size_t \<Rightarrow> u16 \<Rightarrow> 'a vga_state_scheme \<Rightarrow> 'a vga_state_scheme res" where
  "vga_put i v s = (if in_vram (vga_slot i s) then Inr (s\<lparr>vram := (vram s)(vga_slot i s := v)\<rparr>) else Inl Wild_access)"

section \<open>Operations\<close>

definition make_color :: "vga_color \<Rightarrow> vga_color \<Rightarrow> u8" where
  "make_color fg bg = ucast (color_code fg OR push_bit 4 (color_code bg))"

text \<open>\<open>char\<close> is signed: a byte of 0x80 or more is extended with ones into the colour half.\<close>

definition make_vgaentry :: "u8 \<Rightarrow> u8 \<Rightarrow> u16" where
  "make_vgaentry c color = (scast c :: u16) OR push_bit 8 (ucast color)"

definition vga_textmode_setcolor :: "u8 \<Rightarrow> 'a vga_state_scheme \<Rightarrow> 'a vga_state_scheme" where
  "vga_textmode_setcolor color s = s\<lparr>vga_textmode_color := color\<rparr>"

definition vga_textmode_initialize :: "'a vga_state_scheme \<Rightarrow> 'a vga_state_scheme res" where
  "vga_textmode_initialize s =
     (let s = s\<lparr>vga_textmode_row := 0, vga_textmode_column := 0\<rparr>;
          s = vga_textmode_setcolor (make_color COLOR_LIGHT_GREY COLOR_BLACK) s;
          s = s\<lparr>vga_textmode_buffer := 0xB8000\<rparr>
      in for_loop 0 VGA_HEIGHT (\<lambda>y. for_loop 0 VGA_WIDTH (\<lambda>x s.
           let index = y * VGA_WIDTH + x
           in vga_put index (make_vgaentry CHAR_SPACE (vga_textmode_color s)) s)) s)"

definition vga_textmode_putentryat :: "u8 \<Rightarrow> u8 \<Rightarrow> size_t \<Rightarrow> size_t \<Rightarrow> 'a vga_state_scheme \<Rightarrow> 'a vga_state_scheme res" where
  "vga_textmode_putentryat c color x y s =
     (let index = y * VGA_WIDTH + x in vga_put index (make_vgaentry c color) s)"

definition vga_textmode_scroll :: "'a vga_state_scheme \<Rightarrow> 'a vga_state_scheme res" where
  "vga_textmode_scroll s =
     bindr (for_loop 0 VGA_HEIGHT (\<lambda>y. for_loop 0 VGA_WIDTH (\<lambda>x s.
              let index = y * VGA_WIDTH + x; nextrow_index = index + VGA_WIDTH
              in if y = VGA_HEIGHT
                 then vga_put index (make_vgaentry CHAR_SPACE (vga_textmode_color s)) s
                 else bindr (vga_get nextrow_index s) (\<lambda>v. vga_put index v s))) s)
       (\<lambda>s. Inr (s\<lparr>vga_textmode_row := VGA_HEIGHT - 1, vga_textmode_column := 0\<rparr>))"

text \<open>The four port writes that move the hardware cursor.\<close>

definition vga_move_cursor :: "size_t \<Rightarrow> 'a vga_state_scheme \<Rightarrow> 'a vga_state_scheme" where
  "vga_move_cursor cur_pos s =
     outportb 0x3D5 (ucast cur_pos) (outportb 0x3D4 15
       (outportb 0x3D5 (ucast (drop_bit 8 cur_pos)) (outportb 0x3D4 14 s)))"

text \<open>\<open>++vga_textmode_row\<close>\<close>

definition vga_next_row :: "'a vga_state_scheme \<Rightarrow> 'a vga_state_scheme" where
  "vga_next_row s = s\<lparr>vga_textmode_row := vga_textmode_row s + 1\<rparr>"

definition vga_textmode_putchar :: "u8 \<Rightarrow> 'a vga_state_scheme \<Rightarrow> 'a vga_state_scheme res" where
  "vga_textmode_putchar c s =
     bindr (if c = CHAR_NL
            then Inr ((vga_next_row s)\<lparr>vga_textmode_column := 0\<rparr>)
            else bindr (vga_textmode_putentryat c (vga_textmode_color s) (vga_textmode_column s) (vga_textmode_row s) s) (\<lambda>s.
                   let s = s\<lparr>vga_textmode_column := vga_textmode_column s + 1\<rparr>
                   in if vga_textmode_column s = VGA_WIDTH
                      then Inr (vga_next_row (s\<lparr>vga_textmode_column := 0\<rparr>))
                      else Inr s)) (\<lambda>s.
     bindr (if vga_textmode_row s = VGA_HEIGHT then vga_textmode_scroll s else Inr s) (\<lambda>s.
     let cur_pos = vga_textmode_row s * 80 + vga_textmode_column s
     in Inr (vga_move_cursor cur_pos s)))"

text \<open>A string argument is the bytes of the object it points at; the string ends at the first zero.\<close>

definition vga_textmode_writestring :: "cstring \<Rightarrow> 'a vga_state_scheme \<Rightarrow> 'a vga_state_scheme res" where
  "vga_textmode_writestring data s =
     (let datalen = length (takeWhile (\<lambda>c. c \<noteq> 0) data)
      in for_loop 0 (of_nat datalen) (\<lambda>i. vga_textmode_putchar (data ! unat i)) s)"

definition vga_textmode_clear :: "'a vga_state_scheme \<Rightarrow> 'a vga_state_scheme res" where
  "vga_textmode_clear s =
     (let s = s\<lparr>vga_textmode_row := 0, vga_textmode_column := 0\<rparr>;
          s = vga_textmode_setcolor (make_color COLOR_LIGHT_GREY COLOR_BLACK) s
      in bindr (for_loop 0 VGA_HEIGHT (\<lambda>y. for_loop 0 VGA_WIDTH (\<lambda>x s.
                  let index = y * VGA_WIDTH + x
                  in vga_put index (make_vgaentry CHAR_SPACE (vga_textmode_color s)) s)) s)
           (\<lambda>s. Inr (vga_move_cursor 0 s)))"

text \<open>The buffer is an array; reading past its end is a wild access. The counter has 16 bits.\<close>

definition vga_textmode_writebuffer :: "u16 list \<Rightarrow> u16 \<Rightarrow> 'a vga_state_scheme \<Rightarrow> 'a vga_state_scheme res" where
  "vga_textmode_writebuffer newbuffer newbuffer_length s =
     for_loop 0 (ucast newbuffer_length) (\<lambda>i s.
       if unat i < length newbuffer then vga_put i (newbuffer ! unat i) s else Inl Wild_access) s"

section \<open>Cells of video memory\<close>

definition vga_ready :: "'a vga_state_scheme \<Rightarrow> bool" where
  "vga_ready s \<longleftrightarrow> vga_textmode_buffer s = 0xB8000"

text \<open>The 16-bit cells of video memory, by index.\<close>

definition vga_cells :: "'a vga_state_scheme \<Rightarrow> nat \<Rightarrow> u16" where
  "vga_cells s i = (if i < 16384 then vram s (0xB8000 + 2 * of_nat i) else 0)"

lemma vga_cells_update [simp]:
  "vga_cells (s\<lparr>port_writes := w\<rparr>) = vga_cells s"
  "vga_cells (s\<lparr>vga_textmode_row := r\<rparr>) = vga_cells s"
  "vga_cells (s\<lparr>vga_textmode_column := r\<rparr>) = vga_cells s"
  "vga_cells (s\<lparr>vga_textmode_color := c\<rparr>) = vga_cells s"
  "vga_cells (s\<lparr>vga_textmode_buffer := b\<rparr>) = vga_cells s"
  by (simp_all add: vga_cells_def fun_eq_iff)

lemma unat_vga_addr: "i < 16384 \<Longrightarrow> unat (0xB8000 + 2 * of_nat i :: u32) = 753664 + 2 * i"
  using unat_mult_no_wrap [of 2 "of_nat i"] unat_add_no_wrap [of "0xB8000" "2 * of_nat i"]
  by (simp add: unat_of_nat_u32)

lemma vga_addr_inj:
  "i < 16384 \<Longrightarrow> j < 16384 \<Longrightarrow> (0xB8000 + 2 * of_nat i :: u32) = 0xB8000 + 2 * of_nat j \<longleftrightarrow> i = j"
  using unat_vga_addr [of i] unat_vga_addr [of j] by (metis add_left_cancel mult_left_cancel zero_neq_numeral)

lemma in_vram_addr: "i < 16384 \<Longrightarrow> in_vram (0xB8000 + 2 * of_nat i)"
  using unat_vga_addr [of i] by (simp add: in_vram_def word_le_nat_alt word_less_nat_alt)

lemma vga_get_ok: "vga_ready s \<Longrightarrow> unat i < 16384 \<Longrightarrow> vga_get i s = Inr (vga_cells s (unat i))"
  using in_vram_addr [of "unat i"] by (simp add: vga_get_def vga_slot_def vga_ready_def vga_cells_def)

lemma vga_put_ok:
  assumes "vga_ready s" and "unat i < 16384"
  obtains v where "vga_put i e s = Inr (s\<lparr>vram := v\<rparr>)" and "vga_cells (s\<lparr>vram := v\<rparr>) = (vga_cells s)(unat i := e)"
proof
  let ?v = "(vram s)(0xB8000 + 2 * i := e)"
  show "vga_put i e s = Inr (s\<lparr>vram := ?v\<rparr>)"
    using assms in_vram_addr [of "unat i"] by (simp add: vga_put_def vga_slot_def vga_ready_def)
  show "vga_cells (s\<lparr>vram := ?v\<rparr>) = (vga_cells s)(unat i := e)"
    using assms(2) vga_addr_inj [of _ "unat i"] by (auto simp: vga_cells_def fun_eq_iff)
qed

text \<open>A loop that stores one entry after the other into the first cells.\<close>

lemma vga_fill_loop:
  assumes "vga_ready s" and "unat n \<le> 16384"
    and "\<And>i v. i < n \<Longrightarrow> vga_cells (s\<lparr>vram := v\<rparr>) = (\<lambda>j. if j < unat i then F j else vga_cells s j) \<Longrightarrow>
           body i (s\<lparr>vram := v\<rparr>) = vga_put i (F (unat i)) (s\<lparr>vram := v\<rparr>)"
  obtains v where "for_loop 0 n body s = Inr (s\<lparr>vram := v\<rparr>)"
    and "vga_cells (s\<lparr>vram := v\<rparr>) = (\<lambda>j. if j < unat n then F j else vga_cells s j)"
proof -
  let ?I = "\<lambda>i t. \<exists>v. t = s\<lparr>vram := v\<rparr> \<and> vga_cells t = (\<lambda>j. if j < unat i then F j else vga_cells s j)"
  have "\<exists>t. for_loop 0 n body s = Inr t \<and> ?I n t"
  proof (rule for_loop_rule)
    show "?I 0 s"
      by (intro exI [of _ "vram s"]) simp
  next
    fix i t
    assume i: "i < n" and "?I i t"
    then obtain v where v: "t = s\<lparr>vram := v\<rparr>" "vga_cells t = (\<lambda>j. if j < unat i then F j else vga_cells s j)"
      by blast
    have "vga_ready t" "unat i < 16384"
      using assms(1,2) i v(1) by (simp_all add: vga_ready_def word_less_nat_alt)
    then obtain w where w: "vga_put i (F (unat i)) t = Inr (t\<lparr>vram := w\<rparr>)"
        "vga_cells (t\<lparr>vram := w\<rparr>) = (vga_cells t)(unat i := F (unat i))"
      using vga_put_ok by blast
    have "vga_cells (t\<lparr>vram := w\<rparr>) = (\<lambda>j. if j < unat (i + 1) then F j else vga_cells s j)"
      using unat_suc_less [OF i] by (auto simp: w(2) v(2) fun_eq_iff less_Suc_eq)
    then show "\<exists>s'. body i t = Inr s' \<and> ?I (i + 1) s'"
      using assms(3) [OF i] v w(1) by auto
  qed simp
  then show thesis
    using that by blast
qed

lemma vga_raster: "for_loop 0 VGA_HEIGHT (\<lambda>y. for_loop 0 VGA_WIDTH (\<lambda>x. body (y * VGA_WIDTH + x))) s = for_loop 0 2000 body s"
  using raster_loop [of VGA_HEIGHT VGA_WIDTH body s] by (simp add: VGA_WIDTH_def VGA_HEIGHT_def)

text \<open>Filling the screen with blanks.\<close>

lemma vga_blank_loop:
  assumes "vga_ready s"
  obtains v where "for_loop 0 VGA_HEIGHT (\<lambda>y. for_loop 0 VGA_WIDTH (\<lambda>x s.
      vga_put (y * VGA_WIDTH + x) (make_vgaentry CHAR_SPACE (vga_textmode_color s)) s)) s = Inr (s\<lparr>vram := v\<rparr>)"
    and "vga_cells (s\<lparr>vram := v\<rparr>) =
      (\<lambda>j. if j < 2000 then make_vgaentry CHAR_SPACE (vga_textmode_color s) else vga_cells s j)"
proof (rule vga_fill_loop [OF assms, of 2000 "\<lambda>_. make_vgaentry CHAR_SPACE (vga_textmode_color s)"
      "\<lambda>i s. vga_put i (make_vgaentry CHAR_SPACE (vga_textmode_color s)) s"])
qed (use that in \<open>simp_all add: vga_raster [of "\<lambda>i s. vga_put i (make_vgaentry CHAR_SPACE (vga_textmode_color s)) s"]\<close>)

section \<open>The screen\<close>

text \<open>
  What the driver implements: a cursor that runs through the 2000 cells of the screen line by line,
  and, when it leaves the last line, all lines moved up by one. The line that comes in at the bottom
  is what video memory holds past the screen.
\<close>

type_synonym screen = "nat \<times> (nat \<Rightarrow> u16)"

definition screen_scroll :: "screen \<Rightarrow> screen" where
  "screen_scroll = (\<lambda>(p, cells). (1920, \<lambda>i. if i < 2000 then cells (i + 80) else cells i))"

definition screen_putchar :: "u8 \<Rightarrow> u8 \<Rightarrow> screen \<Rightarrow> screen" where
  "screen_putchar color c = (\<lambda>(p, cells).
     let t = (if c = CHAR_NL then ((p div 80 + 1) * 80, cells) else (p + 1, cells(p := make_vgaentry c color)))
     in if fst t = 2000 then screen_scroll t else t)"

definition vga_screen :: "'a vga_state_scheme \<Rightarrow> screen" where
  "vga_screen s = (80 * unat (vga_textmode_row s) + unat (vga_textmode_column s), vga_cells s)"

definition vga_ok :: "'a vga_state_scheme \<Rightarrow> bool" where
  "vga_ok s \<longleftrightarrow> vga_ready s \<and> vga_textmode_row s < VGA_HEIGHT \<and> vga_textmode_column s < VGA_WIDTH"

text \<open>What is sent to the display controller to show the cursor at a position.\<close>

definition cursor_ports :: "nat \<Rightarrow> (u16 \<times> u8) list" where
  "cursor_ports p = [(0x3D4, 14), (0x3D5, of_nat (p div 256)), (0x3D4, 15), (0x3D5, of_nat p)]"

lemma vga_move_cursor_ports:
  "vga_move_cursor pos s = s\<lparr>port_writes := port_writes s @ cursor_ports (unat pos)\<rparr>"
proof -
  have byte: "(ucast x :: u8) = of_nat (unat x)" for x :: u32
    by (simp add: unsigned_of_nat)
  have "unat (drop_bit 8 pos) = unat pos div 256"
    by (simp add: drop_bit_eq_div unat_div)
  then have "(ucast (drop_bit 8 pos) :: u8) = of_nat (unat pos div 256)"
    using byte [of "drop_bit 8 pos"] by simp
  moreover note byte [of pos]
  ultimately show ?thesis
    by (simp add: vga_move_cursor_def outportb_def cursor_ports_def)
qed

section \<open>The driver implements the screen\<close>

lemma vga_initialize_ok:
  obtains t where "vga_textmode_initialize s = Inr t" and "vga_ok t"
    and "vga_screen t = (0, \<lambda>i. if i < 2000 then make_vgaentry CHAR_SPACE 7 else vga_cells s i)"
    and "port_writes t = port_writes s" and "vga_state.more t = vga_state.more s"
proof -
  define s0 where "s0 = s\<lparr>vga_textmode_row := 0, vga_textmode_column := 0, vga_textmode_color := 7, vga_textmode_buffer := 0xB8000\<rparr>"
  have "vga_ready s0"
    by (simp add: s0_def vga_ready_def)
  then obtain v where v: "for_loop 0 VGA_HEIGHT (\<lambda>y. for_loop 0 VGA_WIDTH (\<lambda>x s.
      vga_put (y * VGA_WIDTH + x) (make_vgaentry CHAR_SPACE (vga_textmode_color s)) s)) s0 = Inr (s0\<lparr>vram := v\<rparr>)"
    "vga_cells (s0\<lparr>vram := v\<rparr>) =
      (\<lambda>j. if j < 2000 then make_vgaentry CHAR_SPACE (vga_textmode_color s0) else vga_cells s0 j)"
    by (rule vga_blank_loop)
  have "vga_textmode_initialize s = Inr (s0\<lparr>vram := v\<rparr>)"
    using v(1) by (simp add: vga_textmode_initialize_def vga_textmode_setcolor_def make_color_def s0_def Let_def)
  moreover have "vga_ok (s0\<lparr>vram := v\<rparr>)"
    by (simp add: vga_ok_def vga_ready_def s0_def VGA_HEIGHT_def VGA_WIDTH_def)
  moreover have "vga_screen (s0\<lparr>vram := v\<rparr>) = (0, \<lambda>i. if i < 2000 then make_vgaentry CHAR_SPACE 7 else vga_cells s i)"
    using v(2) by (simp add: vga_screen_def s0_def cong: if_cong)
  ultimately show thesis
    using that by (simp add: s0_def)
qed

lemma vga_clear_ok:
  assumes "vga_ready s"
  obtains t where "vga_textmode_clear s = Inr t" and "vga_ok t"
    and "vga_screen t = (0, \<lambda>i. if i < 2000 then make_vgaentry CHAR_SPACE 7 else vga_cells s i)"
    and "port_writes t = port_writes s @ cursor_ports 0" and "vga_state.more t = vga_state.more s"
proof -
  define s0 where "s0 = s\<lparr>vga_textmode_row := 0, vga_textmode_column := 0, vga_textmode_color := 7\<rparr>"
  have r: "vga_ready s0"
    using assms by (simp add: s0_def vga_ready_def)
  then obtain v where v: "for_loop 0 VGA_HEIGHT (\<lambda>y. for_loop 0 VGA_WIDTH (\<lambda>x s.
      vga_put (y * VGA_WIDTH + x) (make_vgaentry CHAR_SPACE (vga_textmode_color s)) s)) s0 = Inr (s0\<lparr>vram := v\<rparr>)"
    "vga_cells (s0\<lparr>vram := v\<rparr>) =
      (\<lambda>j. if j < 2000 then make_vgaentry CHAR_SPACE (vga_textmode_color s0) else vga_cells s0 j)"
    by (rule vga_blank_loop)
  define t where "t = vga_move_cursor 0 (s0\<lparr>vram := v\<rparr>)"
  have "vga_textmode_clear s = Inr t"
    using v(1) by (simp add: vga_textmode_clear_def vga_textmode_setcolor_def make_color_def s0_def t_def Let_def)
  moreover have "vga_ok t"
    using r by (simp add: vga_ok_def vga_ready_def s0_def t_def vga_move_cursor_ports VGA_HEIGHT_def VGA_WIDTH_def)
  moreover have "vga_screen t = (0, \<lambda>i. if i < 2000 then make_vgaentry CHAR_SPACE 7 else vga_cells s i)"
    using v(2) by (simp add: vga_screen_def s0_def t_def vga_move_cursor_ports cong: if_cong)
  ultimately show thesis
    using that by (simp add: s0_def t_def vga_move_cursor_ports)
qed

lemma vga_scroll_ok:
  assumes "vga_ready s"
  obtains v where "vga_textmode_scroll s = Inr (s\<lparr>vram := v, vga_textmode_row := 24, vga_textmode_column := 0\<rparr>)"
    and "vga_cells (s\<lparr>vram := v\<rparr>) = (\<lambda>i. if i < 2000 then vga_cells s (i + 80) else vga_cells s i)"
proof -
  let ?body = "\<lambda>i s. bindr (vga_get (i + VGA_WIDTH) s) (\<lambda>v. vga_put i v s)"
  have eq: "for_loop 0 VGA_HEIGHT (\<lambda>y. for_loop 0 VGA_WIDTH (\<lambda>x s.
              let index = y * VGA_WIDTH + x; nextrow_index = index + VGA_WIDTH
              in if y = VGA_HEIGHT
                 then vga_put index (make_vgaentry CHAR_SPACE (vga_textmode_color s)) s
                 else bindr (vga_get nextrow_index s) (\<lambda>v. vga_put index v s))) s = for_loop 0 2000 ?body s"
    unfolding vga_raster [symmetric] by (intro for_loop_cong) (auto simp: Let_def)
  have step: "?body i (s\<lparr>vram := v\<rparr>) = vga_put i (vga_cells s (unat i + 80)) (s\<lparr>vram := v\<rparr>)"
    if i: "i < 2000" and c: "vga_cells (s\<lparr>vram := v\<rparr>) = (\<lambda>j. if j < unat i then vga_cells s (j + 80) else vga_cells s j)" for i v
  proof -
    have "unat (i + VGA_WIDTH) = unat i + 80" "unat i < 2000"
      using i unat_add_no_wrap [of i 80] by (simp_all add: word_less_nat_alt VGA_WIDTH_def)
    then show ?thesis
      using assms c vga_get_ok [of "s\<lparr>vram := v\<rparr>" "i + VGA_WIDTH"] by (simp add: vga_ready_def)
  qed
  obtain v where "for_loop 0 2000 ?body s = Inr (s\<lparr>vram := v\<rparr>)"
      "vga_cells (s\<lparr>vram := v\<rparr>) = (\<lambda>j. if j < 2000 then vga_cells s (j + 80) else vga_cells s j)"
    using vga_fill_loop [OF assms, of 2000 "\<lambda>j. vga_cells s (j + 80)" ?body] step by auto
  then show thesis
    using that eq by (simp add: vga_textmode_scroll_def VGA_HEIGHT_def)
qed

text \<open>The outcome of a step that shows one character or a string: the screen, the cursor, the ports.\<close>

definition vga_step :: "(screen \<Rightarrow> screen) \<Rightarrow> 'a vga_state_scheme \<Rightarrow> 'a vga_state_scheme \<Rightarrow> bool" where
  "vga_step f s t \<longleftrightarrow> vga_ok t \<and> vga_screen t = f (vga_screen s) \<and>
     vga_textmode_color t = vga_textmode_color s \<and> vga_state.more t = vga_state.more s"

lemma unat_cursor:
  assumes "vga_ok s"
  shows "unat (vga_textmode_row s * VGA_WIDTH + vga_textmode_column s) = fst (vga_screen s)"
    and "unat (vga_textmode_row s * 80 + vga_textmode_column s) = fst (vga_screen s)"
    and "fst (vga_screen s) < 2000"
    and "unat (vga_textmode_row s) = fst (vga_screen s) div 80"
    and "unat (vga_textmode_column s) = fst (vga_screen s) mod 80"
proof -
  have b: "unat (vga_textmode_row s) < 25" "unat (vga_textmode_column s) < 80"
    using assms by (simp_all add: vga_ok_def word_less_nat_alt VGA_HEIGHT_def VGA_WIDTH_def)
  then show "unat (vga_textmode_row s * 80 + vga_textmode_column s) = fst (vga_screen s)"
    using unat_mult_no_wrap [of "vga_textmode_row s" 80] unat_add_no_wrap [of "vga_textmode_row s * 80" "vga_textmode_column s"]
    by (simp add: vga_screen_def)
  then show "unat (vga_textmode_row s * VGA_WIDTH + vga_textmode_column s) = fst (vga_screen s)"
    by (simp add: VGA_WIDTH_def)
  show "fst (vga_screen s) < 2000" "unat (vga_textmode_row s) = fst (vga_screen s) div 80"
      "unat (vga_textmode_column s) = fst (vga_screen s) mod 80"
    using b by (simp_all add: vga_screen_def)
qed

text \<open>The end of \<open>vga_textmode_putchar\<close>: scroll if the cursor has left the last line, show the cursor.\<close>

lemma vga_settle:
  assumes "vga_ready s" and "unat (vga_textmode_row s) \<le> 25" and "unat (vga_textmode_column s) < 80"
    and "vga_textmode_row s = VGA_HEIGHT \<Longrightarrow> vga_textmode_column s = 0"
  obtains t where "bindr (if vga_textmode_row s = VGA_HEIGHT then vga_textmode_scroll s else Inr s) (\<lambda>s.
      Inr (vga_move_cursor (vga_textmode_row s * 80 + vga_textmode_column s) s)) = Inr t"
    and "vga_step (\<lambda>u. if fst u = 2000 then screen_scroll u else u) s t"
    and "port_writes t = port_writes s @ cursor_ports (fst (vga_screen t))"
proof (cases "vga_textmode_row s = VGA_HEIGHT")
  case True
  obtain v where v: "vga_textmode_scroll s = Inr (s\<lparr>vram := v, vga_textmode_row := 24, vga_textmode_column := 0\<rparr>)"
      "vga_cells (s\<lparr>vram := v\<rparr>) = (\<lambda>i. if i < 2000 then vga_cells s (i + 80) else vga_cells s i)"
    using vga_scroll_ok [OF assms(1)] by blast
  show thesis
    by (rule that [of "s\<lparr>vram := v, vga_textmode_row := 24, vga_textmode_column := 0, port_writes := port_writes s @ cursor_ports 1920\<rparr>"])
      (use True v assms in \<open>simp_all add: vga_move_cursor_ports vga_step_def vga_ok_def vga_ready_def VGA_HEIGHT_def VGA_WIDTH_def
         vga_screen_def screen_scroll_def cong: if_cong\<close>)
next
  case False
  then have r: "unat (vga_textmode_row s) < 25"
    using assms(2) by (simp add: VGA_HEIGHT_def word_unat_eq_iff)
  then have ok: "vga_ok s"
    using assms by (simp add: vga_ok_def word_less_nat_alt VGA_HEIGHT_def VGA_WIDTH_def)
  note c = unat_cursor [OF this]
  show thesis
    by (rule that [of "s\<lparr>port_writes := port_writes s @ cursor_ports (fst (vga_screen s))\<rparr>"])
      (use False ok c(2,3) in \<open>simp_all add: vga_move_cursor_ports vga_step_def vga_ok_def vga_ready_def vga_screen_def\<close>)
qed

text \<open>The cursor after a character, before the screen is scrolled.\<close>

lemma vga_advance:
  assumes "vga_ok s"
  obtains t where "(if c = CHAR_NL
            then Inr ((vga_next_row s)\<lparr>vga_textmode_column := 0\<rparr>)
            else bindr (vga_textmode_putentryat c (vga_textmode_color s) (vga_textmode_column s) (vga_textmode_row s) s) (\<lambda>s.
                   let s = s\<lparr>vga_textmode_column := vga_textmode_column s + 1\<rparr>
                   in if vga_textmode_column s = VGA_WIDTH
                      then Inr (vga_next_row (s\<lparr>vga_textmode_column := 0\<rparr>))
                      else Inr s)) = Inr t"
    and "vga_ready t" and "unat (vga_textmode_row t) \<le> 25" and "unat (vga_textmode_column t) < 80"
    and "vga_textmode_row t = VGA_HEIGHT \<Longrightarrow> vga_textmode_column t = 0"
    and "vga_screen t = (case vga_screen s of (p, cells) \<Rightarrow>
           if c = CHAR_NL then ((p div 80 + 1) * 80, cells) else (p + 1, cells(p := make_vgaentry c (vga_textmode_color s))))"
    and "vga_textmode_color t = vga_textmode_color s" and "vga_state.more t = vga_state.more s" and "port_writes t = port_writes s"
proof -
  note c = unat_cursor [OF assms]
  have b: "unat (vga_textmode_row s) < 25" "unat (vga_textmode_column s) < 80" and r: "vga_ready s"
    using assms by (simp_all add: vga_ok_def word_less_nat_alt VGA_HEIGHT_def VGA_WIDTH_def)
  have row: "unat (vga_textmode_row s + 1) = Suc (unat (vga_textmode_row s))"
    using b unat_add_no_wrap [of "vga_textmode_row s" 1] by simp
  have col: "unat (vga_textmode_column s + 1) = Suc (unat (vga_textmode_column s))"
    using b unat_add_no_wrap [of "vga_textmode_column s" 1] by simp
  show thesis
  proof (cases "c = CHAR_NL")
    case True
    show thesis
      by (rule that [of "(vga_next_row s)\<lparr>vga_textmode_column := 0\<rparr>"])
        (use True b r row in \<open>simp_all add: vga_next_row_def vga_ready_def vga_screen_def\<close>)
  next
    case False
    obtain v where v: "vga_textmode_putentryat c (vga_textmode_color s) (vga_textmode_column s) (vga_textmode_row s) s = Inr (s\<lparr>vram := v\<rparr>)"
        "vga_cells (s\<lparr>vram := v\<rparr>) = (vga_cells s)(fst (vga_screen s) := make_vgaentry c (vga_textmode_color s))"
      using vga_put_ok [OF r, of "vga_textmode_row s * VGA_WIDTH + vga_textmode_column s" "make_vgaentry c (vga_textmode_color s)"] c(1,3)
      by (auto simp: vga_textmode_putentryat_def Let_def)
    show thesis
    proof (cases "vga_textmode_column s + 1 = VGA_WIDTH")
      case True
      then have "unat (vga_textmode_column s) = 79"
        using col by (simp add: VGA_WIDTH_def)
      then show thesis
        by (intro that [of "vga_next_row (s\<lparr>vram := v, vga_textmode_column := 0\<rparr>)"])
          (use True False b r row v in \<open>simp_all add: vga_next_row_def vga_ready_def vga_screen_def\<close>)
    next
      case wrap: False
      then have "unat (vga_textmode_column s) \<noteq> 79"
        using col by (auto simp: VGA_WIDTH_def word_unat_eq_iff)
      then show thesis
        by (intro that [of "s\<lparr>vram := v, vga_textmode_column := vga_textmode_column s + 1\<rparr>"])
          (use wrap False b r col v in \<open>auto simp: vga_ready_def vga_screen_def VGA_HEIGHT_def\<close>)
    qed
  qed
qed

lemma vga_putchar_ok:
  assumes "vga_ok s"
  shows "\<exists>t. vga_textmode_putchar c s = Inr t \<and> vga_step (screen_putchar (vga_textmode_color s) c) s t \<and>
    port_writes t = port_writes s @ cursor_ports (fst (vga_screen t))"
proof -
  obtain u where u: "(if c = CHAR_NL
            then Inr ((vga_next_row s)\<lparr>vga_textmode_column := 0\<rparr>)
            else bindr (vga_textmode_putentryat c (vga_textmode_color s) (vga_textmode_column s) (vga_textmode_row s) s) (\<lambda>s.
                   let s = s\<lparr>vga_textmode_column := vga_textmode_column s + 1\<rparr>
                   in if vga_textmode_column s = VGA_WIDTH
                      then Inr (vga_next_row (s\<lparr>vga_textmode_column := 0\<rparr>))
                      else Inr s)) = Inr u"
    "vga_ready u" "unat (vga_textmode_row u) \<le> 25" "unat (vga_textmode_column u) < 80"
    "vga_textmode_row u = VGA_HEIGHT \<Longrightarrow> vga_textmode_column u = 0"
    and screen: "vga_screen u = (case vga_screen s of (p, cells) \<Rightarrow>
           if c = CHAR_NL then ((p div 80 + 1) * 80, cells) else (p + 1, cells(p := make_vgaentry c (vga_textmode_color s))))"
    and keep: "vga_textmode_color u = vga_textmode_color s" "vga_state.more u = vga_state.more s" "port_writes u = port_writes s"
    using vga_advance [OF assms] by blast
  obtain t where t: "bindr (if vga_textmode_row u = VGA_HEIGHT then vga_textmode_scroll u else Inr u) (\<lambda>s.
      Inr (vga_move_cursor (vga_textmode_row s * 80 + vga_textmode_column s) s)) = Inr t"
    "vga_step (\<lambda>u. if fst u = 2000 then screen_scroll u else u) u t" "port_writes t = port_writes u @ cursor_ports (fst (vga_screen t))"
    using vga_settle [OF u(2-5)] by blast
  have "vga_textmode_putchar c s = Inr t"
    unfolding vga_textmode_putchar_def u(1) using t(1) by (simp add: Let_def)
  moreover have "vga_step (screen_putchar (vga_textmode_color s) c) s t"
    using t(2) screen keep by (simp add: vga_step_def screen_putchar_def split_beta Let_def)
  ultimately show ?thesis
    using t(3) keep by simp
qed

section \<open>Strings\<close>

text \<open>One action for each byte of a list, in order.\<close>

primrec fold_res :: "('x \<Rightarrow> 's \<Rightarrow> 's res) \<Rightarrow> 'x list \<Rightarrow> 's \<Rightarrow> 's res" where
  "fold_res f [] s = Inr s"
| "fold_res f (x # xs) s = bindr (f x s) (fold_res f xs)"

lemma fold_res_append: "fold_res f (xs @ ys) s = bindr (fold_res f xs s) (fold_res f ys)"
  by (induction xs arbitrary: s) (simp_all add: bindr_def split: sum.splits)

lemma for_loop_list_from:
  assumes "length xs < 4294967296" and "k \<le> length xs"
  shows "for_loop (of_nat k) (of_nat (length xs)) (\<lambda>i. f (xs ! unat i)) s = fold_res f (drop k xs) s"
  using assms(2)
proof (induction "length xs - k" arbitrary: k s)
  case 0
  then show ?case
    by simp
next
  case (Suc n)
  then have k: "k < length xs"
    by simp
  then have "(of_nat k :: u32) < of_nat (length xs)"
    using assms(1) by (simp add: word_less_nat_alt unat_of_nat_u32)
  moreover have "drop k xs = xs ! k # drop (Suc k) xs"
    using k by (simp add: Cons_nth_drop_Suc)
  moreover have "for_loop (of_nat k + 1) (of_nat (length xs)) (\<lambda>i. f (xs ! unat i)) t = fold_res f (drop (Suc k) xs) t" for t
    using Suc.hyps(1) [of "Suc k" t] Suc.hyps(2) k by (simp add: add.commute)
  ultimately show ?case
    using k assms(1) by (cases "f (xs ! k) s") (simp_all add: for_loop_step unat_of_nat_u32)
qed

lemma for_loop_list:
  "length xs < 4294967296 \<Longrightarrow> for_loop 0 (of_nat (length xs)) (\<lambda>i. f (xs ! unat i)) s = fold_res f xs s"
  using for_loop_list_from [of xs 0 f s] by simp

lemma vga_writestring_fold:
  assumes "length data < 4294967296"
  shows "vga_textmode_writestring data s = fold_res vga_textmode_putchar (takeWhile (\<lambda>c. c \<noteq> 0) data) s"
proof -
  let ?t = "takeWhile (\<lambda>c. c \<noteq> 0) data"
  have len: "length ?t < 4294967296"
    using assms length_takeWhile_le [of _ data] by (rule le_less_trans [rotated])
  have "for_loop 0 (of_nat (length ?t)) (\<lambda>i. vga_textmode_putchar (data ! unat i)) s =
      for_loop 0 (of_nat (length ?t)) (\<lambda>i. vga_textmode_putchar (?t ! unat i)) s"
    by (rule for_loop_cong) (use len in \<open>simp add: takeWhile_nth word_less_nat_alt unat_of_nat_u32\<close>)
  then show ?thesis
    using for_loop_list [OF len] by (simp add: vga_textmode_writestring_def Let_def)
qed

lemma vga_fold_ok:
  assumes "vga_ok s"
  shows "\<exists>t. fold_res vga_textmode_putchar cs s = Inr t \<and> vga_step (fold (screen_putchar (vga_textmode_color s)) cs) s t"
  using assms
proof (induction cs arbitrary: s)
  case Nil
  then show ?case
    by (simp add: vga_step_def)
next
  case (Cons c cs)
  obtain u where u: "vga_textmode_putchar c s = Inr u" "vga_step (screen_putchar (vga_textmode_color s) c) s u"
    using vga_putchar_ok [OF Cons.prems] by blast
  then obtain t where "fold_res vga_textmode_putchar cs u = Inr t" "vga_step (fold (screen_putchar (vga_textmode_color u)) cs) u t"
    using Cons.IH [of u] by (auto simp: vga_step_def)
  then show ?case
    using u by (auto simp: vga_step_def)
qed

section \<open>Properties\<close>

text \<open>A display that has just been cleared, with the cursor at the start of the last line.\<close>

definition sample_vga :: vga_state where
  "sample_vga = \<lparr>port_writes = [], vram = \<lambda>_. 0x0720, vga_textmode_row = 24, vga_textmode_column = 0,
     vga_textmode_color = 7, vga_textmode_buffer = 0xB8000\<rparr>"

text \<open>
  C24: Writing a string with the cursor on the screen never touches memory outside the display, leaves
  the cursor on the screen, and has on the cells and the cursor exactly the effect of putting the
  characters one after the other into a screen that moves up when the cursor leaves its last line.
\<close>

theorem vga_writestring_refines:
  assumes "vga_ok s" and "length data < 4294967296"
  shows "\<exists>t. vga_textmode_writestring data s = Inr t \<and> vga_ok t \<and>
    vga_screen t = fold (screen_putchar (vga_textmode_color s)) (takeWhile (\<lambda>c. c \<noteq> 0) data) (vga_screen s)"
  using vga_fold_ok [OF assms(1), of "takeWhile (\<lambda>c. c \<noteq> 0) data"] vga_writestring_fold [OF assms(2), of s] by (auto simp: vga_step_def)

theorem vga_writestring_refines_witness:
  "\<exists>t. vga_textmode_writestring (lit ''hi'' @ [10, 0]) sample_vga = Inr t \<and> vga_ok t \<and> fst (vga_screen t) = 1920"
proof -
  have "vga_ok sample_vga"
    by (simp add: vga_ok_def vga_ready_def sample_vga_def VGA_HEIGHT_def VGA_WIDTH_def)
  moreover have "fst (fold (screen_putchar 7) [0x68, 0x69, 10] (1920, vga_cells sample_vga)) = 1920"
    by (simp add: screen_putchar_def screen_scroll_def CHAR_NL_def)
  moreover have "takeWhile (\<lambda>c. c \<noteq> 0) (lit ''hi'' @ [10, 0]) = [0x68, 0x69, 10]"
    by (simp add: lit_def)
  moreover have "vga_screen sample_vga = (1920, vga_cells sample_vga)" "vga_textmode_color sample_vga = 7"
    by (simp_all add: vga_screen_def sample_vga_def)
  ultimately show ?thesis
    using vga_writestring_refines [of sample_vga "lit ''hi'' @ [10, 0]"] by (auto simp: lit_def)
qed

text \<open>
  A character that ends the last line scrolls the display: every line shows what the line below it
  showed, and the last line shows the cells just past the screen, whatever they hold; it is not blank.
\<close>

theorem vga_scroll_last_line:
  assumes "vga_ok s" and "vga_textmode_row s = 24"
  shows "\<exists>t. vga_textmode_putchar CHAR_NL s = Inr t \<and> vga_textmode_row t = 24 \<and> vga_textmode_column t = 0 \<and>
    (\<forall>i. vga_cells t i = (if i < 2000 then vga_cells s (i + 80) else vga_cells s i))"
proof -
  obtain t where t: "vga_textmode_putchar CHAR_NL s = Inr t" "vga_ok t"
      "vga_screen t = screen_putchar (vga_textmode_color s) CHAR_NL (vga_screen s)"
    using vga_putchar_ok [OF assms(1)] by (auto simp: vga_step_def)
  have "vga_screen t = screen_scroll (2000, vga_cells s)"
    using t(3) unat_cursor(4) [OF assms(1)] assms(2) by (simp add: screen_putchar_def vga_screen_def)
  then have c: "fst (vga_screen t) = 1920" "\<forall>i. vga_cells t i = (if i < 2000 then vga_cells s (i + 80) else vga_cells s i)"
    by (simp_all add: screen_scroll_def vga_screen_def)
  then show ?thesis
    using t(1) unat_cursor(4,5) [OF t(2)] by (auto simp: word_unat_eq_iff)
qed

theorem vga_scroll_last_line_witness:
  "\<exists>t. vga_textmode_putchar CHAR_NL (sample_vga\<lparr>vram := (\<lambda>_. 0x0720)(0xB8FA0 := 0x4141)\<rparr>) = Inr t \<and> vga_cells t 1920 = 0x4141"
proof -
  have "vga_ok (sample_vga\<lparr>vram := (\<lambda>_. 0x0720)(0xB8FA0 := 0x4141)\<rparr>)"
    by (simp add: vga_ok_def vga_ready_def sample_vga_def VGA_HEIGHT_def VGA_WIDTH_def)
  moreover have "vga_cells (sample_vga\<lparr>vram := (\<lambda>_. 0x0720)(0xB8FA0 := 0x4141)\<rparr>) 2000 = 0x4141"
    by (simp add: vga_cells_def)
  ultimately show ?thesis
    using vga_scroll_last_line [of "sample_vga\<lparr>vram := (\<lambda>_. 0x0720)(0xB8FA0 := 0x4141)\<rparr>"] by (auto simp: sample_vga_def)
qed

end
