(* ===== verification/Libsc_Stdio.thy ===== *)
theory Libsc_Stdio
  imports Libsc_Stdlib Vga
begin

text \<open>
  Formatted output, \<^verbatim>\<open>libsc/stdio\<close> as the kernel builds it: \<open>putchar\<close> shows a character on the
  display. A format or string argument is the list of the bytes of the string without its
  terminating zero; the variable arguments are a list, and fetching one that is missing or has
  another type is a wild access.

  \<open>vprintf\<close> converts numbers in arrays of variable length on the stack. The room the compiler
  reserves for an array of \<open>n\<close> bytes is a parameter, \<open>room n\<close>, because \<open>%x\<close> and \<open>%lx\<close> write one
  byte past the end of theirs; the code relies on \<open>n \<le> room n\<close>, and for those two on \<open>n < room n\<close>.
\<close>

section \<open>Output of bytes\<close>

definition putchar :: "i32 \<Rightarrow> 'a vga_state_scheme \<Rightarrow> (i32 \<times> 'a vga_state_scheme) res" where
  "putchar ic s = bindr (vga_textmode_putchar (ucast ic) s) (\<lambda>s. Inr (ic, s))"

text \<open>\<open>data_length\<close> bytes of an array\<close>

definition print :: "u8 list \<Rightarrow> size_t \<Rightarrow> 'a vga_state_scheme \<Rightarrow> 'a vga_state_scheme res" where
  "print data data_length s =
     for_loop 0 data_length (\<lambda>i s.
       if unat i < length data then bindr (putchar (ucast (data ! unat i)) s) (\<lambda>(_, s). Inr s)
       else Inl Wild_access) s"

section \<open>Numbers\<close>

definition buf_set :: "u8 list \<Rightarrow> i32 \<Rightarrow> u8 \<Rightarrow> u8 list res" where
  "buf_set buf i v = (if unat i < length buf then Inr (buf[unat i := v]) else Inl Wild_access)"

definition buf_get :: "u8 list \<Rightarrow> i32 \<Rightarrow> u8 res" where
  "buf_get buf i = (if unat i < length buf then Inr (buf ! unat i) else Inl Wild_access)"

text \<open>\<^verbatim>\<open>char buffer[size]\<close>; nothing reads a byte before it is written.\<close>

definition new_buffer :: "(nat \<Rightarrow> nat) \<Rightarrow> u32 \<Rightarrow> u8 list" where
  "new_buffer room sz = replicate (room (unat sz)) 0"

lemma sdiv_10_bounds: "\<bar>k sdiv 10\<bar> \<le> \<bar>k\<bar>" "k \<noteq> 0 \<Longrightarrow> \<bar>k sdiv 10\<bar> < \<bar>k :: int\<bar>"
  by (auto simp: signed_divide_int_def abs_mult sgn_if)

lemma sint_idiv: "sint (idiv d 10) = sint d sdiv 10"
proof -
  have "- (2 ^ 31) \<le> sint d sdiv 10" "sint d sdiv 10 < 2 ^ 31"
    using sdiv_10_bounds(1) [of "sint d"] sdiv_10_bounds(2) [of "sint d"] sint_ge [of d] sint_lt [of d] 
    by (cases "sint d = 0"; simp; linarith)+
  then show ?thesis
    by (simp add: idiv_def signed_of_int signed_take_bit_int_eq_self)
qed

lemma idiv_less: "d \<noteq> 0 \<Longrightarrow> nat \<bar>sint (idiv d 10)\<bar> < nat \<bar>sint d\<bar>"
proof -
  assume "d \<noteq> 0"
  then have "sint d \<noteq> 0"
    using sint_inj [of d 0] by auto
  then show ?thesis
    using sdiv_10_bounds(2) [of "sint d"] by (simp add: sint_idiv)
qed

text \<open>\<open>%d\<close>: the number of digits, and the digits from the last to the first.\<close>

function int_size :: "i32 \<Rightarrow> i32 \<Rightarrow> i32" where
  "int_size temp sz = (if temp \<noteq> 0 then int_size (idiv temp 10) (sz + 1) else sz)"
  by pat_completeness auto
termination
  by (relation "measure (\<lambda>(temp, _). nat \<bar>sint temp\<bar>)") (auto intro: idiv_less simp del: nat_less_eq_zless zless_nat_conj)

function int_fill :: "i32 \<Rightarrow> i32 \<Rightarrow> i32 \<Rightarrow> u8 list \<Rightarrow> u8 list res" where
  "int_fill d i sz buffer =
     (if d \<noteq> 0
      then bindr (buf_set buffer (sz - i - 1) (digit_char (irem d 10))) (int_fill (idiv d 10) (i + 1) sz)
      else Inr buffer)"
  by pat_completeness auto
termination
  by (relation "measure (\<lambda>(d, _). nat \<bar>sint d\<bar>)") (auto intro: idiv_less simp del: nat_less_eq_zless zless_nat_conj)

lemma unat_div_less: "x \<noteq> 0 \<Longrightarrow> 1 < unat b \<Longrightarrow> unat (x div b) < unat x" for x b :: "'w::len word"
  by (simp add: unat_div unat_gt_0)

text \<open>\<open>%u\<close>\<close>

function uns_size :: "u32 \<Rightarrow> u32 \<Rightarrow> u32" where
  "uns_size temp sz = (if temp \<noteq> 0 then uns_size (temp div 10) (sz + 1) else sz)"
  by pat_completeness auto
termination
  by (relation "measure (\<lambda>(temp, _). unat temp)") (auto intro: unat_div_less)

function uns_fill :: "u32 \<Rightarrow> u32 \<Rightarrow> u32 \<Rightarrow> u8 list \<Rightarrow> u8 list res" where
  "uns_fill d i sz buffer =
     (if d \<noteq> 0
      then bindr (buf_set buffer (sz - i - 1) (ucast (d mod 10 + 48))) (uns_fill (d div 10) (i + 1) sz)
      else Inr buffer)"
  by pat_completeness auto
termination
  by (relation "measure (\<lambda>(d, _). unat d)") (auto intro: unat_div_less)

text \<open>\<open>%x\<close> and \<open>%lx\<close>, which are the same text at the widths 32 and 64\<close>

lemma unat_div_16_less: "x \<noteq> 0 \<Longrightarrow> unat (x div 16) < unat x" for x :: "'w::len word"
proof -
  assume "x \<noteq> 0"
  moreover have "unat (16 :: 'w word) \<noteq> 1"
  proof -
    have "even (unat (16 :: 'w word))"
      by (simp add: unat_numeral take_bit_eq_mod dvd_mod)
    then show ?thesis
      by (metis odd_one)
  qed
  ultimately show ?thesis
    by (cases "unat (16 :: 'w word) = 0") (simp_all add: unat_div unat_gt_0)
qed

function hex_size :: "'w::len word \<Rightarrow> 'w word \<Rightarrow> 'w word" where
  "hex_size temp sz = (if temp \<noteq> 0 then hex_size (temp div 16) (sz + 1) else sz)"
  by pat_completeness auto
termination
  by (relation "measure (\<lambda>(temp, _). unat temp)") (auto intro: unat_div_16_less)

definition hex_char :: "'w::len word \<Rightarrow> u8" where
  "hex_char remainder = ucast (if remainder < 10 then remainder + 48 else remainder + 97 - 10)"

function hex_fill :: "'w::len word \<Rightarrow> i32 \<Rightarrow> u8 list \<Rightarrow> (i32 \<times> u8 list) res" where
  "hex_fill d loop buffer =
     bindr (buf_set buffer loop (hex_char (d mod 16))) (\<lambda>buffer.
       if d div 16 \<noteq> 0 then hex_fill (d div 16) (loop + 1) buffer else Inr (loop + 1, buffer))"
  by pat_completeness auto
termination
  by (relation "measure (\<lambda>(d, _). unat d)") (auto intro!: unat_div_16_less)

declare int_size.simps [simp del] int_fill.simps [simp del] uns_size.simps [simp del] uns_fill.simps [simp del]
  hex_size.simps [simp del] hex_fill.simps [simp del]

text \<open>The buffer reversed in place: \<open>start\<close> and \<open>end\<close> are signed bytes.\<close>

function hex_reverse :: "u8 \<Rightarrow> u8 \<Rightarrow> u8 list \<Rightarrow> u8 list res" where
  "hex_reverse start stop buffer =
     (if start <s stop
      then bindr (buf_get buffer (scast start)) (\<lambda>tmp. bindr (buf_get buffer (scast stop)) (\<lambda>v.
           bindr (buf_set buffer (scast start) v) (\<lambda>buffer. bindr (buf_set buffer (scast stop) tmp) (hex_reverse (start + 1) (stop - 1)))))
      else Inr buffer)"
  by pat_completeness auto
termination
proof (relation "measure (\<lambda>(start, stop, _). nat (sint stop - sint start))", goal_cases)
  case (2 start stop buffer tmp v b b')
  then have l: "sint start < sint stop"
    by (simp add: word_sless_alt)
  then have "sint (start + 1) = sint start + 1" "sint (stop - 1) = sint stop - 1"
    using sint_ge [of start] sint_lt [of stop]
    by (simp_all add: signed_take_bit_int_eq_self sint_word_ariths)
  then show ?case
    using l by simp
qed simp

declare hex_reverse.simps [simp del]

definition print_d :: "(nat \<Rightarrow> nat) \<Rightarrow> i32 \<Rightarrow> 'a vga_state_scheme \<Rightarrow> 'a vga_state_scheme res" where
  "print_d room d s =
     bindr (if d = 0 then print [48] 1 s else Inr s) (\<lambda>s.
     let sz = int_size d 0
     in bindr (int_fill d 0 sz (new_buffer room sz)) (\<lambda>buffer. print buffer sz s))"

definition print_u :: "(nat \<Rightarrow> nat) \<Rightarrow> u32 \<Rightarrow> 'a vga_state_scheme \<Rightarrow> 'a vga_state_scheme res" where
  "print_u room d s =
     bindr (if d = 0 then print [48] 1 s else Inr s) (\<lambda>s.
     let sz = uns_size d 0
     in bindr (uns_fill d 0 sz (new_buffer room sz)) (\<lambda>buffer. print buffer sz s))"

definition print_x :: "(nat \<Rightarrow> nat) \<Rightarrow> 'w::len word \<Rightarrow> 'a vga_state_scheme \<Rightarrow> 'a vga_state_scheme res" where
  "print_x room d s =
     bindr (if d = 0 then print [48] 1 s else Inr s) (\<lambda>s.
     let sz = hex_size d 0
     in bindr (hex_fill d 0 (new_buffer room (ucast sz))) (\<lambda>(loop, buffer).
        bindr (buf_set buffer loop 0) (\<lambda>buffer.
        bindr (hex_reverse 0 (ucast (sz - 1)) buffer) (\<lambda>buffer.
        print buffer (ucast sz) s))))"

section \<open>Formats\<close>

datatype vararg = Int_arg u32 | U64_arg u64 | Str_arg cstring

definition CHAR_PERCENT :: u8 where "CHAR_PERCENT = 37"

text \<open>\<^verbatim>\<open>*format\<close>, which at the end of the string is the terminating zero\<close>

definition fmt_char :: "cstring \<Rightarrow> u8" where
  "fmt_char f = (case f of [] \<Rightarrow> 0 | c # _ \<Rightarrow> c)"

text \<open>
  A conversion, with the format just past the percent sign: the rest of the format and of the
  arguments, or \<open>None\<close> where the code goes to \<open>incomprehensible_conversion\<close>.
\<close>

fun vprintf_conv :: "(nat \<Rightarrow> nat) \<Rightarrow> cstring \<Rightarrow> vararg list \<Rightarrow> 'a vga_state_scheme \<Rightarrow>
    (cstring \<times> vararg list \<times> 'a vga_state_scheme) option res" where
  "vprintf_conv room f args s =
     (if fmt_char f = 99 then
        (case args of Int_arg c # args \<Rightarrow> bindr (print [ucast c] 1 s) (\<lambda>s. Inr (Some (tl f, args, s))) | _ \<Rightarrow> Inl Wild_access)
      else if fmt_char f = 100 then
        (case args of Int_arg d # args \<Rightarrow> bindr (print_d room d s) (\<lambda>s. Inr (Some (tl f, args, s))) | _ \<Rightarrow> Inl Wild_access)
      else if fmt_char f = 117 then
        (case args of Int_arg d # args \<Rightarrow> bindr (print_u room d s) (\<lambda>s. Inr (Some (tl f, args, s))) | _ \<Rightarrow> Inl Wild_access)
      else if fmt_char f = 120 then
        (case args of Int_arg d # args \<Rightarrow> bindr (print_x room d s) (\<lambda>s. Inr (Some (tl f, args, s))) | _ \<Rightarrow> Inl Wild_access)
      else if fmt_char f = 108 \<and> fmt_char (tl f) = 120 then
        (case args of U64_arg d # args \<Rightarrow> bindr (print_x room d s) (\<lambda>s. Inr (Some (tl (tl f), args, s))) | _ \<Rightarrow> Inl Wild_access)
      else if fmt_char f = 115 then
        (case args of Str_arg str # args \<Rightarrow>
           bindr (print str (of_nat (length (takeWhile (\<lambda>c. c \<noteq> 0) str))) s) (\<lambda>s. Inr (Some (tl f, args, s)))
         | _ \<Rightarrow> Inl Wild_access)
      else Inr None)"

declare vprintf_conv.simps [simp del]

lemma vprintf_conv_shorter:
  "vprintf_conv room f args s = Inr (Some (f', args', s')) \<Longrightarrow> length f' < Suc (length f)"
  by (auto simp: vprintf_conv.simps bindr_Inr_iff split: if_splits list.splits vararg.splits)

text \<open>\<open>amount\<close> at \<open>print_c\<close>: one byte and all that follow it up to the next percent sign or the end\<close>

definition print_amount :: "cstring \<Rightarrow> nat" where
  "print_amount f = Suc (length (takeWhile (\<lambda>c. c \<noteq> 0 \<and> c \<noteq> CHAR_PERCENT) (tl f)))"

text \<open>
  Where an iteration goes: to \<open>print_c\<close> with a position in the format and the new value of
  \<open>rejected_bad_specifier\<close>, or past a conversion.
\<close>

datatype 's fmt_step = At_print_c cstring bool | Converted cstring "vararg list" 's

definition vprintf_step :: "(nat \<Rightarrow> nat) \<Rightarrow> cstring \<Rightarrow> vararg list \<Rightarrow> bool \<Rightarrow> 'a vga_state_scheme \<Rightarrow> 'a vga_state_scheme fmt_step res" where
  "vprintf_step room f args rejected s =
     (if fmt_char f \<noteq> CHAR_PERCENT then Inr (At_print_c f rejected)
      else if fmt_char (tl f) = CHAR_PERCENT then Inr (At_print_c (tl f) rejected)
      else if rejected then Inr (At_print_c f True)
      else bindr (vprintf_conv room (tl f) args s) (\<lambda>r.
             case r of None \<Rightarrow> Inr (At_print_c f True) | Some (f, args, s) \<Rightarrow> Inr (Converted f args s)))"

lemma vprintf_step_shorter:
  assumes "vprintf_step room f args rejected s = Inr r" and "fmt_char f \<noteq> 0"
  shows "r = At_print_c g b \<Longrightarrow> g \<noteq> [] \<and> length g \<le> length f"
    and "r = Converted f' args' s' \<Longrightarrow> length f' < length f"
proof -
  have "f \<noteq> []"
    using assms(2) by (auto simp: fmt_char_def)
  then show "r = At_print_c g b \<Longrightarrow> g \<noteq> [] \<and> length g \<le> length f" "r = Converted f' args' s' \<Longrightarrow> length f' < length f"
    using assms(1) vprintf_conv_shorter [of room "tl f" args s]
    by (auto simp: vprintf_step_def bindr_Inr_iff fmt_char_def CHAR_PERCENT_def split: if_splits option.splits list.splits)
qed

function vprintf_loop :: "(nat \<Rightarrow> nat) \<Rightarrow> cstring \<Rightarrow> vararg list \<Rightarrow> i32 \<Rightarrow> bool \<Rightarrow> 'a vga_state_scheme \<Rightarrow>
    (i32 \<times> 'a vga_state_scheme) res" where
  "vprintf_loop room f args written rejected s =
     (if fmt_char f = 0 then Inr (written, s)
      else bindr (vprintf_step room f args rejected s) (\<lambda>r. case r of
             At_print_c g rejected \<Rightarrow> bindr (print g (of_nat (print_amount g)) s) (\<lambda>s.
               vprintf_loop room (drop (print_amount g) g) args (written + of_nat (print_amount g)) rejected s)
           | Converted f args s \<Rightarrow> vprintf_loop room f args written rejected s))"
  by pat_completeness auto
termination
proof (relation "measure (\<lambda>(room, f, _). length f)", goal_cases)
  case (2 room f args written rejected s r g b t)
  then have "0 < length g" "length g \<le> length f"
    using vprintf_step_shorter(1) [of room f args rejected s r g b] by auto
  then show ?case
    by (simp add: print_amount_def del: length_greater_0_conv)
next
  case (3 room f args written rejected s r f' args' s')
  then show ?case
    using vprintf_step_shorter(2) [of room f args rejected s r f' args' s'] by simp
qed simp

declare vprintf_loop.simps [simp del]

definition vprintf :: "(nat \<Rightarrow> nat) \<Rightarrow> cstring \<Rightarrow> vararg list \<Rightarrow> 'a vga_state_scheme \<Rightarrow> (i32 \<times> 'a vga_state_scheme) res" where
  "vprintf room f args s = vprintf_loop room f args 0 False s"

text \<open>\<open>printf\<close> has no \<open>return\<close>: the number \<open>vprintf\<close> returns is dropped.\<close>

definition printf :: "(nat \<Rightarrow> nat) \<Rightarrow> cstring \<Rightarrow> vararg list \<Rightarrow> 'a vga_state_scheme \<Rightarrow> 'a vga_state_scheme res" where
  "printf room f args s = bindr (vprintf room f args s) (\<lambda>(_, s). Inr s)"

definition puts :: "(nat \<Rightarrow> nat) \<Rightarrow> cstring \<Rightarrow> 'a vga_state_scheme \<Rightarrow> 'a vga_state_scheme res" where
  "puts room str s = printf room (lit ''%s'' @ [CHAR_NL]) [Str_arg str] s"


section \<open>What is printed\<close>

lemma byte_int_byte [simp]: "ucast (ucast c :: i32) = (c :: u8)"
  by (rule bit_word_eqI) (simp add: bit_simps)

lemma print_is_fold:
  assumes "length data < 4294967296" and "unat n \<le> length data"
  shows "print data n s = fold_res vga_textmode_putchar (take (unat n) data) s"
proof -
  have len: "length (take (unat n) data) < 4294967296" "of_nat (length (take (unat n) data)) = n"
    using assms by simp_all
  have "print data n s = for_loop 0 n (\<lambda>i. vga_textmode_putchar (take (unat n) data ! unat i)) s"
    unfolding print_def
  proof (rule for_loop_cong)
    fix i :: u32 and t :: "'a vga_state_scheme"
    assume "i < n"
    then have "unat i < unat n"
      by (simp add: word_less_nat_alt)
    then show "(if unat i < length data then bindr (putchar (ucast (data ! unat i)) t) (\<lambda>(_, s). Inr s) else Inl Wild_access) =
        vga_textmode_putchar (take (unat n) data ! unat i) t"
      using assms(2) by (cases "vga_textmode_putchar (data ! unat i) t") (simp_all add: putchar_def)
  qed
  then show ?thesis
    using for_loop_list [OF len(1), of vga_textmode_putchar s] len(2) by simp
qed

text \<open>The digits of a number to a base, least significant first, and the character of a digit.\<close>

definition digit_of :: "nat \<Rightarrow> u8" where
  "digit_of k = (if k < 10 then 48 + of_nat k else 87 + of_nat k)"

fun rev_digits :: "nat \<Rightarrow> nat \<Rightarrow> u8 list" where
  "rev_digits b n = (if n = 0 \<or> b < 2 then [] else digit_of (n mod b) # rev_digits b (n div b))"

declare rev_digits.simps [simp del]

lemma rev_digits_0 [simp]: "rev_digits b 0 = []"
  by (simp add: rev_digits.simps)

definition numeral_of :: "nat \<Rightarrow> nat \<Rightarrow> u8 list" where
  "numeral_of b n = (if n = 0 then [48] else rev (rev_digits b n))"

lemma rev_digits_length: "1 < b \<Longrightarrow> n < b ^ k \<Longrightarrow> length (rev_digits b n) \<le> k"
proof (induction k arbitrary: n)
  case (Suc k)
  then have "n div b < b ^ k"
    by (simp add: less_mult_imp_div_less mult.commute)
  then show ?case
    using Suc by (subst rev_digits.simps) simp
qed (simp add: rev_digits.simps)

lemma uns_size_eq: "uns_size d k = k + of_nat (length (rev_digits 10 (unat d)))"
proof (induction d k rule: uns_size.induct)
  case (1 d k)
  then show ?case
    by (subst uns_size.simps, subst rev_digits.simps) (simp add: unat_div unat_eq_0)
qed

lemma unat_small:
  assumes "8 \<le> LENGTH('w)" and "n < 256"
  shows "unat (of_nat n :: 'w::len word) = n"
proof -
  have "(256 :: nat) \<le> 2 ^ LENGTH('w)"
    using power_increasing [OF assms(1), of "2 :: nat"] by simp
  then show ?thesis
    using assms(2) by (simp add: unat_of_nat)
qed

lemma unat_word_16: "8 \<le> LENGTH('w) \<Longrightarrow> unat (16 :: 'w::len word) = 16"
  using unat_small [where 'w = 'w, of 16] by simp

lemma hex_size_eq:
  assumes "8 \<le> LENGTH('w)"
  shows "hex_size (d :: 'w::len word) k = k + of_nat (length (rev_digits 16 (unat d)))"
proof (induction d k rule: hex_size.induct)
  case (1 d k)
  have "unat (d div 16) = unat d div 16"
    by (simp only: unat_div unat_word_16 [OF assms])
  then show ?case
    using 1 by (subst hex_size.simps, subst rev_digits.simps) (simp add: unat_eq_0)
qed


lemma digit_of_decimal: "ucast (d mod 10 + 48) = digit_of (unat d mod 10)" for d :: u32
proof -
  have "unat (d mod 10 + 48) = unat d mod 10 + 48"
    using unat_add_no_wrap [of "d mod 10" 48] mod_less_divisor [of 10 "unat d"] by (simp add: unat_mod)
  then show ?thesis
    using mod_less_divisor [of 10 "unat d"]
    by (simp add: digit_of_def word_unat_eq_iff unsigned_ucast_eq take_bit_eq_mod unat_of_nat unat_word_ariths)
qed

lemma uns_fill_ok:
  assumes "i + length (rev_digits 10 (unat d)) = n" and "n < 4294967296" and "n \<le> length buf"
  shows "uns_fill d (of_nat i) (of_nat n) buf =
    Inr (rev (rev_digits 10 (unat d)) @ drop (length (rev_digits 10 (unat d))) buf)"
  using assms
proof (induction d "of_nat i :: u32" "of_nat n :: u32" buf arbitrary: i rule: uns_fill.induct)
  case (1 d buf)
  show ?case
  proof (cases "d = 0")
    case True
    then show ?thesis
      by (simp add: uns_fill.simps rev_digits.simps)
  next
    case False
    let ?ds = "rev_digits 10 (unat (d div 10))"
    have ds: "rev_digits 10 (unat d) = digit_of (unat d mod 10) # ?ds"
      using False by (subst rev_digits.simps) (simp add: unat_eq_0 unat_div)
    then have n: "n = Suc i + length ?ds"
      using "1.prems"(1) by simp
    have idx: "(of_nat n - of_nat i - 1 :: u32) = of_nat (length ?ds)"
      by (simp add: n)
    have set: "buf_set buf (of_nat n - of_nat i - 1) (ucast (d mod 10 + 48)) = Inr (buf[length ?ds := digit_of (unat d mod 10)])"
      using "1.prems" n unfolding idx buf_set_def digit_of_decimal by (simp add: unat_of_nat_u32)
    have "uns_fill (d div 10) (of_nat (Suc i)) (of_nat n) (buf[length ?ds := digit_of (unat d mod 10)]) =
        Inr (rev ?ds @ drop (length ?ds) (buf[length ?ds := digit_of (unat d mod 10)]))"
      using "1.hyps" [OF False set, of "Suc i"] "1.prems" n by simp
    moreover have "drop (length ?ds) (buf[length ?ds := digit_of (unat d mod 10)]) = digit_of (unat d mod 10) # drop (Suc (length ?ds)) buf"
      using "1.prems" n by (simp add: drop_update_swap Cons_nth_drop_Suc [symmetric])
    ultimately show ?thesis
      using False set ds by (subst uns_fill.simps) (simp add: add.commute)
  qed
qed

lemma idiv_irem_unsigned:
  assumes "unat d < 2147483648"
  shows "idiv d 10 = d div 10" and "irem d 10 = d mod 10"
  using idiv_irem_small [OF assms] by (simp_all add: word_unat_eq_iff unat_div unat_mod)

text \<open>A number that is not negative is converted like an unsigned one.\<close>

lemma int_fill_small: "unat d < 2147483648 \<Longrightarrow> int_fill d i sz buf = uns_fill d i sz buf"
proof (induction d i sz buf rule: int_fill.induct)
  case (1 d i sz buf)
  have "unat (d div 10) < 2147483648"
    using "1.prems" by (simp add: unat_div)
  then have "int_fill (d div 10) (i + 1) sz b = uns_fill (d div 10) (i + 1) sz b"
      if "d \<noteq> 0" "buf_set buf (sz - i - 1) (digit_char (d mod 10)) = Inr b" for b
    using 1(1) that idiv_irem_unsigned [OF "1.prems"] by simp
  then show ?case
    using idiv_irem_unsigned [OF "1.prems"]
    by (subst int_fill.simps, subst uns_fill.simps) (auto simp: digit_char_def intro: bindr_cong)
qed

lemma int_size_small: "unat d < 2147483648 \<Longrightarrow> int_size d k = uns_size d k"
proof (induction d k rule: int_size.induct)
  case (1 d k)
  have "unat (d div 10) < 2147483648"
    using "1.prems" by (simp add: unat_div)
  then show ?case
    using 1 idiv_irem_unsigned [OF "1.prems"] by (subst int_size.simps, subst uns_size.simps) simp
qed

lemma hex_char_digit:
  assumes "8 \<le> LENGTH('w)"
  shows "hex_char (d mod 16 :: 'w::len word) = digit_of (unat d mod 16)"
proof -
  define k where "k = unat d mod 16"
  have k: "k < 16" and d: "d mod 16 = of_nat k"
    using unat_word_16 [OF assms] by (simp_all only: k_def word_unat_eq_iff unat_mod unat_small [OF assms])
  have byte: "(ucast (of_nat m :: 'w word) :: u8) = of_nat m" if "m < 256" for m
    using unat_small [OF assms that] by (metis of_nat_unat)
  have "(ucast (of_nat k + 48 :: 'w word) :: u8) = of_nat (k + 48)" "(ucast (of_nat k + 97 - 10 :: 'w word) :: u8) = of_nat (k + 87)"
    using byte [of "k + 48"] byte [of "k + 87"] k by (simp_all add: add.commute)
  moreover have "(of_nat k :: 'w word) < 10 \<longleftrightarrow> k < 10"
    using unat_small [OF assms, of k] unat_small [OF assms, of 10] k by (simp only: word_less_nat_alt) simp
  ultimately show ?thesis
    using k by (simp only: hex_char_def d digit_of_def k_def [symmetric]) simp
qed

lemma hex_fill_ok:
  fixes d :: "'w::len word"
  assumes "8 \<le> LENGTH('w)" and "d \<noteq> 0"
    and "i + length (rev_digits 16 (unat d)) \<le> length buf" and "length buf < 4294967296"
  shows "hex_fill d (of_nat i) buf = Inr (of_nat (i + length (rev_digits 16 (unat d))),
     take i buf @ rev_digits 16 (unat d) @ drop (i + length (rev_digits 16 (unat d))) buf)"
  using assms(2-)
proof (induction d "of_nat i :: i32" buf arbitrary: i rule: hex_fill.induct)
  case (1 d buf)
  have u: "unat (d div 16) = unat d div 16"
    by (simp only: unat_div unat_word_16 [OF assms(1)])
  let ?c = "digit_of (unat d mod 16)" and ?ds = "rev_digits 16 (unat (d div 16))"
  have ds: "rev_digits 16 (unat d) = ?c # ?ds"
    using "1.prems"(1) by (subst rev_digits.simps) (simp add: unat_eq_0 u)
  have i: "i < length buf"
    using "1.prems"(2) ds by simp
  have set: "buf_set buf (of_nat i) (hex_char (d mod 16)) = Inr (buf[i := ?c])"
    using i "1.prems"(3) hex_char_digit [OF assms(1), of d] by (simp add: buf_set_def unat_of_nat_u32)
  have upd: "take i buf @ ?c # drop (Suc i) buf = buf[i := ?c]"
    using i by (simp add: upd_conv_take_nth_drop)
  show ?case
  proof (cases "d div 16 = 0")
    case True
    then have "?ds = []"
      by (simp add: rev_digits.simps)
    then show ?thesis
      using True set ds upd by (subst hex_fill.simps) (simp add: add.commute)
  next
    case False
    have "hex_fill (d div 16) (of_nat (Suc i)) (buf[i := ?c]) = Inr (of_nat (Suc i + length ?ds),
        take (Suc i) (buf[i := ?c]) @ ?ds @ drop (Suc i + length ?ds) (buf[i := ?c]))"
      using "1.hyps" [OF set False, of "Suc i"] False "1.prems" ds by simp
    then show ?thesis
      using False set ds i by (subst hex_fill.simps) (simp add: add.commute take_Suc_conv_app_nth)
  qed
qed

lemma small_byte:
  assumes "k < 128"
  shows "sint (of_nat k :: u8) = int k" and "unat (scast (of_nat k :: u8) :: i32) = k"
proof -
  show s: "sint (of_nat k :: u8) = int k"
    using assms by (simp add: signed_of_nat signed_take_bit_int_eq_self)
  have "(scast (of_nat k :: u8) :: i32) = of_nat k"
    using s by (metis of_int_of_nat_eq of_int_sint)
  then show "unat (scast (of_nat k :: u8) :: i32) = k"
    using assms by (simp add: unat_of_nat_u32)
qed

lemma hex_reverse_ok:
  assumes "length pre + length mid < 128"
  shows "hex_reverse (of_nat (length pre)) (of_nat (length pre + length mid) - 1) (pre @ mid @ post) = Inr (pre @ rev mid @ post)"
  using assms
proof (induction "length mid" arbitrary: pre mid post rule: less_induct)
  case less
  show ?case
  proof (cases "length mid \<le> 1")
    case True
    have "\<not> (of_nat (length pre) :: u8) <s of_nat (length pre + length mid) - 1"
    proof (cases mid)
      case Nil
      have "sint (of_nat (length pre) - 1 :: u8) = int (length pre) - 1"
        using less.prems small_byte(1) [of "length pre - 1"] by (cases "length pre") simp_all
      then show ?thesis
        using Nil less.prems small_byte(1) [of "length pre"] by (simp add: word_sless_alt)
    next
      case (Cons a as)
      then show ?thesis
        using True by simp
    qed
    moreover have "rev mid = mid"
      using True by (cases mid) simp_all
    ultimately show ?thesis
      by (simp add: hex_reverse.simps)
  next
    case False
    then obtain a as where "mid = a # as" "as \<noteq> []"
      by (cases mid) auto
    then obtain b m where mid: "mid = a # m @ [b]"
      by (cases as rule: rev_cases) auto
    let ?j = "length pre + Suc (length m)"
    have j: "(of_nat (length pre + length mid) - 1 :: u8) = of_nat ?j" "?j < 128" "length pre < 128"
      using less.prems by (simp_all add: mid)
    have "(of_nat (length pre) :: u8) <s of_nat ?j"
      using small_byte(1) [OF j(2)] small_byte(1) [OF j(3)] by (simp add: word_sless_alt)
    moreover have "hex_reverse (of_nat (Suc (length pre))) (of_nat ?j - 1) ((pre @ [b]) @ m @ (a # post)) = Inr ((pre @ [b]) @ rev m @ (a # post))"
      using less.hyps [of m "pre @ [b]" "a # post"] less.prems by (simp add: mid)
    moreover have "(pre @ mid @ post)[length pre := b, ?j := a] = (pre @ [b]) @ m @ (a # post)"
      by (simp add: mid list_update_append nth_append)
    ultimately show ?thesis
      unfolding j(1) using small_byte(2) [OF j(2)] small_byte(2) [OF j(3)]
      by (subst hex_reverse.simps) (simp add: mid buf_get_def buf_set_def nth_append add.commute)
  qed
qed

section \<open>The numbers a conversion prints\<close>

text \<open>The room that the conversions need.\<close>

definition room_ok :: "(nat \<Rightarrow> nat) \<Rightarrow> bool" where
  "room_ok room \<longleftrightarrow> (\<forall>n\<le>16. n < room n \<and> room n < 4294967280) \<and> 2 \<le> room 0"

lemma print_prefix:
  assumes "length xs \<le> 16" and "length ys < 4294967296 - 16"
  shows "print (xs @ ys) (of_nat (length xs)) s = fold_res vga_textmode_putchar xs s"
  using assms by (subst print_is_fold) (simp_all add: unat_of_nat_u32)

lemma print_zero: "print [48] 1 s = fold_res vga_textmode_putchar [48] s"
  using print_prefix [of "[48]" "[]"] by simp

lemma print_nothing [simp]: "print b 0 s = Inr s"
  by (simp add: print_def)

lemma bindr_return [simp]: "bindr r Inr = r" "bindr r (\<lambda>x. Inr x) = r"
  by (cases r; simp)+

lemma fold_res_nil [simp]: "fold_res f [] = Inr"
  by (simp add: fun_eq_iff)

lemma print_u_ok:
  fixes s :: "'a vga_state_scheme"
  assumes "room_ok room"
  shows "print_u room d s = fold_res vga_textmode_putchar (numeral_of 10 (unat d)) s"
proof -
  let ?ds = "rev_digits 10 (unat d)"
  have len: "length ?ds \<le> 10"
    using rev_digits_length [of 10 "unat d" 10] unat_u32_less [of d] by simp
  let ?b = "new_buffer room (of_nat (length ?ds))"
  have b: "length ?ds \<le> length ?b" "length ?b < 4294967296 - 16"
    using assms len by (simp_all add: room_ok_def new_buffer_def unat_of_nat_u32 less_imp_le)
  have "uns_fill d 0 (of_nat (length ?ds)) ?b = Inr (rev ?ds @ drop (length ?ds) ?b)"
    using uns_fill_ok [of 0 d "length ?ds" ?b] len b(1) by simp
  moreover have "print (rev ?ds @ drop (length ?ds) ?b) (of_nat (length ?ds)) t = fold_res vga_textmode_putchar (rev ?ds) t" for t :: "'a vga_state_scheme"
    using print_prefix [of "rev ?ds" "drop (length ?ds) ?b" t] len b by simp
  ultimately show ?thesis
    by (cases "d = 0"; cases "vga_textmode_putchar 48 s")
      (simp_all add: print_u_def uns_size_eq numeral_of_def print_zero unat_eq_0 Let_def)
qed

lemma print_d_ok:
  assumes "room_ok room" and "unat d < 2147483648"
  shows "print_d room d s = fold_res vga_textmode_putchar (numeral_of 10 (unat d)) s"
proof -
  have "print_d room d s = print_u room d s"
    by (simp add: print_d_def print_u_def int_size_small [OF assms(2)] int_fill_small [OF assms(2)])
  then show ?thesis
    using print_u_ok [OF assms(1)] by simp
qed

lemma ucast_of_nat_small:
  assumes "8 \<le> LENGTH('w)" and "n < 256"
  shows "ucast (of_nat n :: 'w::len word) = of_nat n"
  using unat_small [OF assms] by (metis of_nat_unat)

lemma print_x_zero:
  assumes "room_ok room" and "8 \<le> LENGTH('w)"
  shows "print_x room (0 :: 'w::len word) s = fold_res vga_textmode_putchar [48] s"
proof -
  define b where "b = new_buffer room 0"
  have b: "2 \<le> length b" "b \<noteq> []"
    using assms(1) by (auto simp: room_ok_def b_def new_buffer_def)
  have c: "hex_char (0 mod 16 :: 'w word) = 48"
    using hex_char_digit [OF assms(2), of 0] by (simp add: digit_of_def)
  have "hex_fill (0 :: 'w word) 0 b = Inr (1, b[0 := 48])"
    using b c by (subst hex_fill.simps) (simp add: buf_set_def)
  moreover have "buf_set (b[0 := 48]) 1 0 = Inr (b[0 := 48, 1 := 0])"
    using b by (simp add: buf_set_def)
  moreover have "hex_reverse 0 (ucast (0 - 1 :: 'w word)) x = Inr x" for x
  proof -
    have "(ucast (- 1 :: 'w word) :: u8) = - 1"
      using assms(2) by (simp add: bit_eq_iff bit_simps)
    then show ?thesis
      by (subst hex_reverse.simps) (simp add: word_sless_alt)
  qed
  ultimately show ?thesis
    by (cases "vga_textmode_putchar 48 s") (simp_all add: print_x_def hex_size.simps print_zero b_def)
qed

lemma print_x_ok:
  fixes d :: "'w::len word"
  assumes "room_ok room" and "8 \<le> LENGTH('w)" and "unat d < 16 ^ 16" and "d \<noteq> 0"
  shows "print_x room d s = fold_res vga_textmode_putchar (numeral_of 16 (unat d)) s"
proof -
  define ds where "ds = rev_digits 16 (unat d)"
  have len: "length ds \<le> 16" "0 < length ds"
    using rev_digits_length [of 16 "unat d" 16] assms(3,4) rev_digits.simps [of 16 "unat d"] by (simp_all add: ds_def unat_eq_0)
  define b where "b = new_buffer room (of_nat (length ds))"
  have b: "length ds < length b" "length b < 4294967280"
    using assms(1) len by (simp_all add: room_ok_def b_def new_buffer_def unat_of_nat_u32)
  have sz: "hex_size d 0 = of_nat (length ds)" "ucast (of_nat (length ds) :: 'w word) = (of_nat (length ds) :: u32)"
    using hex_size_eq [OF assms(2), of d 0] ucast_of_nat_small [OF assms(2), of "length ds"] len
    by (simp_all add: ds_def)
  obtain n where n: "length ds = Suc n"
    using len(2) by (cases "length ds") simp_all
  have sz1: "ucast (of_nat (length ds) - 1 :: 'w word) = (of_nat (length ds) - 1 :: u8)"
    using ucast_of_nat_small [OF assms(2), of n] len by (simp add: n)
  have fill: "hex_fill d 0 b = Inr (of_nat (length ds), ds @ drop (length ds) b)"
    using hex_fill_ok [OF assms(2,4), of 0 b] b by (simp add: ds_def)
  define r where "r = (drop (length ds) b)[0 := 0]"
  have set: "buf_set (ds @ drop (length ds) b) (of_nat (length ds)) 0 = Inr (ds @ r)"
    using b len by (simp add: buf_set_def unat_of_nat_u32 r_def list_update_append)
  have rev: "hex_reverse 0 (of_nat (length ds) - 1) (ds @ r) = Inr (rev ds @ r)"
    using hex_reverse_ok [of "[]" ds r] len by simp
  have "print (rev ds @ r) (of_nat (length ds)) s = fold_res vga_textmode_putchar (rev ds) s"
    using print_prefix [of "rev ds" r s] len b by (simp add: r_def)
  then show ?thesis
    using assms(4) fill set rev by (simp add: print_x_def sz sz1 b_def [symmetric] numeral_of_def ds_def [symmetric] unat_eq_0)
qed

section \<open>The loop over the format\<close>

text \<open>Literal text up to the next percent sign is printed as it is.\<close>

abbreviation literal :: "u8 \<Rightarrow> bool" where
  "literal c \<equiv> c \<noteq> 0 \<and> c \<noteq> CHAR_PERCENT"

lemma print_run:
  assumes "length (c # f) < 4294967296"
  shows "print (c # f) (of_nat (print_amount (c # f))) s = fold_res vga_textmode_putchar (c # takeWhile literal f) s"
    and "drop (print_amount (c # f)) (c # f) = dropWhile literal f"
proof -
  have le: "length (takeWhile literal f) \<le> length f"
    by (rule length_takeWhile_le)
  then have n: "unat (of_nat (print_amount (c # f)) :: u32) = Suc (length (takeWhile literal f))"
    using assms unat_of_nat_u32 [of "Suc (length (takeWhile literal f))"] by (simp only: print_amount_def list.sel list.size)
  have "take (length (takeWhile literal f)) f = takeWhile literal f"
    by (rule takeWhile_eq_take [symmetric])
  then have "take (Suc (length (takeWhile literal f))) (c # f) = c # takeWhile literal f"
    by simp
  then show "print (c # f) (of_nat (print_amount (c # f))) s = fold_res vga_textmode_putchar (c # takeWhile literal f) s"
    using print_is_fold [OF assms, of "of_nat (print_amount (c # f))" s] le by (simp only: n) simp
  show "drop (print_amount (c # f)) (c # f) = dropWhile literal f"
    by (simp add: print_amount_def dropWhile_eq_drop)
qed

lemma vprintf_text_run:
  fixes s :: "'a vga_state_scheme"
  assumes "length f < 4294967296"
  shows "vprintf_loop room f args w rejected s =
    bindr (fold_res vga_textmode_putchar (takeWhile literal f) s)
      (vprintf_loop room (dropWhile literal f) args (w + of_nat (length (takeWhile literal f))) rejected)"
proof (cases f)
  case (Cons c g)
  show ?thesis
  proof (cases "literal c")
    case True
    then show ?thesis
      using assms print_run(1) [of c g s] print_run(2) [of c g] Cons
      by (subst vprintf_loop.simps) (simp add: fmt_char_def vprintf_step_def print_amount_def add.assoc)
  qed (auto simp: Cons)
qed simp

lemma vprintf_literal:
  fixes s :: "'a vga_state_scheme"
  assumes "length (c # f) < 4294967296" and "literal c"
  shows "vprintf_loop room (c # f) args w rejected s =
    bindr (vga_textmode_putchar c s) (vprintf_loop room f args (w + 1) rejected)"
  using assms vprintf_text_run [of "c # f" room args w rejected s]
    vprintf_text_run [of f room args "w + 1" rejected "projr (vga_textmode_putchar c s)"]
  by (cases "vga_textmode_putchar c s") (simp_all add: add.assoc)

lemma vprintf_percent:
  fixes s :: "'a vga_state_scheme"
  assumes "length f < 4294967280"
  shows "vprintf_loop room (CHAR_PERCENT # CHAR_PERCENT # f) args w rejected s =
    bindr (vga_textmode_putchar CHAR_PERCENT s) (vprintf_loop room f args (w + 1) rejected)"
proof -
  have "CHAR_PERCENT \<noteq> 0"
    by (simp add: CHAR_PERCENT_def)
  then show ?thesis
    using assms print_run(1) [of CHAR_PERCENT f s] print_run(2) [of CHAR_PERCENT f]
      vprintf_text_run [of f room args "w + 1" rejected "projr (vga_textmode_putchar CHAR_PERCENT s)"]
    by (subst vprintf_loop.simps, cases "vga_textmode_putchar CHAR_PERCENT s")
      (simp_all add: fmt_char_def vprintf_step_def print_amount_def add.assoc)
qed

lemma vprintf_text:
  assumes "length (t @ f) < 4294967296" and "list_all literal t"
  shows "vprintf_loop room (t @ f) args w rejected s =
    bindr (fold_res vga_textmode_putchar t s) (vprintf_loop room f args (w + of_nat (length t)) rejected)"
  using assms
proof (induction t arbitrary: w s)
  case (Cons c t)
  then show ?case
    using vprintf_literal [of c "t @ f" room args w rejected s]
    by (cases "vga_textmode_putchar c s") (simp_all add: add.assoc)
qed simp

section \<open>Conversions in a format\<close>

text \<open>A format with its arguments, as the pieces it is made of.\<close>

datatype fmt_item =
    Text cstring | Percent | Char_conv u32 | Int_conv i32 | Uns_conv u32 | Hex_conv u32 | Hex64_conv u64 | Str_conv cstring

fun item_format :: "fmt_item \<Rightarrow> cstring" where
  "item_format (Text t) = t"
| "item_format Percent = lit ''%%''"
| "item_format (Char_conv c) = lit ''%c''"
| "item_format (Int_conv d) = lit ''%d''"
| "item_format (Uns_conv d) = lit ''%u''"
| "item_format (Hex_conv d) = lit ''%x''"
| "item_format (Hex64_conv d) = lit ''%lx''"
| "item_format (Str_conv str) = lit ''%s''"

fun item_args :: "fmt_item \<Rightarrow> vararg list" where
  "item_args (Text t) = []"
| "item_args Percent = []"
| "item_args (Char_conv c) = [Int_arg c]"
| "item_args (Int_conv d) = [Int_arg d]"
| "item_args (Uns_conv d) = [Int_arg d]"
| "item_args (Hex_conv d) = [Int_arg d]"
| "item_args (Hex64_conv d) = [U64_arg d]"
| "item_args (Str_conv str) = [Str_arg str]"

fun item_output :: "fmt_item \<Rightarrow> cstring" where
  "item_output (Text t) = t"
| "item_output Percent = [CHAR_PERCENT]"
| "item_output (Char_conv c) = [ucast c]"
| "item_output (Int_conv d) = numeral_of 10 (unat d)"
| "item_output (Uns_conv d) = numeral_of 10 (unat d)"
| "item_output (Hex_conv d) = numeral_of 16 (unat d)"
| "item_output (Hex64_conv d) = numeral_of 16 (unat d)"
| "item_output (Str_conv str) = takeWhile (\<lambda>c. c \<noteq> 0) str"

text \<open>What the code counts as written: text, and not what a conversion prints.\<close>

fun item_written :: "fmt_item \<Rightarrow> nat" where
  "item_written (Text t) = length t"
| "item_written Percent = 1"
| "item_written _ = 0"

fun item_ok :: "fmt_item \<Rightarrow> bool" where
  "item_ok (Text t) \<longleftrightarrow> list_all (\<lambda>c. c \<noteq> 0 \<and> c \<noteq> CHAR_PERCENT) t"
| "item_ok (Int_conv d) \<longleftrightarrow> unat d < 2147483648"
| "item_ok (Str_conv str) \<longleftrightarrow> length str < 4294967296"
| "item_ok _ \<longleftrightarrow> True"

lemma vprintf_conversion:
  assumes "fmt_char f \<noteq> CHAR_PERCENT" and "vprintf_conv room f args s = bindr (fold_res vga_textmode_putchar out s) (\<lambda>s. Inr (Some (f', args', s)))"
  shows "vprintf_loop room (CHAR_PERCENT # f) args w False s =
    bindr (fold_res vga_textmode_putchar out s) (vprintf_loop room f' args' w False)"
  using assms by (subst vprintf_loop.simps, cases "fold_res vga_textmode_putchar out s")
    (simp_all add: fmt_char_def vprintf_step_def CHAR_PERCENT_def)

lemma lit_percent: "lit ''%c'' = [CHAR_PERCENT, 99]" "lit ''%d'' = [CHAR_PERCENT, 100]" "lit ''%u'' = [CHAR_PERCENT, 117]"
  "lit ''%x'' = [CHAR_PERCENT, 120]" "lit ''%lx'' = [CHAR_PERCENT, 108, 120]" "lit ''%s'' = [CHAR_PERCENT, 115]"
  "lit ''%%'' = [CHAR_PERCENT, CHAR_PERCENT]"
  by (simp_all add: lit_def CHAR_PERCENT_def)

lemma print_string:
  assumes "length str < 4294967296"
  shows "print str (of_nat (length (takeWhile (\<lambda>c. c \<noteq> 0) str))) s = fold_res vga_textmode_putchar (takeWhile (\<lambda>c. c \<noteq> 0) str) s"
proof -
  have le: "length (takeWhile (\<lambda>c. c \<noteq> 0) str) \<le> length str"
    by (rule length_takeWhile_le)
  then have n: "unat (of_nat (length (takeWhile (\<lambda>c. c \<noteq> 0) str)) :: u32) = length (takeWhile (\<lambda>c. c \<noteq> 0) str)"
    using assms by (simp add: unat_of_nat_u32)
  have "take (length (takeWhile (\<lambda>c. c \<noteq> 0) str)) str = takeWhile (\<lambda>c. c \<noteq> 0) str"
    by (rule takeWhile_eq_take [symmetric])
  then show ?thesis
    using print_is_fold [OF assms, of "of_nat (length (takeWhile (\<lambda>c. c \<noteq> 0) str))" s] le by (simp only: n)
qed

lemma print_x_numeral:
  assumes "room_ok room"
  shows "print_x room (d :: u32) s = fold_res vga_textmode_putchar (numeral_of 16 (unat d)) s"
    and "print_x room (d64 :: u64) s = fold_res vga_textmode_putchar (numeral_of 16 (unat d64)) s"
proof -
  have "unat d < 16 ^ 16" "unat d64 < 16 ^ 16"
    using unat_u32_less [of d] unsigned_less [of d64] by simp_all
  then show "print_x room d s = fold_res vga_textmode_putchar (numeral_of 16 (unat d)) s"
      "print_x room d64 s = fold_res vga_textmode_putchar (numeral_of 16 (unat d64)) s"
    using print_x_ok [OF assms, of d s] print_x_ok [OF assms, of d64 s] print_x_zero [OF assms, of s, where 'w = 32] print_x_zero [OF assms, of s, where 'w = 64]
    by (cases "d = 0"; cases "d64 = 0"; simp add: numeral_of_def)+
qed

lemma conversion_chars [simp]:
  "(99 :: u8) \<noteq> CHAR_PERCENT" "(100 :: u8) \<noteq> CHAR_PERCENT" "(117 :: u8) \<noteq> CHAR_PERCENT"
  "(120 :: u8) \<noteq> CHAR_PERCENT" "(108 :: u8) \<noteq> CHAR_PERCENT" "(115 :: u8) \<noteq> CHAR_PERCENT" "CHAR_PERCENT \<noteq> 0"
  by (simp_all add: CHAR_PERCENT_def)

lemmas vprintf_conv_eqs = lit_percent vprintf_conversion vprintf_conv.simps fmt_char_def
  print_d_ok print_u_ok print_x_numeral print_string print_prefix [of "[_]" "[]", simplified]

lemma vprintf_item:
  assumes "room_ok room" and "item_ok it" and "length (item_format it @ f) < 4294967280"
  shows "vprintf_loop room (item_format it @ f) (item_args it @ args) w False s =
    bindr (fold_res vga_textmode_putchar (item_output it) s) (vprintf_loop room f args (w + of_nat (item_written it)) False)"
proof (cases it)
  case (Text t)
  then show ?thesis
    using vprintf_text [of t f] assms by simp
next
  case Percent
  then show ?thesis
    using vprintf_percent [of f room args w False s] assms by (simp add: lit_percent)
qed (use assms vprintf_conversion [where out = "item_output it" and f' = f and args' = args and w = w and s = s and room = room] in \<open>simp_all add: vprintf_conv_eqs\<close>)

lemma vprintf_items:
  fixes s :: "'a vga_state_scheme"
  assumes "room_ok room" and "list_all item_ok items" and "length (concat (map item_format items)) < 4294967280"
  shows "vprintf_loop room (concat (map item_format items)) (concat (map item_args items)) w False s =
    bindr (fold_res vga_textmode_putchar (concat (map item_output items)) s) (\<lambda>s. Inr (w + of_nat (sum_list (map item_written items)), s))"
  using assms(2,3)
proof (induction items arbitrary: w s)
  case Nil
  then show ?case
    by (simp add: vprintf_loop.simps fmt_char_def)
next
  case (Cons it items)
  then have ih: "vprintf_loop room (concat (map item_format items)) (concat (map item_args items)) v False t =
      bindr (fold_res vga_textmode_putchar (concat (map item_output items)) t) (\<lambda>s. Inr (v + of_nat (sum_list (map item_written items)), s))" for v and t :: "'a vga_state_scheme"
    by simp
  show ?case
    using Cons.prems vprintf_item [OF assms(1), of it "concat (map item_format items)" "concat (map item_args items)" w s]
    by (cases "fold_res vga_textmode_putchar (item_output it) s") (simp_all add: ih fold_res_append add.assoc)
qed

section \<open>Properties\<close>



text \<open>
  Without room past the end of the array that holds the digits, \<open>%x\<close> always writes out of bounds:
  the byte it stores after the digits is not part of the array.
\<close>

theorem printf_hex_overruns:
  assumes "vga_ok s"
  shows "vprintf (\<lambda>n. n) (lit ''%x'') [Int_arg d] s = Inl Wild_access"
proof (cases "d = 0")
  case True
  obtain t where "print [48] 1 s = Inr t"
    using vga_putchar_ok [OF assms, of 48] print_zero [of s] by auto
  moreover have "hex_fill (0 :: u32) 0 [] = Inl Wild_access"
    by (subst hex_fill.simps) (simp add: buf_set_def)
  ultimately have "print_x (\<lambda>n. n) d s = Inl Wild_access"
    using True by (simp add: print_x_def hex_size.simps new_buffer_def)
  then show ?thesis
    by (simp add: vprintf_def vprintf_loop.simps vprintf_step_def vprintf_conv.simps lit_percent fmt_char_def)
next
  case False
  define ds where "ds = rev_digits 16 (unat d)"
  have len: "length ds \<le> 8"
    using rev_digits_length [of 16 "unat d" 8] unat_u32_less [of d] by (simp add: ds_def)
  define b where "b = replicate (length ds) (0 :: u8)"
  have "hex_fill d 0 b = Inr (of_nat (length ds), ds)"
    using hex_fill_ok [of d 0 b] False len by (simp add: ds_def b_def)
  moreover have "buf_set ds (of_nat (length ds)) 0 = Inl Wild_access"
    using len by (simp add: buf_set_def unat_of_nat_u32)
  moreover have "hex_size d 0 = of_nat (length ds)"
    using hex_size_eq [of d 0] by (simp add: ds_def)
  ultimately have "print_x (\<lambda>n. n) d s = Inl Wild_access"
    using False len by (simp add: print_x_def new_buffer_def unat_of_nat_u32 b_def)
  then show ?thesis
    by (simp add: vprintf_def vprintf_loop.simps vprintf_step_def vprintf_conv.simps lit_percent fmt_char_def)
qed

theorem printf_hex_overruns_witness: "vprintf (\<lambda>n. n) (lit ''%x'') [Int_arg 0xff] sample_vga = Inl Wild_access"
proof -
  have "vga_ok sample_vga"
    by (simp add: vga_ok_def vga_ready_def sample_vga_def VGA_HEIGHT_def VGA_WIDTH_def)
  then show ?thesis
    using printf_hex_overruns [of sample_vga "0xff"] by simp
qed

end
