(* ===== verification/Descriptors.thy ===== *)
theory Descriptors
  imports Libsc_Stdio Isr
begin

text \<open>
  The descriptor tables of the processor, \<^verbatim>\<open>kernel/arch/i386/descriptors\<close>: segments (\<open>gdt.c\<close>) and
  interrupt gates (\<open>idt.c\<close>), with the routines that fill in the gates (\<open>_isr_install\<close> of \<open>isr.c\<close>,
  \<open>_irq_install\<close> of \<open>irq.c\<close>). The addresses of the tables and of the assembly stubs are parameters.
  The last lemmas read the packed descriptors back the way the processor does.
\<close>

section \<open>State\<close>

record gdt_entry =
  limit_low :: u16
  base_low :: u16
  base_middle :: u8
  access :: u8
  granularity :: u8
  base_high :: u8

record gdt_ptr =
  gp_limit :: u16
  gp_base :: u32

record idt_entry =
  base_lo :: u16
  sel :: u16
  always0 :: u8
  flags :: u8
  base_hi :: u16

record idt_ptr =
  idtp_limit :: u16
  idtp_base :: u32

record idt_gate_debug =
  debug_num :: u8
  debug_base :: u64
  debug_sel :: u16
  debug_flags :: u8

text \<open>
  \<open>code_ptr\<close> is the address of a function; a table of handlers has \<open>None\<close> for NULL. \<open>gdtr\<close> and
  \<open>idtr\<close> are the processor's copies of the table pointers, which \<open>_gdt_flush\<close> and \<open>_idt_flush\<close> load.
\<close>

type_synonym code_ptr = u32

record intr_state = vga_state +
  gdt :: "gdt_entry list"
  gp :: gdt_ptr
  gdtr :: gdt_ptr
  idt :: "idt_entry list"
  idtp :: idt_ptr
  idtr :: idt_ptr
  idt_debug :: "idt_gate_debug list"
  isr_routines :: "code_ptr option list"
  irq_routines :: "code_ptr option list"

text \<open>The routines of the hardware interrupts before any is installed.\<close>

definition irq_routines_init :: "code_ptr option list" where
  "irq_routines_init = replicate 16 None"

section \<open>Segments\<close>

definition gdt_set_gate :: "32 word \<Rightarrow> u64 \<Rightarrow> u64 \<Rightarrow> u8 \<Rightarrow> u8 \<Rightarrow> 'a intr_state_scheme \<Rightarrow> 'a intr_state_scheme res" where
  "gdt_set_gate num base limit acc gran s =
     (if unat num < length (gdt s) then
        let e = (gdt s ! unat num)
              \<lparr>base_low := ucast (base AND 0xFFFF),
               base_middle := ucast (drop_bit 16 base AND 0xFF),
               base_high := ucast (drop_bit 24 base AND 0xFF),
               limit_low := ucast (limit AND 0xFFFF),
               granularity := ucast (drop_bit 16 limit AND 0x0F)\<rparr>;
            e = e\<lparr>granularity := granularity e OR (gran AND 0xF0)\<rparr>;
            e = e\<lparr>access := acc\<rparr>
        in Inr (s\<lparr>gdt := (gdt s)[unat num := e]\<rparr>)
      else Inl Wild_access)"

definition gdt_flush :: "'a intr_state_scheme \<Rightarrow> 'a intr_state_scheme" where
  "gdt_flush s = s\<lparr>gdtr := gp s\<rparr>"

text \<open>\<open>sizeof(struct gdt_entry)\<close> and \<open>sizeof(struct idt_entry)\<close> are 8.\<close>

definition gdt_install :: "u32 \<Rightarrow> 'a intr_state_scheme \<Rightarrow> 'a intr_state_scheme res" where
  "gdt_install gdt_addr s =
     (let s = s\<lparr>gp := \<lparr>gp_limit = 8 * 3 - 1, gp_base = gdt_addr\<rparr>\<rparr>
      in bindr (gdt_set_gate 0 0 0 0 0 s) (\<lambda>s.
         bindr (gdt_set_gate 1 0 0xFFFFFFFF 0x9A 0xCF s) (\<lambda>s.
         bindr (gdt_set_gate 2 0 0xFFFFFFFF 0x92 0xCF s) (\<lambda>s.
         bindr (gdt_set_gate 3 0 0xFFFFFFFF 0xFA 0xCF s) (\<lambda>s.
         bindr (gdt_set_gate 4 0 0xFFFFFFFF 0xF2 0xCF s) (\<lambda>s.
         Inr (gdt_flush s)))))))"

section \<open>Interrupt gates\<close>

text \<open>Both tables have 256 entries and the index is a byte, so it is always in range.\<close>

definition idt_set_gate :: "u8 \<Rightarrow> u32 \<Rightarrow> u16 \<Rightarrow> u8 \<Rightarrow> 'a intr_state_scheme \<Rightarrow> 'a intr_state_scheme" where
  "idt_set_gate num base sl fl s =
     s\<lparr>idt_debug := (idt_debug s)[unat num := \<lparr>debug_num = num, debug_base = ucast base, debug_sel = sl, debug_flags = fl\<rparr>],
       idt := (idt s)[unat num := \<lparr>base_lo = ucast (base AND 0xFFFF), sel = sl, always0 = 0, flags = fl,
                                    base_hi = ucast (drop_bit 16 base AND 0xFFFF)\<rparr>]\<rparr>"

text \<open>The 32 calls \<^verbatim>\<open>_idt_set_gate(n, (unsigned)_isr<n>, 0x08, 0x8E)\<close>\<close>

definition isr_install :: "(nat \<Rightarrow> u32) \<Rightarrow> 'a intr_state_scheme \<Rightarrow> 'a intr_state_scheme" where
  "isr_install isr_stub s = fold (\<lambda>n. idt_set_gate (of_nat n) (isr_stub n) 0x08 0x8E) [0..<32] s"

definition irq_remap :: "'a vga_state_scheme \<Rightarrow> 'a vga_state_scheme" where
  "irq_remap s = fold (\<lambda>(port, data). outportb port data)
     [(0x20, 0x11), (0xA0, 0x11), (0x21, 0x20), (0xA1, 0x28), (0x21, 0x04), (0xA1, 0x02),
      (0x21, 0x01), (0xA1, 0x01), (0x21, 0x0), (0xA1, 0x0)] s"

text \<open>The 16 calls \<^verbatim>\<open>_idt_set_gate(32 + n, (unsigned)_irq<n>, 0x08, 0x8E)\<close>\<close>

definition irq_install :: "(nat \<Rightarrow> u32) \<Rightarrow> 'a intr_state_scheme \<Rightarrow> 'a intr_state_scheme" where
  "irq_install irq_stub s =
     fold (\<lambda>n. idt_set_gate (of_nat (32 + n)) (irq_stub n) 0x08 0x8E) [0..<16] (irq_remap s)"

definition idt_zero :: idt_entry where
  "idt_zero = \<lparr>base_lo = 0, sel = 0, always0 = 0, flags = 0, base_hi = 0\<rparr>"

definition idt_flush :: "'a intr_state_scheme \<Rightarrow> 'a intr_state_scheme" where
  "idt_flush s = s\<lparr>idtr := idtp s\<rparr>"

definition idt_install :: "u32 \<Rightarrow> (nat \<Rightarrow> u32) \<Rightarrow> (nat \<Rightarrow> u32) \<Rightarrow> 'a intr_state_scheme \<Rightarrow> 'a intr_state_scheme" where
  "idt_install idt_addr isr_stub irq_stub s =
     (let s = s\<lparr>idtp := \<lparr>idtp_limit = 8 * 256 - 1, idtp_base = idt_addr\<rparr>\<rparr>;
          s = s\<lparr>idt := replicate 256 idt_zero\<rparr>;
          s = isr_install isr_stub s;
          s = irq_install irq_stub s
      in idt_flush s)"

section \<open>What the processor reads\<close>

text \<open>The base and the limit of a segment, and the address a gate leads to.\<close>

definition segment_base :: "gdt_entry \<Rightarrow> u32" where
  "segment_base e = ucast (base_low e) OR push_bit 16 (ucast (base_middle e)) OR push_bit 24 (ucast (base_high e))"

definition segment_limit :: "gdt_entry \<Rightarrow> u32" where
  "segment_limit e = ucast (limit_low e) OR push_bit 16 (ucast (granularity e AND 0x0F))"

definition segment_flags :: "gdt_entry \<Rightarrow> u8" where
  "segment_flags e = granularity e AND 0xF0"

definition gate_target :: "idt_entry \<Rightarrow> u32" where
  "gate_target e = ucast (base_lo e) OR push_bit 16 (ucast (base_hi e))"

text \<open>An interrupt gate the processor accepts: present, of 32 bits, for ring 0, into the code segment.\<close>

definition gate_leads_to :: "idt_entry \<Rightarrow> u32 \<Rightarrow> bool" where
  "gate_leads_to e a \<longleftrightarrow> gate_target e = a \<and> sel e = 0x08 \<and> flags e = 0x8E \<and> always0 e = 0"

text \<open>A selector can be loaded when its descriptor lies within the limit of the table.\<close>

definition selector_in_gdt :: "gdt_ptr \<Rightarrow> u16 \<Rightarrow> bool" where
  "selector_in_gdt p sl \<longleftrightarrow> unat (sl AND 0xFFF8) + 7 \<le> unat (gp_limit p)"

lemma mask_numerals:
  "(0xF :: 'w::len word) = mask 4" "(0xFF :: 'w::len word) = mask 8" "(0xFFFF :: 'w::len word) = mask 16"
  "(0xFFFFF :: 'w::len word) = mask 20" "(0xF0 :: u8) = push_bit 4 (mask 4)"
  by (simp_all add: mask_eq_exp_minus_1)

lemma gdt_set_gate_ok:
  assumes "unat num < length (gdt s)"
  obtains e where "gdt_set_gate num base limit acc gran s = Inr (s\<lparr>gdt := (gdt s)[unat num := e]\<rparr>)"
    and "segment_base e = ucast base" and "segment_limit e = ucast (limit AND 0xFFFFF)" and "segment_flags e = gran AND 0xF0" and "access e = acc"
proof
  let ?e = "(gdt s ! unat num)
              \<lparr>base_low := ucast (base AND 0xFFFF),
               base_middle := ucast (drop_bit 16 base AND 0xFF),
               base_high := ucast (drop_bit 24 base AND 0xFF),
               limit_low := ucast (limit AND 0xFFFF),
               granularity := ucast (drop_bit 16 limit AND 0x0F) OR (gran AND 0xF0), access := acc\<rparr>"
  show "gdt_set_gate num base limit acc gran s = Inr (s\<lparr>gdt := (gdt s)[unat num := ?e]\<rparr>)"
    using assms by (simp add: gdt_set_gate_def Let_def)
  show "segment_base ?e = ucast base"
  proof (rule bit_word_eqI)
    fix n
    show "n < LENGTH(32) \<Longrightarrow> bit (segment_base ?e) n = bit (ucast base :: u32) n"
      by (cases "24 \<le> n") (auto simp: segment_base_def mask_numerals bit_simps)
  qed
  show "segment_limit ?e = ucast (limit AND 0xFFFFF)"
    by (rule bit_word_eqI) (auto simp: segment_limit_def mask_numerals bit_simps)
  show "segment_flags ?e = gran AND 0xF0"
    by (rule bit_word_eqI) (auto simp: segment_flags_def mask_numerals bit_simps)
qed simp


text \<open>The gate that the installation routines write.\<close>

definition kernel_gate :: "u32 \<Rightarrow> idt_entry" where
  "kernel_gate base = \<lparr>base_lo = ucast (base AND 0xFFFF), sel = 0x08, always0 = 0, flags = 0x8E,
     base_hi = ucast (drop_bit 16 base AND 0xFFFF)\<rparr>"

lemma kernel_gate_leads: "gate_leads_to (kernel_gate base) base"
proof -
  have "gate_target (kernel_gate base) = base"
    by (rule bit_word_eqI) (auto simp: gate_target_def kernel_gate_def mask_numerals bit_simps)
  then show ?thesis
    by (simp add: gate_leads_to_def kernel_gate_def)
qed

lemma idt_set_gate_idt: "idt (idt_set_gate num base 0x08 0x8E s) = (idt s)[unat num := kernel_gate base]"
  by (simp add: idt_set_gate_def kernel_gate_def)

text \<open>Gates set one after the other at consecutive vectors.\<close>

lemma idt_set_gates:
  assumes "k + n \<le> 256"
  shows "idt (fold (\<lambda>i. idt_set_gate (of_nat (k + i)) (stub i) 0x08 0x8E) [0..<n] s) =
    fold (\<lambda>i l. l[k + i := kernel_gate (stub i)]) [0..<n] (idt s)"
  using assms
proof (induction n)
  case (Suc n)
  have "unat (of_nat (k + n) :: u8) = k + n"
    using Suc.prems unat_small [where 'w = 8, of "k + n"] by simp
  then show ?case
    using Suc by (simp add: idt_set_gate_idt del: of_nat_add)
qed simp

lemma fold_update_nth:
  "v < length l \<Longrightarrow> length (fold (\<lambda>i l. l[k + i := f i]) [0..<n] l) = length l \<and>
     fold (\<lambda>i l. l[k + i := f i]) [0..<n] l ! v = (if k \<le> v \<and> v < k + n then f (v - k) else l ! v)"
  by (induction n) (auto simp: nth_list_update less_Suc_eq)

lemma idt_set_gate_idtp: "idtp (fold (\<lambda>i. idt_set_gate (num i) (stub i) sl fl) xs s) = idtp s"
  by (induction xs arbitrary: s) (simp_all add: idt_set_gate_def)

lemma irq_remap_ports: "irq_remap s = s\<lparr>port_writes := port_writes s @
     [(0x20, 0x11), (0xA0, 0x11), (0x21, 0x20), (0xA1, 0x28), (0x21, 0x04), (0xA1, 0x02),
      (0x21, 0x01), (0xA1, 0x01), (0x21, 0x0), (0xA1, 0x0)]\<rparr>"
  by (simp add: irq_remap_def outportb_def)

section \<open>The installed tables\<close>

lemma idt_install_ok:
  "let t = idt_install idt_addr isr_stub irq_stub s in
     idtr t = \<lparr>idtp_limit = 2047, idtp_base = idt_addr\<rparr> \<and>
     (\<forall>v<32. gate_leads_to (idt t ! v) (isr_stub v)) \<and>
     (\<forall>v<16. gate_leads_to (idt t ! (32 + v)) (irq_stub v)) \<and>
     (\<forall>v. 48 \<le> v \<and> v < 256 \<longrightarrow> idt t ! v = idt_zero)"
proof -
  define s1 where "s1 = s\<lparr>idtp := \<lparr>idtp_limit = 2047, idtp_base = idt_addr\<rparr>, idt := replicate 256 idt_zero\<rparr>"
  define s2 where "s2 = isr_install isr_stub s1"
  define s3 where "s3 = irq_install irq_stub s2"
  have e2: "idt s2 = fold (\<lambda>i l. l[i := kernel_gate (isr_stub i)]) [0..<32] (replicate 256 idt_zero)"
    using idt_set_gates [of 0 32 isr_stub s1] by (simp add: s2_def isr_install_def s1_def)
  have e3: "idt s3 = fold (\<lambda>i l. l[32 + i := kernel_gate (irq_stub i)]) [0..<16] (idt s2)"
    using idt_set_gates [of 32 16 irq_stub "irq_remap s2"] by (simp add: s3_def irq_install_def irq_remap_ports)
  have n2: "length (idt s2) = 256" "v < 256 \<Longrightarrow> idt s2 ! v = (if v < 32 then kernel_gate (isr_stub v) else idt_zero)" for v
    using fold_update_nth [of 0 "replicate 256 idt_zero" 0] fold_update_nth [of v "replicate 256 idt_zero" 0] unfolding e2 by simp_all
  have n3: "v < 256 \<Longrightarrow> idt s3 ! v = (if 32 \<le> v \<and> v < 48 then kernel_gate (irq_stub (v - 32)) else if v < 32 then kernel_gate (isr_stub v) else idt_zero)" for v
    using fold_update_nth [of v "idt s2" 32] n2 unfolding e3 by simp
  have "idtp s3 = idtp s1"
    by (simp add: s3_def s2_def irq_install_def isr_install_def idt_set_gate_idtp irq_remap_ports)
  moreover have "idt_install idt_addr isr_stub irq_stub s = idt_flush s3"
    by (simp add: idt_install_def s1_def s2_def s3_def Let_def)
  ultimately show ?thesis
    by (simp add: Let_def idt_flush_def n3 kernel_gate_leads s1_def)
qed

text \<open>Nothing but the tables and the interrupt controllers is touched.\<close>

lemma idt_set_gates_only:
  "\<exists>d l. fold (\<lambda>i. idt_set_gate (num i) (stub i) sl fl) xs s = s\<lparr>idt := l, idt_debug := d\<rparr>"
proof (induction xs arbitrary: s)
  case Nil
  show ?case
    by (intro exI [of _ "idt_debug s"] exI [of _ "idt s"]) simp
next
  case (Cons x xs)
  obtain d l where "fold (\<lambda>i. idt_set_gate (num i) (stub i) sl fl) xs (idt_set_gate (num x) (stub x) sl fl s) =
      (idt_set_gate (num x) (stub x) sl fl s)\<lparr>idt := l, idt_debug := d\<rparr>"
    using Cons.IH by blast
  moreover have "(idt_set_gate (num x) (stub x) sl fl s)\<lparr>idt := l, idt_debug := d\<rparr> = s\<lparr>idt := l, idt_debug := d\<rparr>"
    by (simp add: idt_set_gate_def)
  ultimately show ?case
    by auto
qed

lemma idt_install_only:
  "\<exists>w p d l. idt_install idt_addr isr_stub irq_stub s =
     s\<lparr>port_writes := w, idtp := p, idt := l, idt_debug := d, idtr := p\<rparr>"
proof -
  let ?s1 = "s\<lparr>idtp := \<lparr>idtp_limit = 2047, idtp_base = idt_addr\<rparr>, idt := replicate 256 idt_zero\<rparr>"
  obtain d l where 1: "isr_install isr_stub ?s1 = ?s1\<lparr>idt := l, idt_debug := d\<rparr>"
    using idt_set_gates_only [of of_nat isr_stub 8 "0x8E" "[0..<32]" ?s1] by (auto simp: isr_install_def)
  obtain d' l' where "irq_install irq_stub (?s1\<lparr>idt := l, idt_debug := d\<rparr>) =
      (irq_remap (?s1\<lparr>idt := l, idt_debug := d\<rparr>))\<lparr>idt := l', idt_debug := d'\<rparr>"
    using idt_set_gates_only [of "\<lambda>n. of_nat (32 + n)" irq_stub 8 "0x8E" "[0..<16]" "irq_remap (?s1\<lparr>idt := l, idt_debug := d\<rparr>)"]
    by (auto simp: irq_install_def)
  with 1 have "idt_install idt_addr isr_stub irq_stub s =
      s\<lparr>port_writes := port_writes (irq_remap s), idtp := idtp ?s1, idt := l', idt_debug := d', idtr := idtp ?s1\<rparr>"
    by (simp add: idt_install_def irq_remap_ports idt_flush_def)
  then show ?thesis
    by blast
qed

lemma gdt_install_ok:
  assumes "length (gdt s) = 5"
  shows "\<exists>t. gdt_install gdt_addr s = Inr t \<and> gp_base (gdtr t) = gdt_addr \<and>
    map segment_base (gdt t) = [0, 0, 0, 0, 0] \<and> map segment_limit (gdt t) = [0, 0xFFFFF, 0xFFFFF, 0xFFFFF, 0xFFFFF] \<and>
    map segment_flags (gdt t) = [0, 0xC0, 0xC0, 0xC0, 0xC0] \<and> map access (gdt t) = [0, 0x9A, 0x92, 0xFA, 0xF2] \<and>
    selector_in_gdt (gdtr t) 0x08 \<and> selector_in_gdt (gdtr t) 0x10 \<and>
    \<not> selector_in_gdt (gdtr t) 0x1B \<and> \<not> selector_in_gdt (gdtr t) 0x23 \<and>
    (\<exists>p es. t = s\<lparr>gp := p, gdt := es, gdtr := p\<rparr>)"
proof -
  define s0 where "s0 = s\<lparr>gp := \<lparr>gp_limit = 23, gp_base = gdt_addr\<rparr>\<rparr>"
  have upd: "\<exists>e. gdt_set_gate (of_nat n) 0 limit acc gran (s0\<lparr>gdt := es\<rparr>) = Inr (s0\<lparr>gdt := es[n := e]\<rparr>) \<and>
      segment_base e = 0 \<and> segment_limit e = ucast (limit AND 0xFFFFF) \<and> segment_flags e = gran AND 0xF0 \<and> access e = acc"
    if "n < 5" "length es = 5" for n limit acc gran es
    using that gdt_set_gate_ok [of "of_nat n" "s0\<lparr>gdt := es\<rparr>" 0 limit acc gran] by (auto simp: unat_of_nat_u32)
  obtain a b c d e where g: "gdt s = [a, b, c, d, e]"
    using assms by (auto simp: eval_nat_numeral length_Suc_conv)
  have same: "s0\<lparr>gdt := gdt s\<rparr> = s0"
    by (simp add: s0_def)
  obtain e0 where e0: "gdt_set_gate 0 0 0 0 0 s0 = Inr (s0\<lparr>gdt := [e0, b, c, d, e]\<rparr>)"
      "segment_base e0 = 0" "segment_limit e0 = 0" "segment_flags e0 = 0" "access e0 = 0"
    using upd [of 0 "gdt s" 0 0 0] unfolding same using g by auto
  obtain e1 where e1: "gdt_set_gate 1 0 0xFFFFFFFF 0x9A 0xCF (s0\<lparr>gdt := [e0, b, c, d, e]\<rparr>) = Inr (s0\<lparr>gdt := [e0, e1, c, d, e]\<rparr>)"
      "segment_base e1 = 0" "segment_limit e1 = 0xFFFFF" "segment_flags e1 = 0xC0" "access e1 = 0x9A"
    using upd [of 1 "[e0, b, c, d, e]" "0xFFFFFFFF" "0x9A" "0xCF"] by auto
  obtain e2 where e2: "gdt_set_gate 2 0 0xFFFFFFFF 0x92 0xCF (s0\<lparr>gdt := [e0, e1, c, d, e]\<rparr>) = Inr (s0\<lparr>gdt := [e0, e1, e2, d, e]\<rparr>)"
      "segment_base e2 = 0" "segment_limit e2 = 0xFFFFF" "segment_flags e2 = 0xC0" "access e2 = 0x92"
    using upd [of 2 "[e0, e1, c, d, e]" "0xFFFFFFFF" "0x92" "0xCF"] by auto
  obtain e3 where e3: "gdt_set_gate 3 0 0xFFFFFFFF 0xFA 0xCF (s0\<lparr>gdt := [e0, e1, e2, d, e]\<rparr>) = Inr (s0\<lparr>gdt := [e0, e1, e2, e3, e]\<rparr>)"
      "segment_base e3 = 0" "segment_limit e3 = 0xFFFFF" "segment_flags e3 = 0xC0" "access e3 = 0xFA"
    using upd [of 3 "[e0, e1, e2, d, e]" "0xFFFFFFFF" "0xFA" "0xCF"] by auto
  obtain e4 where e4: "gdt_set_gate 4 0 0xFFFFFFFF 0xF2 0xCF (s0\<lparr>gdt := [e0, e1, e2, e3, e]\<rparr>) = Inr (s0\<lparr>gdt := [e0, e1, e2, e3, e4]\<rparr>)"
      "segment_base e4 = 0" "segment_limit e4 = 0xFFFFF" "segment_flags e4 = 0xC0" "access e4 = 0xF2"
    using upd [of 4 "[e0, e1, e2, e3, e]" "0xFFFFFFFF" "0xF2" "0xCF"] by auto
  have "gdt_install gdt_addr s = Inr (gdt_flush (s0\<lparr>gdt := [e0, e1, e2, e3, e4]\<rparr>))"
    using e0(1) e1(1) e2(1) e3(1) e4(1) by (simp add: gdt_install_def s0_def)
  moreover have "\<exists>p es. gdt_flush (s0\<lparr>gdt := [e0, e1, e2, e3, e4]\<rparr>) = s\<lparr>gp := p, gdt := es, gdtr := p\<rparr>"
    by (auto simp: gdt_flush_def s0_def)
  ultimately show ?thesis
    using e0 e1 e2 e3 e4 by (simp add: gdt_flush_def s0_def selector_in_gdt_def)
qed

section \<open>Properties\<close>

text \<open>A processor before the tables are set up.\<close>

definition sample_intr :: intr_state where
  "sample_intr = vga_state.extend sample_vga (intr_state.fields
     (replicate 5 \<lparr>limit_low = 0, base_low = 0, base_middle = 0, access = 0, granularity = 0, base_high = 0\<rparr>)
     \<lparr>gp_limit = 0, gp_base = 0\<rparr> \<lparr>gp_limit = 0, gp_base = 0\<rparr> (replicate 256 idt_zero)
     \<lparr>idtp_limit = 0, idtp_base = 0\<rparr> \<lparr>idtp_limit = 0, idtp_base = 0\<rparr>
     (replicate 256 \<lparr>debug_num = 0, debug_base = 0, debug_sel = 0, debug_flags = 0\<rparr>)
     isr_routines_init irq_routines_init)"

text \<open>
  C26: After \<open>idt_install\<close> the processor uses a table in which each of the 32 exceptions and 16 hardware
  interrupts leads to its stub through a present interrupt gate into the kernel's code segment, and
  every other vector has no gate.
\<close>

theorem idt_install_gates:
  "let t = idt_install idt_addr isr_stub irq_stub s in
     idtr t = \<lparr>idtp_limit = 2047, idtp_base = idt_addr\<rparr> \<and>
     (\<forall>v<32. gate_leads_to (idt t ! v) (isr_stub v)) \<and>
     (\<forall>v<16. gate_leads_to (idt t ! (32 + v)) (irq_stub v)) \<and>
     (\<forall>v. 48 \<le> v \<and> v < 256 \<longrightarrow> idt t ! v = idt_zero)"
  by (rule idt_install_ok)

theorem idt_install_gates_witness:
  "gate_leads_to (idt (idt_install 0x1000 (\<lambda>n. 0x100000 + 16 * of_nat n) (\<lambda>n. 0x200000 + 16 * of_nat n) sample_intr) ! 14) 0x1000E0 \<and>
   gate_leads_to (idt (idt_install 0x1000 (\<lambda>n. 0x100000 + 16 * of_nat n) (\<lambda>n. 0x200000 + 16 * of_nat n) sample_intr) ! 33) 0x200010"
proof -
  let ?t = "idt_install 0x1000 (\<lambda>n. 0x100000 + 16 * of_nat n) (\<lambda>n. 0x200000 + 16 * of_nat n) sample_intr"
  have "\<forall>v<32. gate_leads_to (idt ?t ! v) (0x100000 + 16 * of_nat v)" "\<forall>v<16. gate_leads_to (idt ?t ! (32 + v)) (0x200000 + 16 * of_nat v)"
    using idt_install_gates [of "0x1000" "\<lambda>n. 0x100000 + 16 * of_nat n" "\<lambda>n. 0x200000 + 16 * of_nat n" sample_intr]
    unfolding Let_def by blast+
  from this(1) [rule_format, of 14] this(2) [rule_format, of 1] show ?thesis
    by simp
qed

text \<open>
  \<open>gdt_install\<close> describes a null segment and four flat segments of 4 GiB, code and data for the
  kernel and for user mode; but the limit it loads covers the first three only, so the selectors of
  the user segments cannot be loaded.
\<close>

theorem gdt_install_segments:
  assumes "length (gdt s) = 5"
  shows "\<exists>t. gdt_install gdt_addr s = Inr t \<and> gp_base (gdtr t) = gdt_addr \<and>
    map segment_base (gdt t) = [0, 0, 0, 0, 0] \<and> map segment_limit (gdt t) = [0, 0xFFFFF, 0xFFFFF, 0xFFFFF, 0xFFFFF] \<and>
    map segment_flags (gdt t) = [0, 0xC0, 0xC0, 0xC0, 0xC0] \<and> map access (gdt t) = [0, 0x9A, 0x92, 0xFA, 0xF2] \<and>
    selector_in_gdt (gdtr t) 0x08 \<and> selector_in_gdt (gdtr t) 0x10 \<and>
    \<not> selector_in_gdt (gdtr t) 0x1B \<and> \<not> selector_in_gdt (gdtr t) 0x23"
  using gdt_install_ok [OF assms, of gdt_addr] by (elim exE conjE) (rule exI, intro conjI; assumption)

theorem gdt_install_segments_witness:
  "\<exists>t. gdt_install 0x5000 sample_intr = Inr t \<and> map access (gdt t) = [0, 0x9A, 0x92, 0xFA, 0xF2] \<and> \<not> selector_in_gdt (gdtr t) 0x1B"
  using gdt_install_segments [of sample_intr "0x5000"] by (auto simp: sample_intr_def vga_state.defs intr_state.defs)

end
