(* ===== verification/Interrupts.thy ===== *)
theory Interrupts
  imports Descriptors
begin

text \<open>
  Dispatch of exceptions (\<open>_fault_handler\<close> of \<^verbatim>\<open>kernel/arch/i386/isr.c\<close>) and of hardware interrupts
  (\<^verbatim>\<open>kernel/arch/i386/irq.c\<close>), with \<open>printk_debug\<close> of \<^verbatim>\<open>kernel/kernel/kernel.c\<close>, which they use. What
  runs when a handler is called through its address is a parameter, \<open>call\<close>.
\<close>

definition printk_debug :: "(nat \<Rightarrow> nat) \<Rightarrow> cstring \<Rightarrow> vararg list \<Rightarrow> 'a vga_state_scheme \<Rightarrow> 'a vga_state_scheme res" where
  "printk_debug room fmt args s =
     (let s = vga_textmode_setcolor (ucast (color_code COLOR_RED)) s
      in bindr (vga_textmode_writestring (lit ''DEBUG: '') s) (\<lambda>s.
         let s = vga_textmode_setcolor (make_color COLOR_LIGHT_GREY COLOR_BLACK) s
         in bindr (vprintf room fmt args s) (\<lambda>(_, s).
            bindr (putchar (ucast CHAR_NL) s) (\<lambda>(_, s). Inr s))))"

section \<open>Hardware interrupts\<close>

definition irq_install_handler :: "32 word \<Rightarrow> code_ptr \<Rightarrow> 'a intr_state_scheme \<Rightarrow> 'a intr_state_scheme res" where
  "irq_install_handler irq handler s =
     (if unat irq < length (irq_routines s)
      then Inr (s\<lparr>irq_routines := (irq_routines s)[unat irq := Some handler]\<rparr>) else Inl Wild_access)"

definition irq_uninstall_handler :: "32 word \<Rightarrow> 'a intr_state_scheme \<Rightarrow> 'a intr_state_scheme res" where
  "irq_uninstall_handler irq s =
     (if unat irq < length (irq_routines s)
      then Inr (s\<lparr>irq_routines := (irq_routines s)[unat irq := None]\<rparr>) else Inl Wild_access)"

definition irq_handler :: "(nat \<Rightarrow> nat) \<Rightarrow> (code_ptr \<Rightarrow> i386_registers \<Rightarrow> 'a intr_state_scheme \<Rightarrow> 'a intr_state_scheme res) \<Rightarrow>
    i386_registers \<Rightarrow> 'a intr_state_scheme \<Rightarrow> 'a intr_state_scheme res" where
  "irq_handler room call r s =
     (if unat (int_no r - 32) < length (irq_routines s) then
        bindr (case irq_routines s ! unat (int_no r - 32) of
                 Some handler \<Rightarrow> call handler r s
               | None \<Rightarrow> printk_debug room (lit ''Don't know how to handle IRQ #%d'') [Int_arg (int_no r - 32)] s) (\<lambda>s.
        let s = (if int_no r \<ge> 40 then outportb 0xA0 0x20 s else s)
        in Inr (outportb 0x20 0x20 s))
      else Inl Wild_access)"

section \<open>Exceptions\<close>

text \<open>
  Two commas are missing in the source, after \<^verbatim>\<open>COPROCESSOR FAULT\<close> and after \<^verbatim>\<open>machine check\<close>: the
  compiler joins the literals, and the table has 30 entries.
\<close>

definition exception_messages :: "cstring list" where
  "exception_messages = map lit
    [''Exception: division by zero'', ''Exception: debug exception'', ''Exception: non-maskable interrupt'',
     ''Exception: breakpoint'', ''Exception: overflow'', ''Exception: out of bounds'', ''Exception: invalid opcode'',
     ''Exception: no coprocessor'', ''Exception: double fault'', ''Exception: coprocessor segment overrun'',
     ''Exception: bad TSS'', ''Exception: segment not present'', ''Exception: STACK FAULT'',
     ''Exception: GENERAL PROTECTION FAULT'', ''Exception: PAGE FAULT'', ''Exception: unknown interrupt'',
     ''Exception: COPROCESSOR FAULT'' @ ''Exception: alignment check'',
     ''Exception: machine check'' @ ''Exception: INTEL RESERVED EXCEPTION''] @
    replicate 12 (lit ''Exception: INTEL RESERVED EXCEPTION'')"

text \<open>The generic handler; \<open>abort()\<close> never returns.\<close>

definition fault_handler :: "(nat \<Rightarrow> nat) \<Rightarrow> (code_ptr \<Rightarrow> i386_registers \<Rightarrow> 'a intr_state_scheme \<Rightarrow> 'a intr_state_scheme res) \<Rightarrow>
    i386_registers \<Rightarrow> 'a intr_state_scheme \<Rightarrow> 'a intr_state_scheme res" where
  "fault_handler room call r s =
     (if unat (int_no r) < length (isr_routines s) then
        (case isr_routines s ! unat (int_no r) of
           Some handler \<Rightarrow> call handler r s
         | None \<Rightarrow>
             let s = vga_textmode_setcolor (ucast (color_code COLOR_RED)) s
             in bindr (vga_textmode_writestring [CHAR_NL] s) (\<lambda>s.
                bindr (if unat (int_no r) < length exception_messages
                       then vga_textmode_writestring (exception_messages ! unat (int_no r)) s else Inl Wild_access) (\<lambda>s.
                bindr (vga_textmode_writestring ([CHAR_NL, CHAR_NL] @ lit ''Stack Dump:'' @ [CHAR_NL]) s) (\<lambda>s.
                bindr (printf room (lit ''EIP: 0x%x'' @ [CHAR_NL]) [Int_arg (r_eip r)] s) (\<lambda>s.
                bindr (printf room (lit ''ESP: 0x%x'' @ [CHAR_NL]) [Int_arg (r_esp r)] s) (\<lambda>s.
                bindr (printf room (lit ''Error Code: %d'' @ [CHAR_NL]) [Int_arg (err_code r)] s) (\<lambda>s.
                bindr (printf room ([CHAR_NL] @ lit ''HALT'' @ [CHAR_NL]) [] s) (\<lambda>s.
                Inl Aborted))))))))
      else Inl Wild_access)"

section \<open>Output that does not fail\<close>

lemma vga_ok_setcolor [simp]: "vga_ok (vga_textmode_setcolor c s) = vga_ok s"
  by (simp add: vga_ok_def vga_ready_def vga_textmode_setcolor_def)

lemma writestring_returns:
  assumes "vga_ok s" and "length data < 4294967296"
  obtains t where "vga_textmode_writestring data s = Inr t" and "vga_ok t" and "vga_state.more t = vga_state.more s"
  using vga_fold_ok [OF assms(1), of "takeWhile (\<lambda>c. c \<noteq> 0) data"] vga_writestring_fold [OF assms(2), of s]
  by (auto simp: vga_step_def)

lemma vprintf_returns:
  assumes "vga_ok s" and "room_ok room" and "list_all item_ok items" and "length (concat (map item_format items)) < 4294967280"
  obtains n t where "vprintf room (concat (map item_format items)) (concat (map item_args items)) s = Inr (n, t)" and "vga_ok t"
    and "vga_state.more t = vga_state.more s"
  using vprintf_items [OF assms(2-4), of 0 s] vga_fold_ok [OF assms(1), of "concat (map item_output items)"]
  by (auto simp: vprintf_def vga_step_def)

lemma printf_hex_line:
  assumes "vga_ok s" and "room_ok room" and "list_all (\<lambda>c. c \<noteq> 0 \<and> c \<noteq> CHAR_PERCENT) txt" and "length txt < 1000"
  obtains t where "printf room (txt @ lit ''%x'' @ [CHAR_NL]) [Int_arg d] s = Inr t" and "vga_ok t"
    and "vga_state.more t = vga_state.more s"
  by (rule vprintf_returns [OF assms(1,2), of "[Text txt, Hex_conv d, Text [CHAR_NL]]"])
    (use assms(3-) that in \<open>auto simp: printf_def CHAR_NL_def CHAR_PERCENT_def lit_def\<close>)

lemma printf_dec_line:
  assumes "vga_ok s" and "room_ok room" and "list_all (\<lambda>c. c \<noteq> 0 \<and> c \<noteq> CHAR_PERCENT) txt" and "length txt < 1000"
    and "unat d < 2147483648"
  obtains t where "printf room (txt @ lit ''%d'' @ [CHAR_NL]) [Int_arg d] s = Inr t" and "vga_ok t"
    and "vga_state.more t = vga_state.more s"
  by (rule vprintf_returns [OF assms(1,2), of "[Text txt, Int_conv d, Text [CHAR_NL]]"])
    (use assms(3-) that in \<open>auto simp: printf_def CHAR_NL_def CHAR_PERCENT_def lit_def\<close>)

lemma printf_text:
  assumes "vga_ok s" and "room_ok room" and "list_all (\<lambda>c. c \<noteq> 0 \<and> c \<noteq> CHAR_PERCENT) txt" and "length txt < 1000"
  obtains t where "printf room txt [] s = Inr t" and "vga_ok t" and "vga_state.more t = vga_state.more s"
  by (rule vprintf_returns [OF assms(1,2), of "[Text txt]"])
    (use assms(3-) that in \<open>auto simp: printf_def CHAR_NL_def CHAR_PERCENT_def lit_def\<close>)

lemma putchar_returns:
  assumes "vga_ok s"
  obtains t where "putchar ic s = Inr (ic, t)" and "vga_ok t" and "vga_state.more t = vga_state.more s"
  using vga_putchar_ok [OF assms, of "ucast ic"] by (auto simp: putchar_def vga_step_def)

lemma printk_debug_returns:
  assumes "vga_ok s" and "room_ok room" and "list_all item_ok items" and "length (concat (map item_format items)) < 4294967280"
  obtains t where "printk_debug room (concat (map item_format items)) (concat (map item_args items)) s = Inr t" and "vga_ok t"
    and "vga_state.more t = vga_state.more s"
proof -
  have "vga_ok (vga_textmode_setcolor (ucast (color_code COLOR_RED)) s)"
    using assms(1) by simp
  then obtain a where a: "vga_textmode_writestring (lit ''DEBUG: '') (vga_textmode_setcolor (ucast (color_code COLOR_RED)) s) = Inr a" "vga_ok a"
      "vga_state.more a = vga_state.more s"
    by (rule writestring_returns [of _ "lit ''DEBUG: ''"]) (simp_all add: lit_def vga_textmode_setcolor_def)
  obtain n b where b: "vprintf room (concat (map item_format items)) (concat (map item_args items)) (vga_textmode_setcolor (make_color COLOR_LIGHT_GREY COLOR_BLACK) a) = Inr (n, b)"
      "vga_ok b" "vga_state.more b = vga_state.more s"
    by (rule vprintf_returns [of "vga_textmode_setcolor (make_color COLOR_LIGHT_GREY COLOR_BLACK) a" room items])
      (use a assms in \<open>simp_all add: vga_textmode_setcolor_def vga_ok_def vga_ready_def\<close>)
  obtain t where "putchar (ucast CHAR_NL) b = Inr (ucast CHAR_NL, t)" "vga_ok t" "vga_state.more t = vga_state.more b"
    by (rule putchar_returns [OF b(2)])
  then show thesis
    using that a b by (simp add: printk_debug_def)
qed

section \<open>Properties\<close>

text \<open>The bytes that end an interrupt: to both controllers for the lines of the second one.\<close>

definition end_of_interrupt :: "u32 \<Rightarrow> (u16 \<times> u8) list" where
  "end_of_interrupt n = (if 40 \<le> n then [(0xA0, 0x20)] else []) @ [(0x20, 0x20)]"

text \<open>
  C27: For each of the 16 hardware interrupts, whether a handler is installed or the kernel only reports
  that there is none, the last thing the dispatcher does is to acknowledge the interrupt: to the
  first controller, and for the lines 8 to 15 to the second one before it.
\<close>

theorem irq_handler_acknowledges:
  assumes "32 \<le> int_no r" and "int_no r < 48" and "length (irq_routines s) = 16" and "vga_ok s" and "room_ok room"
    and "\<And>h. irq_routines s ! unat (int_no r - 32) = Some h \<Longrightarrow> \<exists>u. call h r s = Inr u"
  shows "\<exists>u. (\<forall>h. irq_routines s ! unat (int_no r - 32) = Some h \<longrightarrow> call h r s = Inr u) \<and>
    irq_handler room call r s = Inr (u\<lparr>port_writes := port_writes u @ end_of_interrupt (int_no r)\<rparr>)"
proof -
  have n: "unat (int_no r - 32) < 16"
    using assms(1,2) by unat_arith
  let ?items = "[Text (lit ''Don't know how to handle IRQ #''), Int_conv (int_no r - 32)]"
  obtain d where "printk_debug room (concat (map item_format ?items)) (concat (map item_args ?items)) s = Inr d"
    by (rule printk_debug_returns [OF assms(4,5), of ?items]) (use n in \<open>auto simp: lit_def CHAR_PERCENT_def\<close>)
  then have d: "printk_debug room (lit ''Don't know how to handle IRQ #%d'') [Int_arg (int_no r - 32)] s = Inr d"
    by (simp add: lit_def)
  obtain u where u: "(case irq_routines s ! unat (int_no r - 32) of Some handler \<Rightarrow> call handler r s
      | None \<Rightarrow> printk_debug room (lit ''Don't know how to handle IRQ #%d'') [Int_arg (int_no r - 32)] s) = Inr u"
    using assms(6) d by (cases "irq_routines s ! unat (int_no r - 32)") auto
  then have "irq_handler room call r s = Inr (u\<lparr>port_writes := port_writes u @ end_of_interrupt (int_no r)\<rparr>)"
    unfolding irq_handler_def using n assms(3) by (simp add: outportb_def end_of_interrupt_def)
  moreover have "\<forall>h. irq_routines s ! unat (int_no r - 32) = Some h \<longrightarrow> call h r s = Inr u"
    using u by auto
  ultimately show ?thesis
    by blast
qed

definition sample_regs :: "u32 \<Rightarrow> i386_registers" where
  "sample_regs n = \<lparr>r_gs = 0, r_fs = 0, r_es = 0, r_ds = 0, r_edi = 0, r_esi = 0, r_ebp = 0, r_esp = 0, r_ebx = 0, r_edx = 0,
     r_ecx = 0, r_eax = 0, int_no = n, err_code = 0, r_eip = 0, r_cs = 0, r_eflags = 0, r_useresp = 0, r_ss = 0\<rparr>"

lemma sample_intr_ok: "vga_ok sample_intr" "length (irq_routines sample_intr) = 16" "irq_routines sample_intr = replicate 16 None"
  "isr_routines sample_intr = replicate 32 None" "room_ok (\<lambda>n. n + 16)"
  by (simp_all add: sample_intr_def sample_vga_def vga_state.defs intr_state.defs vga_ok_def vga_ready_def VGA_HEIGHT_def VGA_WIDTH_def
      room_ok_def isr_routines_init_def irq_routines_init_def)

theorem irq_handler_acknowledges_witness:
  "\<exists>u. irq_handler (\<lambda>n. n + 16) (\<lambda>_ _. Inr) (sample_regs 44) sample_intr =
     Inr (u\<lparr>port_writes := port_writes u @ [(0xA0, 0x20), (0x20, 0x20)]\<rparr>)"
  using irq_handler_acknowledges [of "sample_regs 44" sample_intr "\<lambda>n. n + 16" "\<lambda>_ _. Inr"] sample_intr_ok
  by (auto simp: sample_regs_def end_of_interrupt_def)

text \<open>
  An exception for which no handler is installed stops the machine: after the report \<open>abort\<close> is
  called. For the last two vectors the report itself reads past the end of the table of messages.
\<close>

theorem fault_handler_halts:
  assumes "unat (int_no r) < 32" and "isr_routines s = replicate 32 None" and "vga_ok s" and "room_ok room"
    and "unat (err_code r) < 2147483648"
  shows "fault_handler room call r s = Inl (if int_no r < 30 then Aborted else Wild_access)"
proof -
  let ?s0 = "vga_textmode_setcolor (ucast (color_code COLOR_RED)) s"
  have len: "length exception_messages = 30"
    by (simp add: exception_messages_def)
  have short: "length m < 4294967296" if "m \<in> set exception_messages" for m
    using that by (auto simp: exception_messages_def lit_def)
  obtain a where a: "vga_textmode_writestring [CHAR_NL] ?s0 = Inr a" "vga_ok a"
    by (rule writestring_returns [of ?s0 "[CHAR_NL]"]) (use assms(3) in simp_all)
  show ?thesis
  proof (cases "int_no r < 30")
    case True
    then have i: "unat (int_no r) < 30"
      by (simp add: word_less_nat_alt)
    obtain b where b: "vga_textmode_writestring (exception_messages ! unat (int_no r)) a = Inr b" "vga_ok b"
      by (rule writestring_returns [OF a(2), of "exception_messages ! unat (int_no r)"]) (use i len short in \<open>auto simp: nth_mem\<close>)
    obtain c where c: "vga_textmode_writestring ([CHAR_NL, CHAR_NL] @ lit ''Stack Dump:'' @ [CHAR_NL]) b = Inr c" "vga_ok c"
      by (rule writestring_returns [OF b(2), of "[CHAR_NL, CHAR_NL] @ lit ''Stack Dump:'' @ [CHAR_NL]"]) (auto simp: lit_def)
    obtain d where d: "printf room (lit ''EIP: 0x'' @ lit ''%x'' @ [CHAR_NL]) [Int_arg (r_eip r)] c = Inr d" "vga_ok d"
      by (rule printf_hex_line [OF c(2) assms(4), of "lit ''EIP: 0x''" "r_eip r"]) (auto simp: lit_def CHAR_PERCENT_def)
    obtain e where e: "printf room (lit ''ESP: 0x'' @ lit ''%x'' @ [CHAR_NL]) [Int_arg (r_esp r)] d = Inr e" "vga_ok e"
      by (rule printf_hex_line [OF d(2) assms(4), of "lit ''ESP: 0x''" "r_esp r"]) (auto simp: lit_def CHAR_PERCENT_def)
    obtain f where f: "printf room (lit ''Error Code: '' @ lit ''%d'' @ [CHAR_NL]) [Int_arg (err_code r)] e = Inr f" "vga_ok f"
      by (rule printf_dec_line [OF e(2) assms(4), of "lit ''Error Code: ''" "err_code r"]) (use assms(5) in \<open>auto simp: lit_def CHAR_PERCENT_def\<close>)
    obtain g where g: "printf room ([CHAR_NL] @ lit ''HALT'' @ [CHAR_NL]) [] f = Inr g"
      by (rule printf_text [OF f(2) assms(4), of "[CHAR_NL] @ lit ''HALT'' @ [CHAR_NL]"]) (auto simp: lit_def CHAR_PERCENT_def CHAR_NL_def)
    show ?thesis
      using True i assms(1,2) len a(1) b(1) c(1) d(1) e(1) f(1) g by (simp add: fault_handler_def lit_def)
  next
    case False
    then have "\<not> unat (int_no r) < 30"
      by (simp add: word_less_nat_alt)
    then show ?thesis
      using False assms(1,2) len a(1) by (simp add: fault_handler_def)
  qed
qed

theorem fault_handler_halts_witness:
  "fault_handler (\<lambda>n. n + 16) (\<lambda>_ _. Inr) (sample_regs 13) sample_intr = Inl Aborted \<and>
   fault_handler (\<lambda>n. n + 16) (\<lambda>_ _. Inr) (sample_regs 31) sample_intr = Inl Wild_access"
  using fault_handler_halts [of "sample_regs 13" sample_intr "\<lambda>n. n + 16" "\<lambda>_ _. Inr"]
    fault_handler_halts [of "sample_regs 31" sample_intr "\<lambda>n. n + 16" "\<lambda>_ _. Inr"] sample_intr_ok
  by (simp add: sample_regs_def)

end
