(* ===== verification/Pit.thy ===== *)
theory Pit
  imports Interrupts
begin

text \<open>
  The interval timer and the routines it runs, \<^verbatim>\<open>kernel/drivers/pc/pit.c\<close>, with \<open>kernel_thread_sleep\<close> of
  \<^verbatim>\<open>kernel/kernel/kernel_thread.c\<close>. What a routine does when it is called through its address is a
  parameter, \<open>run\<close>; what happens while a waiting loop lets interrupts in is another, \<open>idle\<close>.
\<close>

definition PIT_TIMER_CONSTANT :: u32 where "PIT_TIMER_CONSTANT = 1000"

record pit_routine =
  hz :: u32
  func :: code_ptr

record pit_state = intr_state +
  pit_routines :: "pit_routine list"
  pit_routines_size :: u16
  pit_total_timer_ticks :: u32

definition pit_install_scheduler_routine :: "pit_routine \<Rightarrow> 'a pit_state_scheme \<Rightarrow> (u16 \<times> 'a pit_state_scheme) res" where
  "pit_install_scheduler_routine r s =
     (if pit_routines_size s \<ge> 64 then Inr (- 1, s)
      else if unat (pit_routines_size s) < length (pit_routines s)
      then Inr (pit_routines_size s, s\<lparr>pit_routines := (pit_routines s)[unat (pit_routines_size s) := r],
                                       pit_routines_size := pit_routines_size s + 1\<rparr>)
      else Inl Wild_access)"

definition pit_uninstall_scheduler_routine :: "u16 \<Rightarrow> 'a pit_state_scheme \<Rightarrow> 'a pit_state_scheme res" where
  "pit_uninstall_scheduler_routine index s =
     (if unat index < length (pit_routines s)
      then Inr (s\<lparr>pit_routines := (pit_routines s)[unat index := (pit_routines s ! unat index)\<lparr>hz := 0\<rparr>]\<rparr>)
      else Inl Wild_access)"

text \<open>The divisor is computed as an \<open>int\<close> and kept in 16 bits; \<^verbatim>\<open>>>\<close> shifts it arithmetically.\<close>

definition pit_set_timer_phase :: "16 word \<Rightarrow> 'a vga_state_scheme \<Rightarrow> 'a vga_state_scheme res" where
  "pit_set_timer_phase rate s =
     (if rate = 0 then Inl Divide_error
      else let divisor = (word_of_int (1193180 sdiv sint rate) :: 16 word);
               s = outportb 0x43 0x36 s;
               s = outportb 0x40 (ucast (divisor AND 0xFF)) s
           in Inr (outportb 0x40 (ucast (signed_drop_bit 8 divisor)) s))"

text \<open>
  The loop of the interrupt handler. It reads the number of routines and the tick count anew each
  time round, as a routine might change them.
\<close>

function pit_run_loop :: "(code_ptr \<Rightarrow> 'a pit_state_scheme \<Rightarrow> 'a pit_state_scheme res) \<Rightarrow> nat \<Rightarrow> 'a pit_state_scheme \<Rightarrow> 'a pit_state_scheme res" where
  "pit_run_loop run i s =
     (if i < unat (pit_routines_size s) then
        if i < length (pit_routines s) then
          bindr (umod (pit_total_timer_ticks s) (hz (pit_routines s ! i))) (\<lambda>m.
          bindr (if m = 0 then run (func (pit_routines s ! i)) s else Inr s) (pit_run_loop run (i + 1)))
        else Inl Wild_access
      else Inr s)"
  by pat_completeness auto
termination
proof (relation "measure (\<lambda>(_, i, _). 65536 - i)", goal_cases)
  case (2 run i s m t)
  have "unat (pit_routines_size s) < 65536"
    using unsigned_less [of "pit_routines_size s"] by simp
  then show ?case
    using 2 by simp
qed simp

declare pit_run_loop.simps [simp del]

definition pit_irq_timer_handler :: "(nat \<Rightarrow> nat) \<Rightarrow> (code_ptr \<Rightarrow> 'a pit_state_scheme \<Rightarrow> 'a pit_state_scheme res) \<Rightarrow>
    i386_registers \<Rightarrow> 'a pit_state_scheme \<Rightarrow> 'a pit_state_scheme res" where
  "pit_irq_timer_handler room run r s =
     (if int_no r - 32 \<noteq> 0 then
        bindr (printf room (lit ''ERROR: this routine needs to be triggered from IRQ 0'' @ [CHAR_NL]) [] s) (\<lambda>_. Inl Aborted)
      else pit_run_loop run 0 (s\<lparr>pit_total_timer_ticks := pit_total_timer_ticks s + 1\<rparr>))"

text \<open>The handler is installed by its address.\<close>

definition pit_timer_install_irq :: "code_ptr \<Rightarrow> 'a intr_state_scheme \<Rightarrow> 'a intr_state_scheme res" where
  "pit_timer_install_irq handler s =
     bindr (pit_set_timer_phase (ucast PIT_TIMER_CONSTANT) s) (irq_install_handler 0 handler)"

definition pit_get_total_ticks :: "'a pit_state_scheme \<Rightarrow> u32" where
  "pit_get_total_ticks s = pit_total_timer_ticks s"

partial_function (option) pit_wait_loop :: "('a pit_state_scheme \<Rightarrow> 'a pit_state_scheme res) \<Rightarrow> u32 \<Rightarrow> 'a pit_state_scheme \<Rightarrow>
    'a pit_state_scheme res option" where
  "pit_wait_loop idle desired_ticks s =
     (if desired_ticks > pit_total_timer_ticks s
      then (case idle s of Inl e \<Rightarrow> Some (Inl e) | Inr s \<Rightarrow> pit_wait_loop idle desired_ticks s)
      else Some (Inr s))"

definition pit_timer_wait :: "('a pit_state_scheme \<Rightarrow> 'a pit_state_scheme res) \<Rightarrow> u32 \<Rightarrow> 'a pit_state_scheme \<Rightarrow> 'a pit_state_scheme res" where
  "pit_timer_wait idle seconds s =
     or_diverge (pit_wait_loop idle (pit_total_timer_ticks s + seconds * PIT_TIMER_CONSTANT) s)"

definition pit_timer_wait_ms :: "('a pit_state_scheme \<Rightarrow> 'a pit_state_scheme res) \<Rightarrow> u32 \<Rightarrow> 'a pit_state_scheme \<Rightarrow> 'a pit_state_scheme res" where
  "pit_timer_wait_ms idle ms s =
     or_diverge (pit_wait_loop idle (pit_total_timer_ticks s + ms * (PIT_TIMER_CONSTANT div 1000)) s)"

definition kernel_thread_sleep :: "('a pit_state_scheme \<Rightarrow> 'a pit_state_scheme res) \<Rightarrow> u32 \<Rightarrow> 'a pit_state_scheme \<Rightarrow> 'a pit_state_scheme res" where
  "kernel_thread_sleep idle seconds s = pit_timer_wait idle seconds s"

section \<open>The scheduler\<close>

text \<open>The table has room for 64 routines, and every one of them has a period.\<close>

definition pit_inv :: "'a pit_state_scheme \<Rightarrow> bool" where
  "pit_inv s \<longleftrightarrow> length (pit_routines s) = 64 \<and> unat (pit_routines_size s) \<le> 64 \<and>
     (\<forall>i<unat (pit_routines_size s). hz (pit_routines s ! i) \<noteq> 0)"

definition installed :: "'a pit_state_scheme \<Rightarrow> pit_routine list" where
  "installed s = take (unat (pit_routines_size s)) (pit_routines s)"

text \<open>The routines that a tick has to run, in the order of their installation.\<close>

definition due :: "u32 \<Rightarrow> pit_routine list \<Rightarrow> code_ptr list" where
  "due ticks rs = map func (filter (\<lambda>r. ticks mod hz r = 0) rs)"

text \<open>What the handler relies on: a routine returns, and leaves the timer's own variables alone.\<close>

definition runs_ok :: "(code_ptr \<Rightarrow> 'a pit_state_scheme \<Rightarrow> 'a pit_state_scheme res) \<Rightarrow> bool" where
  "runs_ok run \<longleftrightarrow> (\<forall>f s. \<exists>t. run f s = Inr t \<and> pit_routines t = pit_routines s \<and>
     pit_routines_size t = pit_routines_size s \<and> pit_total_timer_ticks t = pit_total_timer_ticks s)"

lemma pit_run_loop_ok:
  assumes "runs_ok run" and "pit_inv s" and "i \<le> unat (pit_routines_size s)"
  shows "pit_run_loop run i s = fold_res run (due (pit_total_timer_ticks s) (drop i (installed s))) s"
  using assms(2,3)
proof (induction "unat (pit_routines_size s) - i" arbitrary: i s)
  case 0
  then show ?case
    by (simp add: pit_run_loop.simps installed_def due_def)
next
  case (Suc n)
  then have i: "i < unat (pit_routines_size s)" "i < length (pit_routines s)" "hz (pit_routines s ! i) \<noteq> 0"
    by (auto simp: pit_inv_def)
  let ?r = "pit_routines s ! i"
  have drop: "drop i (installed s) = ?r # drop (Suc i) (installed s)"
    using i by (simp add: installed_def Cons_nth_drop_Suc [symmetric])
  obtain t where t: "run (func ?r) s = Inr t" "pit_routines t = pit_routines s"
      "pit_routines_size t = pit_routines_size s" "pit_total_timer_ticks t = pit_total_timer_ticks s"
    using assms(1) by (auto simp: runs_ok_def)
  have step: "pit_run_loop run (Suc i) u = fold_res run (due (pit_total_timer_ticks s) (drop (Suc i) (installed s))) u"
    if "pit_routines u = pit_routines s" "pit_routines_size u = pit_routines_size s" "pit_total_timer_ticks u = pit_total_timer_ticks s" for u
    using Suc.hyps(1) [of u "Suc i"] Suc.hyps(2) Suc.prems that i by (simp add: pit_inv_def installed_def)
  show ?case
    using i t step by (subst pit_run_loop.simps) (simp add: drop due_def)
qed

lemma pit_handler_ok:
  assumes "runs_ok run" and "pit_inv s" and "int_no r = 32"
  shows "pit_irq_timer_handler room run r s =
    fold_res run (due (pit_total_timer_ticks s + 1) (installed s)) (s\<lparr>pit_total_timer_ticks := pit_total_timer_ticks s + 1\<rparr>)"
  using pit_run_loop_ok [OF assms(1), of "s\<lparr>pit_total_timer_ticks := pit_total_timer_ticks s + 1\<rparr>" 0] assms
  by (simp add: pit_irq_timer_handler_def pit_inv_def installed_def)


lemma pit_install_ok:
  assumes "pit_inv s" and "pit_routines_size s < 64" and "hz r \<noteq> 0"
  obtains t where "pit_install_scheduler_routine r s = Inr (pit_routines_size s, t)" and "pit_inv t"
    and "installed t = installed s @ [r]" and "pit_total_timer_ticks t = pit_total_timer_ticks s"
proof -
  let ?n = "unat (pit_routines_size s)"
  have n: "?n < 64" "unat (pit_routines_size s + 1) = Suc ?n"
    using assms(2) by (simp_all add: word_less_nat_alt unat_word_ariths)
  have l: "length (pit_routines s) = 64"
    using assms(1) by (simp add: pit_inv_def)
  let ?t = "s\<lparr>pit_routines := (pit_routines s)[?n := r], pit_routines_size := pit_routines_size s + 1\<rparr>"
  show thesis
  proof (rule that [of ?t])
    have "\<not> 64 \<le> pit_routines_size s"
      using assms(2) by (simp add: not_le)
    then show "pit_install_scheduler_routine r s = Inr (pit_routines_size s, ?t)"
      using n l by (simp add: pit_install_scheduler_routine_def)
    show "pit_inv ?t"
      using assms(1,3) n l by (auto simp: pit_inv_def less_Suc_eq nth_list_update)
    show "installed ?t = installed s @ [r]"
      using n l by (simp add: installed_def take_Suc_conv_app_nth)
  qed simp
qed

lemma pit_run_loop_traps:
  assumes "runs_ok run" and "i \<le> k" and "k < unat (pit_routines_size s)" and "k < length (pit_routines s)"
    and "hz (pit_routines s ! k) = 0" and "\<forall>j<k. hz (pit_routines s ! j) \<noteq> 0"
  shows "pit_run_loop run i s = Inl Divide_error"
  using assms(2-)
proof (induction "k - i" arbitrary: i s)
  case 0
  then show ?case
    by (simp add: pit_run_loop.simps)
next
  case (Suc n)
  let ?r = "pit_routines s ! i"
  obtain t where t: "run (func ?r) s = Inr t" "pit_routines t = pit_routines s"
      "pit_routines_size t = pit_routines_size s"
    using assms(1) by (auto simp: runs_ok_def)
  have step: "pit_run_loop run (Suc i) u = Inl Divide_error"
    if "pit_routines u = pit_routines s" "pit_routines_size u = pit_routines_size s" for u
    using Suc.hyps(1) [of "Suc i" u] Suc.hyps(2) Suc.prems that by simp
  have "i < k"
    using Suc.hyps(2) by simp
  then show ?case
    using Suc.prems t step by (subst pit_run_loop.simps) simp
qed

section \<open>Waiting\<close>

text \<open>What a wait relies on: while it idles, a timer interrupt comes in and is counted.\<close>

definition ticks_on :: "('a pit_state_scheme \<Rightarrow> 'a pit_state_scheme res) \<Rightarrow> bool" where
  "ticks_on idle \<longleftrightarrow> (\<forall>s. \<exists>t. idle s = Inr t \<and> pit_total_timer_ticks t = pit_total_timer_ticks s + 1)"

lemma pit_wait_loop_ok:
  assumes "ticks_on idle" and "pit_total_timer_ticks s \<le> d"
  shows "\<exists>t. pit_wait_loop idle d s = Some (Inr t) \<and> pit_total_timer_ticks t = d"
  using assms(2)
proof (induction "unat (d - pit_total_timer_ticks s)" arbitrary: s)
  case 0
  then have "pit_total_timer_ticks s = d"
    by (simp add: unat_eq_0)
  then show ?case
    by (simp add: pit_wait_loop.simps)
next
  case (Suc n)
  obtain t where t: "idle s = Inr t" "pit_total_timer_ticks t = pit_total_timer_ticks s + 1"
    using assms(1) by (auto simp: ticks_on_def)
  have less: "pit_total_timer_ticks s < d"
    using Suc by (cases "pit_total_timer_ticks s = d") (simp_all add: order_less_le)
  then have "n = unat (d - pit_total_timer_ticks t)" "pit_total_timer_ticks t \<le> d"
    using Suc.hyps(2) t(2) by (unat_arith+)
  then have "\<exists>u. pit_wait_loop idle d t = Some (Inr u) \<and> pit_total_timer_ticks u = d"
    using Suc.hyps(1) [of t] by simp
  then show ?case
    using less t by (subst pit_wait_loop.simps) simp
qed

section \<open>Properties\<close>

text \<open>A timer with one routine, to be run every ten ticks, and nine ticks counted.\<close>

definition sample_pit :: pit_state where
  "sample_pit = intr_state.extend sample_intr
     (pit_state.fields (\<lparr>hz = 10, func = 0x60\<rparr> # replicate 63 \<lparr>hz = 0, func = 0\<rparr>) 1 9)"

lemma sample_pit_simps [simp]:
  "pit_routines sample_pit = \<lparr>hz = 10, func = 0x60\<rparr> # replicate 63 \<lparr>hz = 0, func = 0\<rparr>"
  "pit_routines_size sample_pit = 1" "pit_total_timer_ticks sample_pit = 9"
  by (simp_all add: sample_pit_def intr_state.defs pit_state.defs)

lemma sample_pit_inv: "pit_inv sample_pit"
  by (simp add: pit_inv_def)

text \<open>
  C28: A routine is installed at the next free place, and the next tick of the timer runs exactly the
  installed routines whose period divides the number of ticks, the new one included, in the order of
  their installation.
\<close>

theorem pit_tick_runs_due:
  assumes "runs_ok run" and "pit_inv s" and "pit_routines_size s < 64" and "hz p \<noteq> 0" and "int_no r = 32"
  shows "\<exists>t. pit_install_scheduler_routine p s = Inr (pit_routines_size s, t) \<and> pit_inv t \<and>
    pit_irq_timer_handler room run r t =
      fold_res run (due (pit_total_timer_ticks s + 1) (installed s @ [p])) (t\<lparr>pit_total_timer_ticks := pit_total_timer_ticks s + 1\<rparr>)"
proof -
  obtain t where t: "pit_install_scheduler_routine p s = Inr (pit_routines_size s, t)" "pit_inv t"
      "installed t = installed s @ [p]" "pit_total_timer_ticks t = pit_total_timer_ticks s"
    by (rule pit_install_ok [OF assms(2-4)])
  then show ?thesis
    using pit_handler_ok [OF assms(1) t(2) assms(5), of room] by auto
qed

theorem pit_tick_runs_due_witness:
  "\<exists>t. pit_install_scheduler_routine \<lparr>hz = 4, func = 0x70\<rparr> sample_pit = Inr (1, t) \<and>
     pit_irq_timer_handler (\<lambda>n. n + 16) (\<lambda>f s. Inr (outportb 0x80 (ucast f) s)) (sample_regs 32) t =
       Inr (outportb 0x80 0x60 (t\<lparr>pit_total_timer_ticks := 10\<rparr>))"
proof -
  let ?run = "\<lambda>f s. Inr (outportb 0x80 (ucast (f :: u32)) (s :: pit_state))"
  have "runs_ok ?run"
    by (simp add: runs_ok_def outportb_def)
  moreover have "due 10 (installed sample_pit @ [\<lparr>hz = 4, func = 0x70\<rparr>]) = [0x60]"
    by (simp add: due_def installed_def)
  ultimately show ?thesis
    using pit_tick_runs_due [of ?run sample_pit "\<lparr>hz = 4, func = 0x70\<rparr>" "sample_regs 32" "\<lambda>n. n + 16"] sample_pit_inv
    by (auto simp: sample_regs_def)
qed

text \<open>
  Uninstalling a routine sets its period to zero but leaves it in the table, so that the next
  tick divides by zero.
\<close>

theorem pit_uninstall_traps:
  assumes "runs_ok run" and "pit_inv s" and "index < pit_routines_size s" and "int_no r = 32"
  shows "\<exists>t. pit_uninstall_scheduler_routine index s = Inr t \<and> pit_irq_timer_handler room run r t = Inl Divide_error"
proof -
  have i: "unat index < unat (pit_routines_size s)" "unat index < length (pit_routines s)"
    using assms(2,3) by (simp_all add: pit_inv_def word_less_nat_alt)
  let ?t = "s\<lparr>pit_routines := (pit_routines s)[unat index := (pit_routines s ! unat index)\<lparr>hz := 0\<rparr>]\<rparr>"
  have "pit_run_loop run 0 (?t\<lparr>pit_total_timer_ticks := pit_total_timer_ticks s + 1\<rparr>) = Inl Divide_error"
    by (rule pit_run_loop_traps [OF assms(1), of 0 "unat index"]) (use assms(2) i in \<open>auto simp: pit_inv_def\<close>)
  then show ?thesis
    using i assms(4) by (simp add: pit_uninstall_scheduler_routine_def pit_irq_timer_handler_def)
qed

theorem pit_uninstall_traps_witness:
  "\<exists>t. pit_uninstall_scheduler_routine 0 sample_pit = Inr t \<and>
     pit_irq_timer_handler (\<lambda>n. n + 16) (\<lambda>_. Inr) (sample_regs 32) t = Inl Divide_error"
  using pit_uninstall_traps [of "\<lambda>_. Inr" sample_pit 0 "sample_regs 32" "\<lambda>n. n + 16"] sample_pit_inv
  by (simp add: runs_ok_def sample_regs_def)



end
