(* ===== verification/Pckbd.thy ===== *)
theory Pckbd
  imports Pit
begin

text \<open>
  The keyboard driver, \<^verbatim>\<open>kernel/drivers/pc/pckbd.c\<close>, with the US layout of
  \<^verbatim>\<open>kernel/include/drivers/pc/pckbd_us.h\<close>. The byte read from the keyboard's port is a parameter.
\<close>

section \<open>Layouts\<close>

text \<open>A set of scancodes is an array of \<open>int\<close> and the length it is declared with.\<close>

record pckbd_scancode_set =
  scancode_arr :: "i32 list"
  scancode_arr_len :: size_t

record pckbd_driver =
  pckbd_sc :: pckbd_scancode_set
  pckbd_sc_shift :: pckbd_scancode_set
  pckbd_shift :: pckbd_scancode_set
  pckbd_sc_capslock :: pckbd_scancode_set
  pckbd_sc_shift_capslock :: pckbd_scancode_set
  pckbd_special :: "pckbd_scancode_set option"
  pckbd_caps_sc :: i32

definition keys :: "string \<Rightarrow> i32 list" where
  "keys cs = map of_char cs"

text \<open>An array of 128 elements with an initialiser: the elements not listed are zero.\<close>

definition array128 :: "i32 list \<Rightarrow> i32 list" where
  "array128 xs = xs @ replicate (128 - length xs) 0"

text \<open>
  The four tables have the same keys without a character at the end: function keys, the keypad's
  minus and plus, and the keys after them.
\<close>

definition us_keypad :: "i32 list" where
  "us_keypad =
     [0] @ replicate 8 0 @ [0, 0, 0, 0, 0, 0] @ keys ''-'' @ [0, 0, 0] @ keys ''+'' @
     [0, 0, 0, 0, 0] @ [0, 0, 0] @ [0, 0, 0]"

definition pckbd_us_qwerty_sc_arr :: "i32 list" where
  "pckbd_us_qwerty_sc_arr = array128
     ([0, 27] @ keys ''1234567890-='' @ [8, 9] @ keys ''qwertyuiop[]'' @ [10, 0] @
      keys ''asdfghjkl;'' @ [39] @ keys ''`'' @ [0] @ [92] @ keys ''zxcvbnm,./'' @ [0] @ keys ''*'' @ [0] @ keys '' '' @ [0] @ us_keypad)"

definition pckbd_us_qwerty_sc_shift_arr :: "i32 list" where
  "pckbd_us_qwerty_sc_shift_arr = array128
     ([0, 27] @ keys ''!@#$%^&*()_+'' @ [8, 9] @ keys ''QWERTYUIOP{}'' @ [10, 0] @
      keys ''ASDFGHJKL:'' @ [34] @ keys ''~'' @ [0] @ keys ''|ZXCVBNM<>?'' @ [0] @ keys ''*'' @ [0] @ keys '' '' @ [0] @ us_keypad)"

definition pckbd_us_qwerty_sc_capslock_arr :: "i32 list" where
  "pckbd_us_qwerty_sc_capslock_arr = array128
     ([0, 27] @ keys ''1234567890-='' @ [8, 9] @ keys ''QWERTYUIOP[]'' @ [10, 0] @
      keys ''ASDFGHJKL;'' @ [39] @ keys ''`'' @ [0] @ [92] @ keys ''ZXCVBNM,./'' @ [0] @ keys ''*'' @ [0] @ keys '' '' @ [0] @ us_keypad)"

definition pckbd_us_qwerty_sc_shift_capslock_arr :: "i32 list" where
  "pckbd_us_qwerty_sc_shift_capslock_arr = array128
     ([0, 27] @ keys ''!@#$%^&*()_+'' @ [8, 9] @ keys ''qwertyuiop{}'' @ [10, 0] @
      keys ''asdfghjkl:'' @ [34] @ keys ''~'' @ [0] @ keys ''|zxcvbnm<>?'' @ [0] @ keys ''*'' @ [0] @ keys '' '' @ [0] @ us_keypad)"

definition pckbd_us_qwerty_shift_arr :: "i32 list" where
  "pckbd_us_qwerty_shift_arr = [42, 54]"

definition pckbd_us_qwerty_sc :: pckbd_scancode_set where
  "pckbd_us_qwerty_sc = \<lparr>scancode_arr = pckbd_us_qwerty_sc_arr, scancode_arr_len = 128\<rparr>"

definition pckbd_us_qwerty_sc_shift :: pckbd_scancode_set where
  "pckbd_us_qwerty_sc_shift = \<lparr>scancode_arr = pckbd_us_qwerty_sc_shift_arr, scancode_arr_len = 128\<rparr>"

definition pckbd_us_qwerty_sc_capslock :: pckbd_scancode_set where
  "pckbd_us_qwerty_sc_capslock = \<lparr>scancode_arr = pckbd_us_qwerty_sc_capslock_arr, scancode_arr_len = 128\<rparr>"

definition pckbd_us_qwerty_sc_shift_capslock :: pckbd_scancode_set where
  "pckbd_us_qwerty_sc_shift_capslock = \<lparr>scancode_arr = pckbd_us_qwerty_sc_shift_capslock_arr, scancode_arr_len = 128\<rparr>"

definition pckbd_us_qwerty_shift :: pckbd_scancode_set where
  "pckbd_us_qwerty_shift = \<lparr>scancode_arr = pckbd_us_qwerty_shift_arr, scancode_arr_len = 2\<rparr>"

definition pckbd_us_qwerty :: pckbd_driver where
  "pckbd_us_qwerty =
     \<lparr>pckbd_sc = pckbd_us_qwerty_sc,
      pckbd_sc_shift = pckbd_us_qwerty_sc_shift,
      pckbd_shift = pckbd_us_qwerty_shift,
      pckbd_sc_capslock = pckbd_us_qwerty_sc_capslock,
      pckbd_sc_shift_capslock = pckbd_us_qwerty_sc_shift_capslock,
      pckbd_special = None,
      pckbd_caps_sc = 58\<rparr>"

lemmas us_layout_defs = pckbd_us_qwerty_def pckbd_us_qwerty_sc_def pckbd_us_qwerty_sc_shift_def
  pckbd_us_qwerty_sc_capslock_def pckbd_us_qwerty_sc_shift_capslock_def pckbd_us_qwerty_shift_def

section \<open>The driver\<close>

record kbd_state = pit_state +
  pckbd_selected_driver :: "pckbd_driver option"
  pckbd_is_capslock :: bool
  pckbd_is_shift :: bool

definition set_contains_sc :: "pckbd_scancode_set \<Rightarrow> i32 \<Rightarrow> bool res" where
  "set_contains_sc scs i =
     bindr (for_ret 0 (scancode_arr_len scs) (\<lambda>k _.
              if unat k < length (scancode_arr scs)
              then if scancode_arr scs ! unat k = i then Inr (Ret True) else Inr (Next ())
              else Inl Wild_access) ())
       (\<lambda>c. case c of Ret b \<Rightarrow> Inr b | Next _ \<Rightarrow> Inr False)"

text \<open>\<^verbatim>\<open>scancode_arr[cur_scancode]\<close>\<close>

definition scancode_char :: "pckbd_scancode_set \<Rightarrow> u8 \<Rightarrow> i32 res" where
  "scancode_char scs c = (if unat c < length (scancode_arr scs) then Inr (scancode_arr scs ! unat c) else Inl Wild_access)"

text \<open>The handler; \<open>ports\<close> is what the ports answer.\<close>

definition pckbd_irq_input_handler :: "(nat \<Rightarrow> nat) \<Rightarrow> (u16 \<Rightarrow> u8) \<Rightarrow> i386_registers \<Rightarrow> 'a kbd_state_scheme \<Rightarrow> 'a kbd_state_scheme res" where
  "pckbd_irq_input_handler room ports r s =
     (if int_no r - 32 \<noteq> 1 then
        bindr (printf room (lit ''ERROR: this routine needs to be triggered from IRQ 1'' @ [CHAR_NL]) [] s) (\<lambda>_. Inl Aborted)
      else (case pckbd_selected_driver s of
              None \<Rightarrow> Inl Wild_access
            | Some d \<Rightarrow>
                let cur_scancode = inportb ports 0x60
                in if cur_scancode AND 0x80 \<noteq> 0 then
                     bindr (set_contains_sc (pckbd_shift d) (ucast cur_scancode - 128)) (\<lambda>b.
                     Inr (if b then s\<lparr>pckbd_is_shift := \<not> pckbd_is_shift s\<rparr> else s))
                   else
                     bindr (set_contains_sc (pckbd_shift d) (ucast cur_scancode)) (\<lambda>b.
                     let s = (if b then s\<lparr>pckbd_is_shift := \<not> pckbd_is_shift s\<rparr> else s);
                         s = (if ucast cur_scancode = pckbd_caps_sc d then s\<lparr>pckbd_is_capslock := \<not> pckbd_is_capslock s\<rparr> else s)
                     in bindr (if pckbd_is_capslock s \<and> pckbd_is_shift s then scancode_char (pckbd_sc_shift_capslock d) cur_scancode
                               else if pckbd_is_shift s then scancode_char (pckbd_sc_shift d) cur_scancode
                               else if pckbd_is_capslock s then scancode_char (pckbd_sc_capslock d) cur_scancode
                               else scancode_char (pckbd_sc d) cur_scancode) (\<lambda>cur_char.
                        if cur_char \<noteq> 0 then printf room (lit ''%c'') [Int_arg cur_char] s else Inr s))))"

text \<open>The handler is installed by its address.\<close>

definition pckbd_install_irq :: "code_ptr \<Rightarrow> pckbd_driver \<Rightarrow> 'a kbd_state_scheme \<Rightarrow> 'a kbd_state_scheme res" where
  "pckbd_install_irq handler d s = irq_install_handler 1 handler (s\<lparr>pckbd_selected_driver := Some d\<rparr>)"

section \<open>The US layout\<close>

lemma us_tables_length: "length pckbd_us_qwerty_sc_arr = 128" "length pckbd_us_qwerty_sc_shift_arr = 128"
  "length pckbd_us_qwerty_sc_capslock_arr = 128" "length pckbd_us_qwerty_sc_shift_capslock_arr = 128"
  by (simp_all add: pckbd_us_qwerty_sc_arr_def pckbd_us_qwerty_sc_shift_arr_def pckbd_us_qwerty_sc_capslock_arr_def
      pckbd_us_qwerty_sc_shift_capslock_arr_def array128_def us_keypad_def keys_def)

text \<open>The character a key gives with the modifiers: caps lock changes the case of letters and nothing else.\<close>

definition is_lower :: "i32 \<Rightarrow> bool" where "is_lower c \<longleftrightarrow> 97 \<le> c \<and> c \<le> 122"
definition is_upper :: "i32 \<Rightarrow> bool" where "is_upper c \<longleftrightarrow> 65 \<le> c \<and> c \<le> 90"
definition swap_case :: "i32 \<Rightarrow> i32" where
  "swap_case c = (if is_lower c then c - 32 else if is_upper c then c + 32 else c)"

lemma us_capslock: "pckbd_us_qwerty_sc_capslock_arr = map swap_case pckbd_us_qwerty_sc_arr"
  "pckbd_us_qwerty_sc_shift_capslock_arr = map swap_case pckbd_us_qwerty_sc_shift_arr"
  by code_simp+


lemma us_contains_shift: "set_contains_sc (pckbd_shift pckbd_us_qwerty) i = Inr (i = 42 \<or> i = 54)"
  by (auto simp: set_contains_sc_def us_layout_defs pckbd_us_qwerty_shift_arr_def for_ret_step)

text \<open>The character of a key, from the two tables without caps lock.\<close>

definition key_char :: "bool \<Rightarrow> bool \<Rightarrow> u8 \<Rightarrow> i32" where
  "key_char shift caps c =
     (let k = (if shift then pckbd_us_qwerty_sc_shift_arr else pckbd_us_qwerty_sc_arr) ! unat c
      in if caps then swap_case k else k)"

lemma us_scancode_char:
  assumes "unat c < 128"
  shows "(if caps \<and> shift then scancode_char (pckbd_sc_shift_capslock pckbd_us_qwerty) c
     else if shift then scancode_char (pckbd_sc_shift pckbd_us_qwerty) c
     else if caps then scancode_char (pckbd_sc_capslock pckbd_us_qwerty) c
     else scancode_char (pckbd_sc pckbd_us_qwerty) c) = Inr (key_char shift caps c)"
  using assms by (simp add: scancode_char_def us_layout_defs key_char_def us_tables_length us_capslock)

lemma high_bit_iff: "c AND 0x80 \<noteq> 0 \<longleftrightarrow> 128 \<le> unat c" for c :: u8
proof -
  have "c AND 0x80 = 0 \<longleftrightarrow> \<not> bit c 7"
    using and_exp_eq_0_iff_not_bit [of c 7] by simp
  also have "bit c 7 \<longleftrightarrow> 128 \<le> unat c"
  proof -
    have u: "0 \<le> uint c" "uint c < 256"
      using uint_lt2p [of c] by simp_all
    have "bit c 7 \<longleftrightarrow> odd (uint c div 128)"
      using bit_uint_iff [of c 7] by (simp add: bit_iff_odd)
    also have "\<dots> \<longleftrightarrow> 128 \<le> uint c"
      using u by presburger
    also have "\<dots> \<longleftrightarrow> 128 \<le> unat c"
      by (simp add: word_le_def word_le_nat_alt [of 128 c, symmetric, simplified])
    finally show ?thesis .
  qed
  finally show ?thesis
    by simp
qed

section \<open>Properties\<close>

text \<open>
  C30: With the US layout, a key that is no modifier shows one character, or nothing if it has none:
  the shift state selects the table, and caps lock changes the case of letters and nothing else.
\<close>

theorem pckbd_prints_key:
  assumes "vga_ok s" and "room_ok room" and "int_no r = 33" and "pckbd_selected_driver s = Some pckbd_us_qwerty"
    and "unat c < 128" and "c \<notin> {42, 54, 58}" and "ports 0x60 = c"
  shows "\<exists>t. pckbd_irq_input_handler room ports r s = Inr t \<and> vga_ok t \<and>
    pckbd_is_shift t = pckbd_is_shift s \<and> pckbd_is_capslock t = pckbd_is_capslock s \<and>
    vga_screen t = (let k = key_char (pckbd_is_shift s) (pckbd_is_capslock s) c
      in if k = 0 then vga_screen s else screen_putchar (vga_textmode_color s) (ucast k) (vga_screen s))"
proof -
  define k where "k = key_char (pckbd_is_shift s) (pckbd_is_capslock s) c"
  have press: "\<not> c AND 0x80 \<noteq> 0"
    using assms(5) by (simp only: high_bit_iff)
  have "(ucast c :: i32) = ucast n \<longleftrightarrow> c = n" for n :: u8
    by (metis byte_int_byte)
  from this [of 42] this [of 54] this [of 58] assms(6)
  have plain: "(ucast c :: i32) \<noteq> 42" "(ucast c :: i32) \<noteq> 54" "(ucast c :: i32) \<noteq> pckbd_caps_sc pckbd_us_qwerty"
    by (simp_all add: pckbd_us_qwerty_def)
  have handler: "pckbd_irq_input_handler room ports r s = (if k \<noteq> 0 then printf room (lit ''%c'') [Int_arg k] s else Inr s)"
    using press plain assms(3,4,7) us_scancode_char [OF assms(5), of "pckbd_is_capslock s" "pckbd_is_shift s"]
    by (simp add: pckbd_irq_input_handler_def inportb_def us_contains_shift k_def)
  obtain t where t: "fold_res vga_textmode_putchar [ucast k] s = Inr t" "vga_step (fold (screen_putchar (vga_textmode_color s)) [ucast k]) s t"
    using vga_fold_ok [OF assms(1), of "[ucast k]"] by blast
  have "printf room (lit ''%c'') [Int_arg k] s = Inr t"
    using vprintf_items [OF assms(2), of "[Char_conv k]" 0 s] t(1) by (simp add: printf_def vprintf_def lit_def)
  moreover have "pckbd_is_shift t = pckbd_is_shift s" "pckbd_is_capslock t = pckbd_is_capslock s"
  proof -
    have m: "vga_state.more t = vga_state.more s"
      using t(2) by (simp add: vga_step_def)
    show "pckbd_is_shift t = pckbd_is_shift s" "pckbd_is_capslock t = pckbd_is_capslock s"
      using m by (cases s; cases t; simp)+
  qed
  ultimately show ?thesis
    using handler t(2) assms(1) by (cases "k = 0") (simp_all add: vga_step_def k_def [symmetric] Let_def)
qed

text \<open>A keyboard with caps lock on.\<close>

definition sample_kbd :: kbd_state where
  "sample_kbd = pit_state.extend sample_pit (kbd_state.fields (Some pckbd_us_qwerty) True False)"

lemma sample_kbd_simps: "vga_ok sample_kbd" "pckbd_selected_driver sample_kbd = Some pckbd_us_qwerty"
  "pckbd_is_capslock sample_kbd" "\<not> pckbd_is_shift sample_kbd"
  "vga_screen sample_kbd = vga_screen sample_vga" "vga_textmode_color sample_kbd = 7"
  by (simp_all add: sample_kbd_def sample_pit_def sample_intr_def sample_vga_def pit_state.defs kbd_state.defs vga_state.defs intr_state.defs
      vga_ok_def vga_ready_def VGA_HEIGHT_def VGA_WIDTH_def vga_screen_def vga_cells_def fun_eq_iff)

theorem pckbd_prints_key_witness:
  "\<exists>t. pckbd_irq_input_handler (\<lambda>n. n + 16) (\<lambda>_. 30) (sample_regs 33) sample_kbd = Inr t \<and>
     vga_screen t = screen_putchar 7 0x41 (vga_screen sample_vga)"
proof -
  have "pckbd_us_qwerty_sc_arr ! 30 = 97"
    by code_simp
  then have "key_char False True 30 = 0x41"
    by (simp add: key_char_def swap_case_def is_lower_def)
  then show ?thesis
    using pckbd_prints_key [of sample_kbd "\<lambda>n. n + 16" "sample_regs 33" 30 "\<lambda>_. 30"] sample_kbd_simps sample_intr_ok(5)
    by (auto simp: sample_regs_def)
qed

text \<open>
  Pressing and releasing a shift key both flip the shift state, whichever of the two keys it is; so
  the state is right as long as one of them is used at a time, and holding down both cancels it.
\<close>

theorem pckbd_shift_flips:
  assumes "int_no r = 33" and "pckbd_selected_driver s = Some pckbd_us_qwerty" and "c \<in> {42, 54, 170, 182}" and "ports 0x60 = c"
  shows "pckbd_irq_input_handler room ports r s = Inr (s\<lparr>pckbd_is_shift := \<not> pckbd_is_shift s\<rparr>)"
proof -
  have z: "pckbd_us_qwerty_sc_arr ! 42 = 0" "pckbd_us_qwerty_sc_arr ! 54 = 0" "pckbd_us_qwerty_sc_shift_arr ! 42 = 0" "pckbd_us_qwerty_sc_shift_arr ! 54 = 0"
    by code_simp+
  have k: "key_char sh caps c = 0" if "c = 42 \<or> c = 54" for sh caps
    using that z by (auto simp: key_char_def Let_def swap_case_def is_lower_def is_upper_def)
  consider (press) "c = 42 \<or> c = 54" | (release) "c = 170 \<or> c = 182"
    using assms(3) by blast
  then show ?thesis
  proof cases
    case press
    then have "unat c < 128" "\<not> c AND 0x80 \<noteq> 0" "(ucast c :: i32) = 42 \<or> (ucast c :: i32) = 54" "(ucast c :: i32) \<noteq> pckbd_caps_sc pckbd_us_qwerty"
      by (auto simp: pckbd_us_qwerty_def)
    then show ?thesis
      using assms(1,2,4) k [OF press] us_scancode_char [of c "pckbd_is_capslock s" "\<not> pckbd_is_shift s"]
      by (cases "pckbd_is_capslock s"; cases "pckbd_is_shift s")
        (simp_all add: pckbd_irq_input_handler_def inportb_def us_contains_shift Let_def)
  next
    case release
    then have "c AND 0x80 \<noteq> 0" "(ucast c - 128 :: i32) = 42 \<or> (ucast c - 128 :: i32) = 54"
      by auto
    then show ?thesis
      using assms(1,2,4) by (simp add: pckbd_irq_input_handler_def inportb_def us_contains_shift)
  qed
qed

theorem pckbd_shift_flips_witness:
  "pckbd_irq_input_handler (\<lambda>n. n + 16) (\<lambda>_. 42) (sample_regs 33) sample_kbd = Inr (sample_kbd\<lparr>pckbd_is_shift := True\<rparr>)"
  using pckbd_shift_flips [of "sample_regs 33" sample_kbd 42 "\<lambda>_. 42"] sample_kbd_simps by (simp add: sample_regs_def)

end
