(* ===== verification/Kernel_Boot.thy ===== *)
theory Kernel_Boot
  imports Kheap_Provider Pckbd
begin

text \<open>
  \<open>kernel_early\<close> of \<^verbatim>\<open>kernel/kernel/kernel.c\<close>: the order in which the kernel brings up the screen, the
  descriptor tables, the memory subsystem and its drivers, and what holds when it is done.
\<close>

section \<open>The kernel as a whole\<close>

text \<open>
  The console side (screen, descriptor tables, timer and keyboard) and the memory side have no
  variable in common but the table of exception handlers, which the memory side holds by the name of
  the handler and the console side by its address. \<open>interrupts_on\<close> is the interrupt flag, \<open>kalloc_data\<close>
  the allocation interface that is installed.
\<close>

record kernel_state =
  console :: kbd_state
  memory :: heap_state
  kalloc_data :: "heap_state kalloc_interface"
  interrupts_on :: bool

text \<open>
  What the linker and the compiler decide: the addresses of the tables, of the interrupt stubs and of
  the handlers, and the room that a variable-length array really has.
\<close>

record kernel_image =
  im_room :: "nat \<Rightarrow> nat"
  im_gdt :: u32
  im_idt :: u32
  im_isr_stub :: "nat \<Rightarrow> u32"
  im_irq_stub :: "nat \<Rightarrow> u32"
  im_page_fault_handler :: code_ptr
  im_pit_handler :: code_ptr
  im_pckbd_handler :: code_ptr
  im_kernel_task :: code_ptr

definition MULTIBOOT_BOOTLOADER_MAGIC :: u32 where "MULTIBOOT_BOOTLOADER_MAGIC = 0x2BADB002"

definition on_console :: "(kbd_state \<Rightarrow> kbd_state res) \<Rightarrow> kernel_state \<Rightarrow> kernel_state res" where
  "on_console f k = bindr (f (console k)) (\<lambda>c. Inr (k\<lparr>console := c\<rparr>))"

definition on_memory :: "(heap_state \<Rightarrow> heap_state res) \<Rightarrow> kernel_state \<Rightarrow> kernel_state res" where
  "on_memory f k = bindr (f (memory k)) (\<lambda>m. Inr (k\<lparr>memory := m\<rparr>))"

text \<open>The exception handlers the memory side installed, in the table the console side dispatches through.\<close>

definition handler_address :: "kernel_image \<Rightarrow> isr_handler \<Rightarrow> code_ptr" where
  "handler_address im h = (case h of I386_page_fault_handler \<Rightarrow> im_page_fault_handler im)"

definition share_handlers :: "kernel_image \<Rightarrow> kernel_state \<Rightarrow> kernel_state" where
  "share_handlers im k = k\<lparr>console := intr_state.isr_routines_update
     (\<lambda>_. map (map_option (handler_address im)) (paging_state.isr_routines (memory k))) (console k)\<rparr>"

text \<open>
  \<open>i386_mem_init\<close> tells where its heap starts and installs the early allocator; \<open>asa_init\<close> and
  \<open>i386_paging_init\<close> allocate with it.
\<close>

definition kernel_mem_init :: "kernel_image \<Rightarrow> boot_mem \<Rightarrow> uintptr_t \<Rightarrow> kernel_state \<Rightarrow> kernel_state res" where
  "kernel_mem_init im bm info k =
     bindr (i386_mem_init bm info (memory k)) (\<lambda>(kd, m).
     on_console (printk_debug (im_room im) (lit ''Heap started at 0x%x'') [Int_arg (kernel_heap_start (meminfo m))])
       (k\<lparr>kalloc_data := kd, memory := m\<rparr>))"

definition kernel_asa_init :: "kernel_state \<Rightarrow> kernel_state res" where
  "kernel_asa_init k =
     bindr (asa_init (kalloc_data k) PAGE_SIZE (kasa_data (memory k)) (memory k)) (\<lambda>((ret, ka), m).
     bindr (ASSERT (ret = K_SUCCESS) ''asa_init(PAGE_SIZE) == K_SUCCESS'') (\<lambda>_.
     Inr (k\<lparr>memory := m\<lparr>kasa_data := ka\<rparr>\<rparr>)))"

definition kernel_paging_init :: "kernel_image \<Rightarrow> kernel_state \<Rightarrow> kernel_state res" where
  "kernel_paging_init im k =
     bindr (on_memory (i386_paging_init (kalloc_data k)) k) (\<lambda>k. Inr (share_handlers im k))"

definition kernel_heap_install :: "kernel_state \<Rightarrow> kernel_state" where
  "kernel_heap_install k =
     (let (kd, m) = kheap_kalloc_install (i386_paging_interface (kalloc_data k)) (memory k)
      in k\<lparr>kalloc_data := kd, memory := m\<rparr>)"

definition kernel_early :: "kernel_image \<Rightarrow> boot_mem \<Rightarrow> u32 \<Rightarrow> uintptr_t \<Rightarrow> kernel_state \<Rightarrow> kernel_state res" where
  "kernel_early im bm mboot_magic info k =
     (let debug = (\<lambda>txt. on_console (printk_debug (im_room im) (lit txt) []))
      in bindr (if mboot_magic \<noteq> MULTIBOOT_BOOTLOADER_MAGIC then debug ''Invalid Multiboot Magic!'' k else Inr k) (\<lambda>k.
         bindr (on_console vga_textmode_initialize k) (\<lambda>k.
         bindr (on_console (gdt_install (im_gdt im)) k) (\<lambda>k.
         bindr (debug ''GDT Installed!'' k) (\<lambda>k.
         bindr (on_console (\<lambda>c. Inr (idt_install (im_idt im) (im_isr_stub im) (im_irq_stub im) c)) k) (\<lambda>k.
         bindr (debug ''IDT Installed!'' k) (\<lambda>k.
         bindr (kernel_mem_init im bm info k) (\<lambda>k.
         bindr (debug ''Memory Allocation functions enabled!'' k) (\<lambda>k.
         bindr (kernel_asa_init k) (\<lambda>k.
         bindr (kernel_paging_init im k) (\<lambda>k.
         bindr (debug ''Paging enabled!'' k) (\<lambda>k.
         let k = kernel_heap_install k
         in bindr (on_console (pit_timer_install_irq (im_pit_handler im)) k) (\<lambda>k.
            bindr (on_console (pckbd_install_irq (im_pckbd_handler im) pckbd_us_qwerty) k) (\<lambda>k.
            bindr (on_console (\<lambda>c. bindr (pit_install_scheduler_routine
                      \<lparr>hz = PIT_TIMER_CONSTANT, func = im_kernel_task im\<rparr> c) (\<lambda>(_, c). Inr c)) k) (\<lambda>k.
            debug ''Interrupts Enabled!'' (k\<lparr>interrupts_on := True\<rparr>))))))))))))))))"

text \<open>The task that the timer runs has an empty body.\<close>

definition kernel_task :: "'s \<Rightarrow> 's" where
  "kernel_task s = s"

section \<open>The memory side\<close>

text \<open>
  A machine the kernel can boot on: the boot information is well formed, there are at least 380
  frames (the reserved memory), and the kernel's sections start below \<open>0x129000\<close>, so that the early
  heap and the window page lie in the reserved memory.
\<close>

definition bootable :: "boot_mem \<Rightarrow> uintptr_t \<Rightarrow> multiboot_memory_map list \<Rightarrow> bool" where
  "bootable bm info es \<longleftrightarrow> boot_ok bm info es \<and> 1520 \<le> unat (mb_mem_upper (info_at bm info)) \<and>
     (\<forall>i < unat (elf_num (mb_elf_sec (info_at bm info)) - 1).
        unat (sh_addr (shdr_at bm (elf_addr (mb_elf_sec (info_at bm info)) +
          sizeof_elf_section_header * of_nat (Suc i)))) \<le> 0x129000)"

lemma heap_start_small:
  assumes "unat e \<le> 0x129000"
  shows "unat (heap_start_after (e + e mod 0x1000)) \<le> 0x12a000"
proof -
  have "unat (e + e mod 0x1000) = unat e + unat e mod 4096"
    using assms by (subst unat_add_no_wrap) (simp_all add: unat_mod)
  then have "unat (e + e mod 0x1000 + 0x1000) = unat e + unat e mod 4096 + 4096"
    using assms by (subst unat_add_no_wrap) simp_all
  then have h: "unat (heap_start_after (e + e mod 0x1000)) = (unat e + unat e mod 4096 + 4096) div 4096 * 4096"
    by (simp only: heap_start_after_def unat_page_mask)
  have d: "unat e = 4096 * (unat e div 4096) + unat e mod 4096" "unat e mod 4096 < 4096" "unat e div 4096 \<le> 0x129"
    using assms div_le_mono [of "unat e" "0x129000" 4096] by simp_all
  then have "unat e + unat e mod 4096 < 0x12a000"
    using assms by (cases "unat e div 4096 = 0x129") linarith+
  then have "(unat e + unat e mod 4096 + 4096) div 4096 < 0x12b"
    by (intro less_mult_imp_div_less) linarith
  then show ?thesis
    unfolding h by linarith
qed

lemma asa_bitset_size: "unat (DIV_ROUND_UP (KVIRT_MAX div PAGE_SIZE) 32 * 4) = 0x8000"
proof -
  have "unat (KVIRT_MAX div PAGE_SIZE) = 0x3FFFF"
    by (simp add: unat_div KVIRT_MAX_def PAGE_SIZE_def)
  moreover from this have "0 < KVIRT_MAX div PAGE_SIZE"
    by (simp add: word_less_nat_alt)
  ultimately have "unat (DIV_ROUND_UP (KVIRT_MAX div PAGE_SIZE) 32) = 0x2000"
    using unat_DIV_ROUND_UP [of "KVIRT_MAX div PAGE_SIZE" 32] by simp
  then show ?thesis
    using unat_mult_no_wrap [of "DIV_ROUND_UP (KVIRT_MAX div PAGE_SIZE) 32" 4] by simp
qed

text \<open>The memory side after \<open>i386_mem_init\<close>, as the next two steps need it.\<close>

definition mem_booted :: "heap_state kalloc_interface \<Rightarrow> heap_state \<Rightarrow> nat \<Rightarrow> bool" where
  "mem_booted kd m used \<longleftrightarrow> early m \<and> kalloc_malloc_real_fn kd = Some i386_mem_kmalloc_real \<and>
     placement_ok m \<and> page_aligned (kernel_heap_start (meminfo m)) \<and>
     unat (kernel_heap_start (meminfo m)) + 0x51000 < 0x17c000 \<and>
     unat (kernel_heap_curpos (meminfo m)) \<le> unat (kernel_heap_start (meminfo m)) + used \<and>
     frame_inv m \<and> 380 \<le> unat (bs_length (i386_mem_frame_bitset m)) \<and> length (paging_state.isr_routines m) = 32"

lemma mem_init_booted:
  assumes boot: "bootable bm info es" and m: "early m" "length (paging_state.isr_routines m) = 32"
  shows "\<exists>kd m'. i386_mem_init bm info m = Inr (kd, m') \<and> mem_booted kd m' 0x20008 \<and> mem_info_only m m' \<and>
     unat (highest_free_address (meminfo m')) = unat (mb_mem_upper (info_at bm info)) * 1024"
proof -
  have ok: "boot_ok bm info es"
    using boot by (simp add: bootable_def)
  obtain kd m' e where i: "i386_mem_init bm info m = Inr (kd, m')" "kalloc_malloc_real_fn kd = Some i386_mem_kmalloc_real"
      "frame_inv m'" "unat (highest_free_address (meminfo m')) = unat (mb_mem_upper (info_at bm info)) * 1024" "placement_ok m'"
    and e: "highest_section bm (meminfo m') e" "elf_sec (meminfo m') = mb_elf_sec (info_at bm info)"
      "kernel_heap_start (meminfo m') = heap_start_after (e + e mod 0x1000)"
    and c: "unat (kernel_heap_curpos (meminfo m')) \<le> unat (kernel_heap_start (meminfo m')) + 0x20008"
    and only: "mem_info_only m m'"
    using mem_init_ok [OF ok, of m] by blast
  have e9: "unat e \<le> 0x129000"
    using e(1,2) boot by (auto simp: highest_section_def section_addr_def bootable_def)
  have "unat (bs_length (i386_mem_frame_bitset m')) = unat (mb_mem_upper (info_at bm info)) * 1024 div 4096"
    using i(3,4) by (simp add: frame_inv_def unat_div PAGE_SIZE_def)
  then have "380 \<le> unat (bs_length (i386_mem_frame_bitset m'))"
    using boot div_le_mono [of 1520 "unat (mb_mem_upper (info_at bm info))" 4] by (simp add: bootable_def)
  moreover have "early m'" "length (paging_state.isr_routines m') = 32"
    using only m by (auto simp: mem_info_only_def early_def)
  ultimately show ?thesis
    using i c only heap_start_small [OF e9] heap_start_after_bounds(3) [of e] e9 e(3)
    by (auto simp: mem_booted_def page_aligned_dvd)
qed

text \<open>The allocator of address space takes its bitset from the early heap.\<close>

lemma asa_init_booted:
  assumes b: "mem_booted kd m 0x20008"
  shows "\<exists>ka m'. asa_init kd PAGE_SIZE (kasa_data m) m = Inr ((K_SUCCESS, ka), m') \<and> mem_booted kd m' 0x28010 \<and>
     asa_inv ka \<and> asa_page_size ka = PAGE_SIZE \<and> unat (bs_length (asa_pages ka)) = 0x3FFFF \<and> asa_used ka = {..<0x17c} \<and>
     mem_info_only m m' \<and> highest_free_address (meminfo m') = highest_free_address (meminfo m)"
proof -
  let ?sz = "DIV_ROUND_UP (KVIRT_MAX div PAGE_SIZE) 32 * 4" and ?h = "unat (kernel_heap_start (meminfo m))"
  note b = b [unfolded mem_booted_def]
  have req: "placement_request ?sz" "bit KALLOC_CRITICAL 0" "placement_fits ?sz m"
    using b asa_bitset_size by (simp_all add: placement_request_def placement_fits_def KALLOC_CRITICAL_def)
  obtain a where a: "i386_mem_kmalloc_real ?sz False KALLOC_CRITICAL m =
      Inr ((a, None), m\<lparr>meminfo := (meminfo m)\<lparr>kernel_heap_curpos := a + ?sz\<rparr>\<rparr>)"
      "unat a = round_up (alignment KALLOC_CRITICAL) (unat (kernel_heap_curpos (meminfo m)))" "unat (a + ?sz) = unat a + 0x8000" "a \<noteq> 0"
    using kmalloc_real_success [OF _ req, of False] b asa_bitset_size by auto
  let ?m = "m\<lparr>meminfo := (meminfo m)\<lparr>kernel_heap_curpos := a + ?sz\<rparr>\<rparr>"
  have km: "kmalloc kd ?sz KALLOC_CRITICAL m = Inr (a, ?m)"
    using a(1) b by (simp add: kmalloc_def call_malloc_def)
  have "unat a \<le> unat (kernel_heap_curpos (meminfo m)) + 8" "unat (kernel_heap_curpos (meminfo m)) \<le> unat a"
    using a(2) round_up_bounds [of 8 "unat (kernel_heap_curpos (meminfo m))"] by (simp_all add: alignment_def KALLOC_CRITICAL_def)
  moreover have "frame_inv ?m"
    using b by (simp add: frame_inv_def)
  ultimately have "mem_booted kd ?m 0x28010"
    using b a(3) by (simp add: mem_booted_def early_def placement_ok_def)
  moreover obtain ka where "asa_init kd PAGE_SIZE (kasa_data m) m = Inr ((K_SUCCESS, ka), ?m)" "asa_inv ka"
      "asa_page_size ka = PAGE_SIZE" "unat (bs_length (asa_pages ka)) = 0x3FFFF" "asa_used ka = {..<0x17c}"
    using asa_init_ok [of PAGE_SIZE kd m a ?m "kasa_data m"] km a(4) by (auto simp: PAGE_SIZE_def)
  moreover have "highest_free_address (meminfo ?m) = highest_free_address (meminfo m)"
    by simp
  moreover have "mem_info_only m ?m"
    unfolding mem_info_only_def by (intro exI [of _ "meminfo ?m"] exI [of _ "i386_mem_frame_bitset m"]) simp
  ultimately show ?thesis
    by blast
qed

text \<open>Paging and the heap on top of it.\<close>

lemma paging_init_booted:
  fixes m :: heap_state
  assumes b: "mem_booted kd m 0x28010"
    and ka: "asa_inv (kasa_data m)" "asa_page_size (kasa_data m) = PAGE_SIZE"
      "unat (bs_length (asa_pages (kasa_data m))) \<le> 0x3FFFF" "asa_used (kasa_data m) = {..<0x17c}"
    and h: "kh_first heap = 0" "kh_total_free_sections heap = 0"
  shows "\<exists>m'. i386_paging_init kd m = Inr m' \<and> heap_inv [] H heap (m'\<lparr>kheap_default := heap\<rparr>) \<and>
     kasa_data m' = kasa_data m \<and> highest_free_address (meminfo m') = highest_free_address (meminfo m) \<and>
     paging_state.isr_routines m' = (paging_state.isr_routines m)[14 := Some I386_page_fault_handler]"
proof -
  have ready: "paging_ready kd m"
    using b by (simp add: paging_ready_def mem_booted_def)
  obtain m' where m': "i386_paging_init kd m = Inr m'" "paging_inv m'" "WINDOW_PAGE m' = kernel_heap_start (meminfo m) + 0x51000"
      "mapping m' = (\<lambda>p. if p < KVIRT_RESERVED div PAGE_SIZE \<and> p \<noteq> wpage m' then Some (p * PAGE_SIZE) else None)"
      "meminfo m' = (meminfo m)\<lparr>kernel_heap_curpos := kernel_heap_curpos (meminfo m')\<rparr>" "kp_page_size (kpaging_data m') = PAGE_SIZE"
      "paging_state.more m' = paging_state.more m"
      "paging_state.isr_routines m' = (paging_state.isr_routines m)[14 := Some I386_page_fault_handler]"
    using paging_init_ok [OF ready] by blast
  have asa: "kasa_data m' = kasa_data m"
    by (rule paging_more_eqD [OF m'(7)])
  have high: "highest_free_address (meminfo m') = highest_free_address (meminfo m)"
    using arg_cong [OF m'(5), of highest_free_address] by simp
  have "unat (wpage m') < 0x17c"
  proof -
    have "unat (WINDOW_PAGE m') = unat (kernel_heap_start (meminfo m)) + 0x51000"
      unfolding m'(3) using b by (subst unat_add_no_wrap) (simp_all add: mem_booted_def)
    then show ?thesis
      using b by (simp add: unat_div PAGE_SIZE_def mem_booted_def less_mult_imp_div_less)
  qed
  then have "heap_inv [] H heap (m'\<lparr>kheap_default := heap\<rparr>)"
    using m'(2,4,6) ka h asa by (intro heap_inv_boot) simp_all
  then show ?thesis
    using m'(1,8) asa high by simp
qed

section \<open>The console side\<close>

text \<open>The state the loader leaves: zeroed tables of the right sizes.\<close>

definition console_reset :: "kbd_state \<Rightarrow> bool" where
  "console_reset c \<longleftrightarrow> length (gdt c) = 5 \<and> irq_routines c = irq_routines_init \<and>
     length (pit_routines c) = 64 \<and> pit_routines_size c = 0 \<and> pit_total_timer_ticks c = 0 \<and>
     \<not> pckbd_is_shift c \<and> \<not> pckbd_is_capslock c"

definition memory_reset :: "heap_state \<Rightarrow> bool" where
  "memory_reset m \<longleftrightarrow> early m \<and> paging_state.isr_routines m = isr_routines_init"

lemma vga_moreD:
  fixes s t :: kbd_state
  assumes "vga_state.more t = vga_state.more s"
  shows "gdt t = gdt s" "gdtr t = gdtr s" "idt t = idt s" "idtr t = idtr s" "intr_state.isr_routines t = intr_state.isr_routines s"
    "irq_routines t = irq_routines s" "intr_state.more t = intr_state.more s"
  using assms by (cases s, cases t, simp)+

lemma intr_moreD:
  fixes s t :: kbd_state
  assumes "intr_state.more t = intr_state.more s"
  shows "pit_routines t = pit_routines s" "pit_routines_size t = pit_routines_size s"
    "pit_total_timer_ticks t = pit_total_timer_ticks s" "pckbd_selected_driver t = pckbd_selected_driver s"
    "pckbd_is_capslock t = pckbd_is_capslock s" "pckbd_is_shift t = pckbd_is_shift s"
  using assms by (cases s, cases t, simp)+

lemma debug_line:
  fixes s :: "'a vga_state_scheme"
  assumes "vga_ok s" and "room_ok room" and "list_all (\<lambda>c. c \<noteq> 0 \<and> c \<noteq> CHAR_PERCENT) (lit txt)" and "length txt < 1000"
  obtains t where "printk_debug room (lit txt) [] s = Inr t" and "vga_ok t" and "vga_state.more t = vga_state.more s"
  by (rule printk_debug_returns [OF assms(1,2), of "[Text (lit txt)]"])
    (use assms(3,4) that in \<open>auto simp: lit_def\<close>)

lemma debug_texts:
  "list_all (\<lambda>c. c \<noteq> 0 \<and> c \<noteq> CHAR_PERCENT) (lit ''GDT Installed!'')"
  "list_all (\<lambda>c. c \<noteq> 0 \<and> c \<noteq> CHAR_PERCENT) (lit ''IDT Installed!'')"
  "list_all (\<lambda>c. c \<noteq> 0 \<and> c \<noteq> CHAR_PERCENT) (lit ''Memory Allocation functions enabled!'')"
  "list_all (\<lambda>c. c \<noteq> 0 \<and> c \<noteq> CHAR_PERCENT) (lit ''Paging enabled!'')"
  "list_all (\<lambda>c. c \<noteq> 0 \<and> c \<noteq> CHAR_PERCENT) (lit ''Interrupts Enabled!'')"
  by (simp_all add: lit_def CHAR_PERCENT_def)

lemma debug_heap_start:
  fixes s :: "'a vga_state_scheme"
  assumes "vga_ok s" and "room_ok room"
  obtains t where "printk_debug room (lit ''Heap started at 0x%x'') [Int_arg v] s = Inr t" and "vga_ok t"
    and "vga_state.more t = vga_state.more s"
  by (rule printk_debug_returns [OF assms, of "[Text (lit ''Heap started at 0x''), Hex_conv v]"])
    (use that in \<open>simp_all add: lit_def CHAR_PERCENT_def\<close>)

lemma vga_ok_tables [simp]:
  "vga_ok (s\<lparr>gp := p, gdt := es, gdtr := p\<rparr>) = vga_ok s"
  "vga_ok (s\<lparr>port_writes := w, idtp := q, idt := l, idt_debug := d, idtr := q\<rparr>) = vga_ok s"
  by (simp_all add: vga_ok_def vga_ready_def)

text \<open>The processor's tables: the kernel's segments can be loaded, every exception and interrupt has its stub.\<close>

definition tables_ok :: "kernel_image \<Rightarrow> 'a intr_state_scheme \<Rightarrow> bool" where
  "tables_ok im c \<longleftrightarrow> gp_base (gdtr c) = im_gdt im \<and> selector_in_gdt (gdtr c) 0x08 \<and> selector_in_gdt (gdtr c) 0x10 \<and>
     map access (gdt c) = [0, 0x9A, 0x92, 0xFA, 0xF2] \<and> idtr c = \<lparr>idtp_limit = 2047, idtp_base = im_idt im\<rparr> \<and>
     (\<forall>v<32. gate_leads_to (idt c ! v) (im_isr_stub im v)) \<and> (\<forall>v<16. gate_leads_to (idt c ! (32 + v)) (im_irq_stub im v))"

lemma tables_okI:
  "tables_ok im s \<Longrightarrow> gdt t = gdt s \<Longrightarrow> gdtr t = gdtr s \<Longrightarrow> idt t = idt s \<Longrightarrow> idtr t = idtr s \<Longrightarrow> tables_ok im t"
  by (simp add: tables_ok_def)

lemma console_tables:
  assumes c: "length (gdt c) = 5" and room: "room_ok (im_room im)"
  obtains c1 c2 c3 c5 where "vga_textmode_initialize c = Inr c1" and "gdt_install (im_gdt im) c1 = Inr c2"
    and "printk_debug (im_room im) (lit ''GDT Installed!'') [] c2 = Inr c3"
    and "printk_debug (im_room im) (lit ''IDT Installed!'') [] (idt_install (im_idt im) (im_isr_stub im) (im_irq_stub im) c3) = Inr c5"
    and "vga_ok c5" and "tables_ok im c5" and "irq_routines c5 = irq_routines c" and "intr_state.more c5 = intr_state.more (c :: kbd_state)"
proof -
  obtain c1 where c1: "vga_textmode_initialize c = Inr c1" "vga_ok c1" "vga_state.more c1 = vga_state.more c"
    by (rule vga_initialize_ok)
  note m1 = vga_moreD [OF c1(3)]
  obtain c2 p es where c2: "gdt_install (im_gdt im) c1 = Inr c2" "gp_base (gdtr c2) = im_gdt im"
      "map access (gdt c2) = [0, 0x9A, 0x92, 0xFA, 0xF2]" "selector_in_gdt (gdtr c2) 0x08" "selector_in_gdt (gdtr c2) 0x10"
      "c2 = c1\<lparr>gp := p, gdt := es, gdtr := p\<rparr>"
    using gdt_install_ok [OF c [folded m1(1)], of "im_gdt im"] by (elim exE conjE) (rule that)
  have "vga_ok c2"
    using c1(2) c2(6) by simp
  then obtain c3 where c3: "printk_debug (im_room im) (lit ''GDT Installed!'') [] c2 = Inr c3" "vga_ok c3" "vga_state.more c3 = vga_state.more c2"
    by (rule debug_line [OF _ room debug_texts(1)]) simp_all
  let ?c4 = "idt_install (im_idt im) (im_isr_stub im) (im_irq_stub im) c3"
  obtain w q d l where c4: "?c4 = c3\<lparr>port_writes := w, idtp := q, idt := l, idt_debug := d, idtr := q\<rparr>"
    using idt_install_only by blast
  have "vga_ok ?c4"
    using c3(2) by (simp add: c4)
  then obtain c5 where c5: "printk_debug (im_room im) (lit ''IDT Installed!'') [] ?c4 = Inr c5" "vga_ok c5" "vga_state.more c5 = vga_state.more ?c4"
    by (rule debug_line [OF _ room debug_texts(2)]) simp_all
  note m3 = vga_moreD [OF c3(3)] and m5 = vga_moreD [OF c5(3)]
  have "tables_ok im ?c4"
    using idt_install_ok [of "im_idt im" "im_isr_stub im" "im_irq_stub im" c3] c2(2-5) m3(1,2)
    unfolding tables_ok_def Let_def by (simp add: c4)
  then have "tables_ok im c5"
    by (rule tables_okI [OF _ m5(1-4)])
  moreover have "irq_routines c5 = irq_routines c" "intr_state.more c5 = intr_state.more c"
    using m5(6,7) m3(6,7) m1(6,7) by (simp_all add: c4 c2(6))
  ultimately show thesis
    using that c1(1) c2(1) c3(1) c5(1,2) by blast
qed

text \<open>The drivers: the timer on interrupt 0, the keyboard on interrupt 1, and one routine for the timer to run.\<close>

definition drivers_ok :: "kernel_image \<Rightarrow> 'a kbd_state_scheme \<Rightarrow> bool" where
  "drivers_ok im c \<longleftrightarrow> irq_routines c = (replicate 16 None)[0 := Some (im_pit_handler im), 1 := Some (im_pckbd_handler im)] \<and>
     pckbd_selected_driver c = Some pckbd_us_qwerty \<and> pit_inv c \<and>
     installed c = [\<lparr>hz = PIT_TIMER_CONSTANT, func = im_kernel_task im\<rparr>]"

lemma pit_phase_ok: "\<exists>w. pit_set_timer_phase (ucast PIT_TIMER_CONSTANT) s = Inr (s\<lparr>port_writes := w\<rparr>)"
  by (simp add: pit_set_timer_phase_def outportb_def PIT_TIMER_CONSTANT_def Let_def) blast

lemma console_drivers:
  fixes c :: kbd_state
  assumes c: "irq_routines c = replicate 16 None" "length (pit_routines c) = 64" "pit_routines_size c = 0" "vga_ok c"
  obtains c1 c2 c3 n where "pit_timer_install_irq (im_pit_handler im) c = Inr c1"
    and "pckbd_install_irq (im_pckbd_handler im) pckbd_us_qwerty c1 = Inr c2"
    and "pit_install_scheduler_routine \<lparr>hz = PIT_TIMER_CONSTANT, func = im_kernel_task im\<rparr> c2 = Inr (n, c3)"
    and "vga_ok c3" and "drivers_ok im c3" and "tables_ok im c \<longrightarrow> tables_ok im c3"
    and "intr_state.isr_routines c3 = intr_state.isr_routines c" and "pit_total_timer_ticks c3 = pit_total_timer_ticks c"
    and "pckbd_is_shift c3 = pckbd_is_shift c" and "pckbd_is_capslock c3 = pckbd_is_capslock c"
proof -
  obtain w where w: "pit_set_timer_phase (ucast PIT_TIMER_CONSTANT) c = Inr (c\<lparr>port_writes := w\<rparr>)"
    using pit_phase_ok by blast
  let ?c1 = "c\<lparr>port_writes := w, irq_routines := (replicate 16 None)[0 := Some (im_pit_handler im)]\<rparr>"
  let ?c2 = "c\<lparr>port_writes := w, pckbd_selected_driver := Some pckbd_us_qwerty,
      irq_routines := (replicate 16 None)[0 := Some (im_pit_handler im), 1 := Some (im_pckbd_handler im)]\<rparr>"
  let ?r = "\<lparr>hz = PIT_TIMER_CONSTANT, func = im_kernel_task im\<rparr>"
  let ?c3 = "?c2\<lparr>pit_routines := (pit_routines c)[0 := ?r], pit_routines_size := 1\<rparr>"
  have "pit_timer_install_irq (im_pit_handler im) c = Inr ?c1"
    using w c(1) by (simp add: pit_timer_install_irq_def irq_install_handler_def)
  moreover have "pckbd_install_irq (im_pckbd_handler im) pckbd_us_qwerty ?c1 = Inr ?c2"
    by (simp add: pckbd_install_irq_def irq_install_handler_def)
  moreover have "pit_install_scheduler_routine ?r ?c2 = Inr (0, ?c3)"
    using c by (simp add: pit_install_scheduler_routine_def)
  moreover have "vga_ok ?c3"
    using c(4) by (simp add: vga_ok_def vga_ready_def)
  moreover have "drivers_ok im ?c3"
    using c by (simp add: drivers_ok_def pit_inv_def installed_def PIT_TIMER_CONSTANT_def take_Suc_conv_app_nth)
  moreover have "tables_ok im c \<longrightarrow> tables_ok im ?c3"
    by (simp add: tables_ok_def)
  ultimately show thesis
    using that by simp
qed

section \<open>The whole boot\<close>

definition kernel_up :: "kernel_image \<Rightarrow> kernel_state \<Rightarrow> bool" where
  "kernel_up im k \<longleftrightarrow> vga_ok (console k) \<and> tables_ok im (console k) \<and> drivers_ok im (console k) \<and>
     intr_state.isr_routines (console k) = (replicate 32 None)[14 := Some (im_page_fault_handler im)] \<and>
     interrupts_on k \<and> default_heap (kheap_default (memory k)) \<and>
     heap_inv [] (\<lambda>_. Map.empty) (kheap_default (memory k)) (memory k) \<and>
     (\<exists>kd. kalloc_data k = \<lparr>kalloc_malloc_real_fn = Some (kheap_kalloc_malloc_real (i386_paging_interface kd)),
                             kalloc_free_fn = Some kheap_kalloc_free\<rparr>)"

lemma on_consoleI: "f (console k) = Inr c \<Longrightarrow> on_console f k = Inr (k\<lparr>console := c\<rparr>)"
  by (simp add: on_console_def)

text \<open>The steps of the memory side in a row.\<close>

lemma memory_boot:
  assumes boot: "bootable bm info es" and m: "memory_reset m" and h: "heap = kheap_init SECTION_SIZE_DEFAULT MIN_BLOCK_SIZE_DEFAULT KHEAP_AUTO_EXPAND"
  obtains kd m1 ka m2 m3 where "i386_mem_init bm info m = Inr (kd, m1)"
    and "asa_init kd PAGE_SIZE (kasa_data m1) m1 = Inr ((K_SUCCESS, ka), m2)"
    and "i386_paging_init kd (m2\<lparr>kasa_data := ka\<rparr>) = Inr m3" and "heap_inv [] H heap (m3\<lparr>kheap_default := heap\<rparr>)"
    and "paging_state.isr_routines m3 = (replicate 32 None)[14 := Some I386_page_fault_handler]"
    and "asa_used (kasa_data m3) = {..<0x17c}" and "unat (bs_length (asa_pages (kasa_data m3))) = 0x3FFFF"
    and "unat (highest_free_address (meminfo m3)) = unat (mb_mem_upper (info_at bm info)) * 1024"
proof -
  have e: "early m" "paging_state.isr_routines m = replicate 32 None" "length (paging_state.isr_routines m) = 32"
    using m by (simp_all add: memory_reset_def isr_routines_init_def)
  obtain kd m1 where m1: "i386_mem_init bm info m = Inr (kd, m1)" "mem_booted kd m1 0x20008" "mem_info_only m m1"
      "unat (highest_free_address (meminfo m1)) = unat (mb_mem_upper (info_at bm info)) * 1024"
    using mem_init_booted [OF boot e(1,3)] by blast
  obtain ka m2 where m2: "asa_init kd PAGE_SIZE (kasa_data m1) m1 = Inr ((K_SUCCESS, ka), m2)" "mem_booted kd m2 0x28010"
      "asa_inv ka" "asa_page_size ka = PAGE_SIZE" "unat (bs_length (asa_pages ka)) = 0x3FFFF" "asa_used ka = {..<0x17c}" "mem_info_only m1 m2"
      "highest_free_address (meminfo m2) = highest_free_address (meminfo m1)"
    using asa_init_booted [OF m1(2)] by blast
  let ?m = "m2\<lparr>kasa_data := ka\<rparr>"
  have b: "mem_booted kd ?m 0x28010"
  proof -
    have "frame_inv ?m = frame_inv m2"
      by (simp add: frame_inv_def)
    then show ?thesis
      using m2(2) by (simp add: mem_booted_def early_def placement_ok_def)
  qed
  have isr: "paging_state.isr_routines ?m = replicate 32 None"
    using m1(3) m2(7) e(2) by (auto simp: mem_info_only_def)
  obtain m3 where "i386_paging_init kd ?m = Inr m3" "heap_inv [] H heap (m3\<lparr>kheap_default := heap\<rparr>)"
      "paging_state.isr_routines m3 = (paging_state.isr_routines ?m)[14 := Some I386_page_fault_handler]"
      "kasa_data m3 = ka" "highest_free_address (meminfo m3) = highest_free_address (meminfo m2)"
    using paging_init_booted [OF b, of heap H] m2(3-6) h by (auto simp: kheap_init_def)
  then show thesis
    using that m1(1,4) m2(1,5,6,8) isr by simp
qed

text \<open>The console once the memory side is up; \<open>isr\<close> is the table of exception handlers it is given.\<close>

lemma console_finish:
  fixes c :: kbd_state
  assumes c: "vga_ok c" "tables_ok im c" "irq_routines c = replicate 16 None" "length (pit_routines c) = 64" "pit_routines_size c = 0"
    and room: "room_ok (im_room im)"
  obtains c6 c8 c9 c10 c11 c12 n where "printk_debug (im_room im) (lit ''Memory Allocation functions enabled!'') [] c = Inr c6"
    and "printk_debug (im_room im) (lit ''Paging enabled!'') [] (intr_state.isr_routines_update (\<lambda>_. isr) c6) = Inr c8"
    and "pit_timer_install_irq (im_pit_handler im) c8 = Inr c9" and "pckbd_install_irq (im_pckbd_handler im) pckbd_us_qwerty c9 = Inr c10"
    and "pit_install_scheduler_routine \<lparr>hz = PIT_TIMER_CONSTANT, func = im_kernel_task im\<rparr> c10 = Inr (n, c11)"
    and "printk_debug (im_room im) (lit ''Interrupts Enabled!'') [] c11 = Inr c12"
    and "vga_ok c12" and "tables_ok im c12" and "drivers_ok im c12" and "intr_state.isr_routines c12 = isr"
    and "pit_total_timer_ticks c12 = pit_total_timer_ticks c" and "pckbd_is_shift c12 = pckbd_is_shift c"
    and "pckbd_is_capslock c12 = pckbd_is_capslock c"
proof -
  obtain c6 where c6: "printk_debug (im_room im) (lit ''Memory Allocation functions enabled!'') [] c = Inr c6"
      "vga_ok c6" "vga_state.more c6 = vga_state.more c"
    by (rule debug_line [OF c(1) room debug_texts(3)]) simp_all
  let ?c7 = "intr_state.isr_routines_update (\<lambda>_. isr) c6"
  have "vga_ok ?c7"
    using c6(2) by (simp add: vga_ok_def vga_ready_def)
  then obtain c8 where c8: "printk_debug (im_room im) (lit ''Paging enabled!'') [] ?c7 = Inr c8"
      "vga_ok c8" "vga_state.more c8 = vga_state.more ?c7"
    by (rule debug_line [OF _ room debug_texts(4)]) simp_all
  note m6 = vga_moreD [OF c6(3)] and m8 = vga_moreD [OF c8(3)]
  have more: "intr_state.more c8 = intr_state.more c"
    using m8(7) m6(7) by simp
  have c8': "tables_ok im c8" "irq_routines c8 = replicate 16 None" "intr_state.isr_routines c8 = isr"
    using tables_okI [OF c(2) m6(1-4)] m8 m6(6) c(3) by (simp_all add: tables_ok_def)
  obtain c9 c10 c11 n where d: "pit_timer_install_irq (im_pit_handler im) c8 = Inr c9"
      "pckbd_install_irq (im_pckbd_handler im) pckbd_us_qwerty c9 = Inr c10"
      "pit_install_scheduler_routine \<lparr>hz = PIT_TIMER_CONSTANT, func = im_kernel_task im\<rparr> c10 = Inr (n, c11)"
    and c11: "vga_ok c11" "drivers_ok im c11" "tables_ok im c8 \<longrightarrow> tables_ok im c11" "intr_state.isr_routines c11 = isr"
      "pit_total_timer_ticks c11 = pit_total_timer_ticks c" "pckbd_is_shift c11 = pckbd_is_shift c" "pckbd_is_capslock c11 = pckbd_is_capslock c"
    by (rule console_drivers [of c8 im]) (use c8 c8' intr_moreD [OF more] c in simp_all)
  obtain c12 where c12: "printk_debug (im_room im) (lit ''Interrupts Enabled!'') [] c11 = Inr c12"
      "vga_ok c12" "vga_state.more c12 = vga_state.more c11"
    by (rule debug_line [OF c11(1) room debug_texts(5)]) simp_all
  note m12 = vga_moreD [OF c12(3)] and i12 = intr_moreD [OF vga_moreD(7) [OF c12(3)]]
  have "tables_ok im c12"
    using c11(3) c8'(1) tables_okI [OF _ m12(1-4)] by blast
  moreover have "drivers_ok im c12"
    using c11(2) m12(6) i12 by (simp add: drivers_ok_def pit_inv_def installed_def)
  ultimately show thesis
    using that c6(1) c8(1) d c12(1,2) m12(5) i12(3,5,6) c11(4-7) by simp
qed

lemma kernel_early_ok:
  assumes boot: "bootable bm info es" and room: "room_ok (im_room im)"
    and c: "console_reset (console k)" and m: "memory_reset (memory k)"
  shows "\<exists>k'. kernel_early im bm MULTIBOOT_BOOTLOADER_MAGIC info k = Inr k' \<and> kernel_up im k' \<and>
     pit_total_timer_ticks (console k') = 0 \<and> \<not> pckbd_is_shift (console k') \<and> \<not> pckbd_is_capslock (console k') \<and>
     asa_used (kasa_data (memory k')) = {..<0x17c} \<and> unat (bs_length (asa_pages (kasa_data (memory k')))) = 0x3FFFF \<and>
     unat (highest_free_address (meminfo (memory k'))) = unat (mb_mem_upper (info_at bm info)) * 1024"
proof -
  define heap where "heap = kheap_init SECTION_SIZE_DEFAULT MIN_BLOCK_SIZE_DEFAULT KHEAP_AUTO_EXPAND"
  let ?isr = "(replicate 32 None)[14 := Some (im_page_fault_handler im)]"
  note c = c [unfolded console_reset_def irq_routines_init_def]
  obtain c1 c2 c3 c5 where t: "vga_textmode_initialize (console k) = Inr c1" "gdt_install (im_gdt im) c1 = Inr c2"
      "printk_debug (im_room im) (lit ''GDT Installed!'') [] c2 = Inr c3"
      "printk_debug (im_room im) (lit ''IDT Installed!'') [] (idt_install (im_idt im) (im_isr_stub im) (im_irq_stub im) c3) = Inr c5"
    and c5: "vga_ok c5" "tables_ok im c5" "irq_routines c5 = irq_routines (console k)" "intr_state.more c5 = intr_state.more (console k)"
    by (rule console_tables [of "console k" im]) (use c room in auto)
  obtain kd m1 ka m2 m3 where mem: "i386_mem_init bm info (memory k) = Inr (kd, m1)"
      "asa_init kd PAGE_SIZE (kasa_data m1) m1 = Inr ((K_SUCCESS, ka), m2)" "i386_paging_init kd (m2\<lparr>kasa_data := ka\<rparr>) = Inr m3"
    and heap: "heap_inv [] (\<lambda>_. Map.empty) heap (m3\<lparr>kheap_default := heap\<rparr>)"
      "paging_state.isr_routines m3 = (replicate 32 None)[14 := Some I386_page_fault_handler]"
      "asa_used (kasa_data m3) = {..<0x17c}" "unat (bs_length (asa_pages (kasa_data m3))) = 0x3FFFF"
      "unat (highest_free_address (meminfo m3)) = unat (mb_mem_upper (info_at bm info)) * 1024"
    by (rule memory_boot [OF boot m heap_def])
  have isr: "map (map_option (handler_address im)) (paging_state.isr_routines m3) = ?isr"
    by (simp add: heap(2) map_update handler_address_def)
  obtain c' where c': "printk_debug (im_room im) (lit ''Heap started at 0x%x'') [Int_arg (kernel_heap_start (meminfo m1))] c5 = Inr c'"
      "vga_ok c'" "vga_state.more c' = vga_state.more c5"
    by (rule debug_heap_start [OF c5(1) room])
  note m' = vga_moreD [OF c'(3)]
  have more: "intr_state.more c' = intr_state.more (console k)"
    using m'(7) c5(4) by simp
  note i5 = intr_moreD [OF more]
  obtain c6 c8 c9 c10 c11 c12 n where d: "printk_debug (im_room im) (lit ''Memory Allocation functions enabled!'') [] c' = Inr c6"
      "printk_debug (im_room im) (lit ''Paging enabled!'') [] (intr_state.isr_routines_update (\<lambda>_. ?isr) c6) = Inr c8"
      "pit_timer_install_irq (im_pit_handler im) c8 = Inr c9" "pckbd_install_irq (im_pckbd_handler im) pckbd_us_qwerty c9 = Inr c10"
      "pit_install_scheduler_routine \<lparr>hz = PIT_TIMER_CONSTANT, func = im_kernel_task im\<rparr> c10 = Inr (n, c11)"
      "printk_debug (im_room im) (lit ''Interrupts Enabled!'') [] c11 = Inr c12"
    and c12: "vga_ok c12" "tables_ok im c12" "drivers_ok im c12" "intr_state.isr_routines c12 = ?isr"
      "pit_total_timer_ticks c12 = pit_total_timer_ticks c'" "pckbd_is_shift c12 = pckbd_is_shift c'" "pckbd_is_capslock c12 = pckbd_is_capslock c'"
    by (rule console_finish [of c' im ?isr]) (use c c5(3) c'(2) tables_okI [OF c5(2) m'(1-4)] m'(6) i5 room in simp_all)
  let ?k = "k\<lparr>console := c12, memory := m3\<lparr>kheap_default := heap\<rparr>, kalloc_data := fst (kheap_kalloc_install (i386_paging_interface kd) m3), interrupts_on := True\<rparr>"
  have "kernel_early im bm MULTIBOOT_BOOTLOADER_MAGIC info k = Inr ?k"
    unfolding kernel_early_def Let_def
    using t mem c'(1) d
    by (simp add: on_console_def on_memory_def kernel_mem_init_def kernel_asa_init_def kernel_paging_init_def kernel_heap_install_def
        share_handlers_def isr ASSERT_def kheap_kalloc_install_def heap_def)
  moreover have "kernel_up im ?k"
    using c12 heap(1) by (auto simp: kernel_up_def heap_def default_heap_def kheap_init_def kheap_kalloc_install_def)
  ultimately show ?thesis
    using c12(5-7) i5 c heap(3-5) by simp
qed

text \<open>Before the display is initialised its pointer is NULL, and writing a character is an access outside the display.\<close>

lemma printk_debug_unready:
  fixes s :: "'a vga_state_scheme"
  assumes "vga_textmode_buffer s = 0" and "vga_textmode_row s = 0" and "vga_textmode_column s = 0"
  shows "printk_debug room fmt args s = Inl Wild_access"
proof -
  let ?s = "vga_textmode_setcolor (ucast (color_code COLOR_RED)) s"
  have "vga_textmode_putchar (of_char CHR ''D'') ?s = Inl Wild_access"
    using assms by (simp add: vga_textmode_putchar_def vga_textmode_putentryat_def vga_put_def vga_slot_def in_vram_def vga_textmode_setcolor_def
        CHAR_NL_def VGA_WIDTH_def)
  then have "vga_textmode_writestring (lit ''DEBUG: '') ?s = Inl Wild_access"
    using vga_writestring_fold [of "lit ''DEBUG: ''" ?s] by (simp add: lit_def)
  then show ?thesis
    by (simp add: printk_debug_def)
qed

section \<open>Properties\<close>

text \<open>A machine with seven megabytes above the first, and the state the loader leaves it in.\<close>

definition sample_image :: kernel_image where
  "sample_image = \<lparr>im_room = (\<lambda>n. n + 16), im_gdt = 0x105000, im_idt = 0x106000, im_isr_stub = (\<lambda>n. 0x107000 + 16 * of_nat n),
     im_irq_stub = (\<lambda>n. 0x108000 + 16 * of_nat n), im_page_fault_handler = 0x109000, im_pit_handler = 0x109100,
     im_pckbd_handler = 0x109200, im_kernel_task = 0x109300\<rparr>"

definition sample_kernel :: kernel_state where
  "sample_kernel = \<lparr>console = sample_kbd\<lparr>pit_routines := replicate 64 \<lparr>hz = 0, func = 0\<rparr>, pit_routines_size := 0, pit_total_timer_ticks := 0,
       pckbd_selected_driver := None, pckbd_is_capslock := False, vga_textmode_row := 0, vga_textmode_buffer := 0\<rparr>,
     memory = sample_heap_early, kalloc_data = kalloc_none, interrupts_on = False\<rparr>"

lemma sample_bootable: "bootable sample_boot 0x10000 [sample_entry]"
  using sample_boot_ok by (simp add: bootable_def) (simp add: sample_boot_def)

lemma sample_kernel_reset:
  "room_ok (im_room sample_image)" "console_reset (console sample_kernel)" "memory_reset (memory sample_kernel)"
  by (simp_all add: sample_image_def sample_kernel_def room_ok_def console_reset_def memory_reset_def sample_kbd_def sample_pit_def
      sample_intr_def vga_state.defs intr_state.defs pit_state.defs kbd_state.defs sample_heap_early_def sample_early_def paging_state.defs early_def)



text \<open>
  Started with another magic number, \<open>kernel_early\<close> reports it before the display is initialised: the message is
  written through a null pointer.
\<close>

theorem kernel_early_bad_magic:
  assumes "magic \<noteq> MULTIBOOT_BOOTLOADER_MAGIC" and "vga_textmode_buffer (console k) = 0"
    and "vga_textmode_row (console k) = 0" and "vga_textmode_column (console k) = 0"
  shows "kernel_early im bm magic info k = Inl Wild_access"
  using assms(1) printk_debug_unready [OF assms(2-)] by (simp add: kernel_early_def on_console_def)

theorem kernel_early_bad_magic_witness:
  "kernel_early sample_image sample_boot 0x1BADB002 0x10000 sample_kernel = Inl Wild_access"
  by (rule kernel_early_bad_magic)
    (simp_all add: MULTIBOOT_BOOTLOADER_MAGIC_def sample_kernel_def sample_kbd_def sample_pit_def sample_intr_def sample_vga_def
      vga_state.defs intr_state.defs pit_state.defs kbd_state.defs)

end
