(* ===== verification/Kernel_Main.thy ===== *)
theory Kernel_Main
  imports Kernel_Boot
begin

unbundle bit_operations_syntax

text \<open>
  \<open>kernel_main\<close> of \<^verbatim>\<open>kernel/kernel/kernel.c\<close>: the banner, the three lines about memory, and the loop
  that takes pages of address space, maps them and fills them until there are no more.
\<close>

section \<open>The routine\<close>

text \<open>A byte written through a pointer: the byte of the 32-bit cell it falls into changes.\<close>

definition store8 :: "u32 \<Rightarrow> u8 \<Rightarrow> 'a machine_scheme \<Rightarrow> 'a machine_scheme res" where
  "store8 va v m =
     bindr (resolve va m) (\<lambda>(pa, m).
     let cell = pa - pa mod 4;
         shift = 8 * unat (pa mod 4);
         old = phys_mem m cell
     in Inr (m\<lparr>phys_mem := (phys_mem m)(cell := (old AND NOT (push_bit shift 0xFF)) OR push_bit shift (ucast v))\<rparr>))"

text \<open>\<open>memset\<close> of \<^verbatim>\<open>libsc/string/memset.c\<close> on memory reached through the page tables.\<close>

definition memset_virt :: "uintptr_t \<Rightarrow> i32 \<Rightarrow> size_t \<Rightarrow> 'a machine_scheme \<Rightarrow> 'a machine_scheme res" where
  "memset_virt bufptr value sz m = for_loop 0 sz (\<lambda>i m. store8 (bufptr + i) (ucast value) m) m"

text \<open>One round of the loop.\<close>

definition page_round :: "heap_state kalloc_interface \<Rightarrow> heap_state \<Rightarrow> heap_state res" where
  "page_round kd s =
     bindr (asa_alloc 1 (kasa_data s)) (\<lambda>(tmp, ka).
     let s = s\<lparr>kasa_data := ka\<rparr>
     in if tmp = 0 then PANIC ''Out of address space!''
        else bindr (i386_allocate_page kd (i386_kernel_mmu_data s) tmp (PT_PRESENT OR PT_RW) (PD_PRESENT OR PD_RW) s) (\<lambda>((ret, _), s).
             if K_FAILED ret then PANIC ''FAILED TO ALLOCATE PAGE!''
             else memset_virt tmp 0xFF 0x1000 s))"

partial_function (option) page_loop :: "heap_state kalloc_interface \<Rightarrow> heap_state \<Rightarrow> heap_state res option" where
  "page_loop kd s = (case page_round kd s of Inl e \<Rightarrow> Some (Inl e) | Inr s \<Rightarrow> page_loop kd s)"

definition kernel_main :: "kernel_image \<Rightarrow> kernel_state \<Rightarrow> kernel_state res" where
  "kernel_main im k =
     (let write = (\<lambda>txt. on_console (vga_textmode_writestring txt));
          color = (\<lambda>c k. k\<lparr>console := vga_textmode_setcolor c (console k)\<rparr>);
          grey = make_color COLOR_LIGHT_GREY COLOR_BLACK;
          show = (\<lambda>txt v. on_console (printf (im_room im) (lit txt @ [CHAR_NL]) [Int_arg v]))
      in bindr (write (lit ''Welcome to '') k) (\<lambda>k.
         bindr (write (lit ''ShawnOS '') (color (ucast (color_code COLOR_CYAN)) k)) (\<lambda>k.
         bindr (write (lit ''Version '') (color grey k)) (\<lambda>k.
         bindr (write (lit ''0.01 Alpha'') (color (ucast (color_code COLOR_RED)) k)) (\<lambda>k.
         bindr (write (lit ''!'' @ [CHAR_NL, CHAR_NL]) (color grey k)) (\<lambda>k.
         bindr (show ''Heap start: 0x%x'' (kernel_heap_start (meminfo (memory k))) k) (\<lambda>k.
         bindr (show ''Heap curpos: 0x%x'' (kernel_heap_curpos (meminfo (memory k))) k) (\<lambda>k.
         bindr (show ''kHighest page: 0x%x'' (kp_highest_page (kpaging_data (memory k))) k) (\<lambda>k.
         on_memory (\<lambda>m. or_diverge (page_loop (kalloc_data k) m)) k)))))))))"

text \<open>The entry point of \<^verbatim>\<open>kernel/arch/i386/boot.asm\<close>; \<open>_init\<close>, called between the two, runs no constructor of the kernel.\<close>

definition kernel_start :: "kernel_image \<Rightarrow> boot_mem \<Rightarrow> u32 \<Rightarrow> uintptr_t \<Rightarrow> kernel_state \<Rightarrow> kernel_state res" where
  "kernel_start im bm magic info k = bindr (kernel_early im bm magic info k) (kernel_main im)"

section \<open>Writing to mapped memory\<close>

text \<open>A write to a page above the reserved memory leaves the paging structures and every translation alone.\<close>

lemma mapped_write:
  fixes s :: "'a paging_state_scheme" and x :: u32
  assumes inv: "paging_inv s" and m: "mapping s p = Some f" "KVIRT_RESERVED div PAGE_SIZE \<le> p" and i: "i < 1024"
  defines "s' \<equiv> s\<lparr>phys_mem := (phys_mem s)(entry_addr f i := x), tlb := (tlb s)(p \<mapsto> f)\<rparr>"
  shows "paging_inv s'" and "mapping s' = mapping s" and "free_frames s' = free_frames s"
proof -
  have ok: "mmu_ok s" and F: "f \<notin> struct_frames s"
    using inv m unfolding paging_inv_def by blast+
  note D = mmu_okD [OF ok]
  have w: "walk (phys_mem s) (pdir s) p = Some f" "unat p < 1048576"
    using m(1) by (simp_all add: mapping_def split: if_splits)
  have al: "page_aligned f"
    using w(1) by (auto simp: walk_def Let_def split: if_splits)
  have ne: "f \<noteq> pdir s" "\<And>t. table_present (phys_mem s) (pdir s) t \<Longrightarrow> table_at (phys_mem s) (pdir s) t \<noteq> f"
    using F by (auto simp: struct_frames_def)
  let ?m = "(phys_mem s)(entry_addr f i := x)"
  have walk: "walk ?m (pdir s) q = walk (phys_mem s) (pdir s) q" if "unat q < 1048576" for q
    by (rule walk_update_other [OF D(5) al ne(1) i ne(2) that])
  note t = tables_update [OF D(12) al ne(1) i]
  have tw: "tables_wf ?m (pdir s)"
    by (rule tables_wf_update [OF D(5) al ne(1) i])
  have tb: "tlb_ok ?m (pdir s) ((tlb s)(p \<mapsto> f))"
    by (rule tlb_ok_same [OF tlb_ok_insert [OF D(11) w] walk])
  have mmu: "mmu_ok s'"
    using ok D tb tw by (simp add: mmu_ok_def s'_def t walk unat_page_number)
  show map: "mapping s' = mapping s"
    by (simp add: mapping_def fun_eq_iff walk s'_def)
  have st: "struct_frames s' = struct_frames s"
    using image_same [of "table_present (phys_mem s) (pdir s)" "table_at ?m (pdir s)"] t(2)
    by (simp add: struct_frames_def t(1) table_present_def s'_def)
  show fr: "free_frames s' = free_frames s"
    by (simp add: free_frames_def used_frames_def frame_limit_def s'_def)
  show "paging_inv s'"
    using inv mmu unfolding paging_inv_def map st fr
    by (simp add: s'_def frame_inv_def used_frames_def frame_limit_def)
qed

text \<open>A byte at an offset inside a page falls into the cell of that offset.\<close>

lemma byte_cell:
  fixes f i :: u32
  assumes f: "page_aligned f" and i: "unat i < 4096"
  shows "(f + i) - (f + i) mod 4 = entry_addr f (i div 4)" and "i div 4 < 1024"
proof -
  show lt: "i div 4 < 1024"
    using i by (simp add: word_less_nat_alt unat_div less_mult_imp_div_less)
  have s: "unat (f + i) = unat f + unat i"
    using page_aligned_bound [OF f] i by (intro unat_add_no_wrap) linarith
  have "(4 :: nat) dvd 4096"
    by simp
  then obtain a where a: "unat f = 4 * a"
    using f dvd_trans [of 4 4096 "unat f"] by (auto simp: page_aligned_dvd elim!: dvdE)
  have "unat ((f + i) mod 4) = unat i mod 4"
    by (simp add: unat_mod s a)
  moreover have "unat ((f + i) - (f + i) mod 4) = unat (f + i) - unat ((f + i) mod 4)"
    by (intro unat_sub) (simp add: word_le_nat_alt unat_mod)
  ultimately have "unat ((f + i) - (f + i) mod 4) = unat f + 4 * unat (i div 4)"
    using s by (simp add: unat_div minus_mod_eq_mult_div [symmetric])
  then show "(f + i) - (f + i) mod 4 = entry_addr f (i div 4)"
    using unat_entry_addr [OF f lt] by (simp add: word_unat_eq_iff)
qed

lemma offset_page:
  fixes a i :: u32
  assumes "page_aligned a" and "unat i < 4096"
  shows "(a + i) div PAGE_SIZE = a div PAGE_SIZE" and "(a + i) mod PAGE_SIZE = i"
proof -
  have s: "unat (a + i) = unat a + unat i"
    using page_aligned_bound [OF assms(1)] assms(2) by (intro unat_add_no_wrap) linarith
  obtain b where b: "unat a = 4096 * b"
    using assms(1) by (auto simp: page_aligned_dvd elim!: dvdE)
  show "(a + i) div PAGE_SIZE = a div PAGE_SIZE" "(a + i) mod PAGE_SIZE = i"
    using assms(2) by (simp_all add: word_unat_eq_iff unat_div unat_mod PAGE_SIZE_def s b)
qed

text \<open>What a routine that only writes to mapped memory keeps.\<close>

definition wrote :: "'a paging_state_scheme \<Rightarrow> 'a paging_state_scheme \<Rightarrow> bool" where
  "wrote s s' \<longleftrightarrow> paging_inv s' \<and> mapping s' = mapping s \<and> free_frames s' = free_frames s \<and> paging_rest s' = paging_rest s"

lemma store8_ok:
  fixes s :: "'a paging_state_scheme"
  assumes inv: "paging_inv s" and a: "dynamic_page s a" and m: "mapping s (a div PAGE_SIZE) = Some f" and i: "unat i < 4096"
  shows "\<exists>s'. store8 (a + i) v s = Inr s' \<and> wrote s s'"
proof -
  let ?p = "a div PAGE_SIZE"
  have al: "page_aligned a" and hi: "KVIRT_RESERVED div PAGE_SIZE \<le> ?p"
    using a by (simp_all add: dynamic_page_def)
  have ok: "mmu_ok s"
    using inv by (simp add: paging_inv_def)
  note D = mmu_okD [OF ok]
  have w: "walk (phys_mem s) (pdir s) ?p = Some f"
    using m by (simp add: mapping_def split: if_splits)
  have f: "page_aligned f"
    using w by (auto simp: walk_def Let_def split: if_splits)
  have "translate s ?p = Some f"
    using D(3,11) w by (auto simp: translate_def tlb_ok_def split: option.splits)
  then have r: "resolve (a + i) s = Inr (f + i, s\<lparr>tlb := (tlb s)(?p \<mapsto> f)\<rparr>)"
    using D(1) by (simp add: resolve_def offset_page [OF al i])
  let ?s = "\<lambda>x. s\<lparr>phys_mem := (phys_mem s)(entry_addr f (i div 4) := x), tlb := (tlb s)(?p \<mapsto> f)\<rparr>"
    and ?sh = "8 * unat ((f + i) mod 4)"
  have "store8 (a + i) v s = Inr (?s ((phys_mem s (entry_addr f (i div 4)) AND NOT (push_bit ?sh 0xFF)) OR push_bit ?sh (ucast v)))"
    by (simp add: store8_def r byte_cell [OF f i] Let_def)
  moreover have "wrote s (?s x)" for x
    using mapped_write [OF inv m hi byte_cell(2) [OF f i], of x] by (simp add: wrote_def paging_rest_def)
  ultimately show ?thesis
    by blast
qed

lemma memset_virt_ok:
  fixes s :: "'a paging_state_scheme"
  assumes inv: "paging_inv s" and a: "dynamic_page s a" and m: "mapping s (a div PAGE_SIZE) = Some f"
  shows "\<exists>s'. memset_virt a v 0x1000 s = Inr s' \<and> wrote s s'"
  unfolding memset_virt_def
proof (rule for_loop_rule [where I = "\<lambda>_ s'. wrote s s'"])
  show "wrote s s"
    using inv by (simp add: wrote_def)
next
  fix i :: u32 and t :: "'a paging_state_scheme"
  assume i: "i < 0x1000" and t: "wrote s t"
  have "dynamic_page t a"
    using a t dynamic_page_rest [of t a] dynamic_page_rest [of s a] by (simp add: wrote_def)
  then show "\<exists>t'. store8 (a + i) (ucast v) t = Inr t' \<and> wrote s t'"
    using store8_ok [of t a f i "ucast v"] t m i by (auto simp: wrote_def word_less_nat_alt)
qed simp_all

section \<open>The loop ends\<close>

definition free_pages :: "kasa_data \<Rightarrow> nat set" where
  "free_pages ka = {..<unat (bs_length (asa_pages ka))} - asa_used ka"

lemma page_flags_rw: "frame_base (PT_PRESENT OR PT_RW) = 0" "bit (PT_PRESENT OR PT_RW) 0"
    "frame_base (PD_PRESENT OR PD_RW) = 0" "bit (PD_PRESENT OR PD_RW) 0"
  by (simp_all add: PT_PRESENT_def PT_RW_def PD_PRESENT_def PD_RW_def frame_base_def)

text \<open>The page behind an address that the allocator gave, mapped and filled.\<close>

lemma fill_new_page:
  assumes env: "heap_env s" and found: "asa_found (kasa_data s) 1 (a, ka)"
    and room: "frames_needed (s\<lparr>kasa_data := ka\<rparr>) (a div PAGE_SIZE) \<le> spare_frames (s\<lparr>kasa_data := ka\<rparr>)"
  obtains f s1 s2 where
    "i386_allocate_page kd (i386_kernel_mmu_data s) a (PT_PRESENT OR PT_RW) (PD_PRESENT OR PD_RW) (s\<lparr>kasa_data := ka\<rparr>) =
       Inr ((K_SUCCESS, Some f), s1)"
    and "memset_virt a v 0x1000 s1 = Inr s2" and "heap_env s2" and "spare_frames s2 < spare_frames s" and "kasa_data s2 = ka"
proof -
  let ?t = "s\<lparr>kasa_data := ka\<rparr>" and ?p = "a div PAGE_SIZE"
  note e = heap_envD [OF env] and r = asa_run_mappable [OF env found one_neq_zero]
  have dyn: "dynamic_page ?t a" and new: "mapping ?t ?p = None"
    using r(5,6) [of 0] by (simp_all add: page_no_def)
  have inv: "paging_inv ?t"
    using e(1) by simp
  obtain f s1 where s1: "i386_allocate_page kd (i386_kernel_mmu_data ?t) a (PT_PRESENT OR PT_RW) (PD_PRESENT OR PD_RW) ?t =
        Inr ((K_SUCCESS, Some (f * PAGE_SIZE)), s1)"
      "paging_inv s1" "mm_only ?t s1" "mapping s1 = (mapping ?t)(?p \<mapsto> f * PAGE_SIZE)"
      "card (free_frames ?t) = card (free_frames s1) + frames_needed ?t ?p"
    using allocate_page_ok [OF inv _ _ new page_flags_rw room [unfolded spare_frames_def]] dyn
    unfolding dynamic_page_def by blast
  have "dynamic_page s1 a"
    using dyn mm_onlyD(2) [OF s1(3)] by (simp add: dynamic_page_def)
  then obtain s2 where s2: "memset_virt a v 0x1000 s1 = Inr s2" "wrote s1 s2"
    using memset_virt_ok [OF s1(2), of a "f * PAGE_SIZE" v] s1(4) by auto
  have rest: "paging_rest s2 = paging_rest ?t"
    using s2(2) mm_only_rest [OF s1(3)] by (simp add: wrote_def)
  have "heap_env s2"
  proof (rule heap_env_mapped(1) [OF env found one_neq_zero _ rest, of 1])
    show "paging_inv s2"
      using s2(2) by (simp add: wrote_def)
    show "mapping s2 p = mapping s p" if "p \<notin> page_no a ` {..<1}" for p
      using that s2(2) s1(4) by (auto simp: wrote_def page_no_def)
  qed simp
  moreover have "spare_frames s2 < spare_frames s"
    using s2(2) s1(5) by (simp add: wrote_def spare_frames_def frames_needed_def free_frames_def used_frames_def frame_limit_def split: if_splits)
  ultimately show thesis
    using that s1(1) s2(1) paging_restD(2) [OF rest] by simp
qed

text \<open>
  A round either maps and fills a page, which takes at least one frame and exactly one page of address
  space, or stops the kernel because one or the other is exhausted.
\<close>

lemma page_round_ok:
  assumes env: "heap_env s"
  shows "(\<exists>s'. page_round kd s = Inr s' \<and> heap_env s' \<and> spare_frames s' < spare_frames s \<and>
            card (free_pages (kasa_data s)) = Suc (card (free_pages (kasa_data s')))) \<or>
         (page_round kd s = Inl (Panic ''FAILED TO ALLOCATE PAGE!'') \<and> spare_frames s < 2) \<or>
         (page_round kd s = Inl (Panic ''Out of address space!'') \<and> free_pages (kasa_data s) = {})"
proof -
  note e = heap_envD [OF env]
  consider a ka where "asa_alloc 1 (kasa_data s) = Inr (a, ka)" "asa_found (kasa_data s) 1 (a, ka)"
    | "asa_alloc 1 (kasa_data s) = Inr (0, kasa_data s)" "\<forall>f. \<not> free_run (kasa_data s) 1 f"
    using asa_alloc_ok [OF e(3), of 1] by auto
  then show ?thesis
  proof cases
    case 1
    let ?t = "s\<lparr>kasa_data := ka\<rparr>" and ?p = "a div PAGE_SIZE"
    note r = asa_run_mappable [OF env 1(2) one_neq_zero]
    show ?thesis
    proof (cases "frames_needed ?t ?p \<le> spare_frames ?t")
      case True
      obtain f s1 s2 where s2: "i386_allocate_page kd (i386_kernel_mmu_data s) a (PT_PRESENT OR PT_RW) (PD_PRESENT OR PD_RW) ?t =
          Inr ((K_SUCCESS, Some f), s1)" "memset_virt a 0xFF 0x1000 s1 = Inr s2" "heap_env s2" "spare_frames s2 < spare_frames s"
          "kasa_data s2 = ka"
        by (rule fill_new_page [OF env 1(2) True])
      have "free_pages (kasa_data s) = insert (unat a div 4096) (free_pages ka)" "unat a div 4096 \<notin> free_pages ka"
        using r(7,8,11) bs.ones_bound [of "asa_pages ka"] by (auto simp: free_pages_def asa_used_def)
      then have "card (free_pages (kasa_data s)) = Suc (card (free_pages ka))"
        by (simp add: free_pages_def)
      then show ?thesis
        using 1(1) r(2) s2 by (simp add: page_round_def)
    next
      case False
      have "frames_needed ?t ?p \<le> 2"
        by (simp add: frames_needed_def)
      moreover obtain s' where "i386_allocate_page kd (i386_kernel_mmu_data s) a (PT_PRESENT OR PT_RW) (PD_PRESENT OR PD_RW) ?t =
          Inr ((K_OOM, None), s')"
        using allocate_page_oom [of ?t a kd "PT_PRESENT OR PT_RW" "PD_PRESENT OR PD_RW"] False heap_envD(1) [OF env] r(3)
        by (auto simp: spare_frames_def)
      ultimately show ?thesis
        using 1(1) r(2) False by (auto simp: page_round_def PANIC_def)
    qed
  next
    case 2
    then show ?thesis
      by (auto simp: page_round_def PANIC_def free_pages_def free_run_def)
  qed
qed

text \<open>The pages run out or the frames do; with fewer frames than pages it is the frames.\<close>

lemma page_loop_panics:
  assumes "heap_env s"
  shows "page_loop kd s = Some (Inl (Panic ''FAILED TO ALLOCATE PAGE!'')) \<or>
         (page_loop kd s = Some (Inl (Panic ''Out of address space!'')) \<and> card (free_pages (kasa_data s)) \<le> spare_frames s)"
  using assms
proof (induction "spare_frames s" arbitrary: s rule: less_induct)
  case less
  from page_round_ok [OF less.prems, of kd] consider
      s' where "page_round kd s = Inr s'" "heap_env s'" "spare_frames s' < spare_frames s"
        "card (free_pages (kasa_data s)) = Suc (card (free_pages (kasa_data s')))"
    | "page_round kd s = Inl (Panic ''FAILED TO ALLOCATE PAGE!'')"
    | "page_round kd s = Inl (Panic ''Out of address space!'')" "free_pages (kasa_data s) = {}"
    by blast
  then show ?case
  proof cases
    case 1
    then show ?thesis
      using less.hyps [OF 1(3,2)] by (subst (1 2) page_loop.simps) auto
  next
    case 2
    then show ?thesis
      by (subst page_loop.simps) simp
  next
    case 3
    then show ?thesis
      by (subst (2) page_loop.simps) simp
  qed
qed

section \<open>The banner\<close>

lemma write_returns:
  assumes "vga_ok (console k)" and "length txt < 4294967296"
  obtains c where "on_console (vga_textmode_writestring txt) k = Inr (k\<lparr>console := c\<rparr>)" and "vga_ok c"
  by (rule writestring_returns [OF assms]) (use that in \<open>simp add: on_console_def\<close>)

lemma show_returns:
  assumes "vga_ok (console k)" and "room_ok (im_room im)" and "list_all (\<lambda>c. c \<noteq> 0 \<and> c \<noteq> CHAR_PERCENT) (lit txt)"
    and "length txt < 1000" and "fmt = txt @ ''%x''"
  obtains c where "on_console (printf (im_room im) (lit fmt @ [CHAR_NL]) [Int_arg v]) k = Inr (k\<lparr>console := c\<rparr>)" and "vga_ok c"
  by (rule printf_hex_line [OF assms(1-3), of v]) (use assms(4,5) that in \<open>auto simp: on_console_def lit_def\<close>)

lemma banner_texts:
  "list_all (\<lambda>c. c \<noteq> 0 \<and> c \<noteq> CHAR_PERCENT) (lit ''Heap start: 0x'')"
  "list_all (\<lambda>c. c \<noteq> 0 \<and> c \<noteq> CHAR_PERCENT) (lit ''Heap curpos: 0x'')"
  "list_all (\<lambda>c. c \<noteq> 0 \<and> c \<noteq> CHAR_PERCENT) (lit ''kHighest page: 0x'')"
  by (simp_all add: lit_def CHAR_PERCENT_def)

lemma kernel_main_loop:
  assumes ok: "vga_ok (console k)" and room: "room_ok (im_room im)"
  obtains c where "kernel_main im k = on_memory (\<lambda>m. or_diverge (page_loop (kalloc_data k) m)) (k\<lparr>console := c\<rparr>)"
proof -
  let ?col = "\<lambda>c k. k\<lparr>console := vga_textmode_setcolor c (console k)\<rparr>" and ?grey = "make_color COLOR_LIGHT_GREY COLOR_BLACK"
  let ?k = "\<lambda>c. k\<lparr>console := c\<rparr>"
  obtain c1 where 1: "on_console (vga_textmode_writestring (lit ''Welcome to '')) k = Inr (?k c1)" "vga_ok c1"
    by (rule write_returns [OF ok, of "lit ''Welcome to ''"]) (simp_all add: lit_def)
  obtain c2 where 2: "on_console (vga_textmode_writestring (lit ''ShawnOS '')) (?col (ucast (color_code COLOR_CYAN)) (?k c1)) = Inr (?k c2)" "vga_ok c2"
    by (rule write_returns [of "?col (ucast (color_code COLOR_CYAN)) (?k c1)" "lit ''ShawnOS ''"]) (use 1(2) in \<open>simp_all add: lit_def\<close>)
  obtain c3 where 3: "on_console (vga_textmode_writestring (lit ''Version '')) (?col ?grey (?k c2)) = Inr (?k c3)" "vga_ok c3"
    by (rule write_returns [of "?col ?grey (?k c2)" "lit ''Version ''"]) (use 2(2) in \<open>simp_all add: lit_def\<close>)
  obtain c4 where 4: "on_console (vga_textmode_writestring (lit ''0.01 Alpha'')) (?col (ucast (color_code COLOR_RED)) (?k c3)) = Inr (?k c4)" "vga_ok c4"
    by (rule write_returns [of "?col (ucast (color_code COLOR_RED)) (?k c3)" "lit ''0.01 Alpha''"]) (use 3(2) in \<open>simp_all add: lit_def\<close>)
  obtain c5 where 5: "on_console (vga_textmode_writestring (lit ''!'' @ [CHAR_NL, CHAR_NL])) (?col ?grey (?k c4)) = Inr (?k c5)" "vga_ok c5"
    by (rule write_returns [of "?col ?grey (?k c4)" "lit ''!'' @ [CHAR_NL, CHAR_NL]"]) (use 4(2) in \<open>simp_all add: lit_def\<close>)
  let ?show = "\<lambda>txt v. on_console (printf (im_room im) (lit txt @ [CHAR_NL]) [Int_arg v])"
  obtain c6 where 6: "?show ''Heap start: 0x%x'' (kernel_heap_start (meminfo (memory k))) (?k c5) = Inr (?k c6)" "vga_ok c6"
    by (rule show_returns [of "?k c5", OF _ room banner_texts(1), of "''Heap start: 0x%x''" "kernel_heap_start (meminfo (memory k))"]) (use 5(2) in simp_all)
  obtain c7 where 7: "?show ''Heap curpos: 0x%x'' (kernel_heap_curpos (meminfo (memory k))) (?k c6) = Inr (?k c7)" "vga_ok c7"
    by (rule show_returns [of "?k c6", OF _ room banner_texts(2), of "''Heap curpos: 0x%x''" "kernel_heap_curpos (meminfo (memory k))"]) (use 6(2) in simp_all)
  obtain c8 where 8: "?show ''kHighest page: 0x%x'' (kp_highest_page (kpaging_data (memory k))) (?k c7) = Inr (?k c8)"
    by (rule show_returns [of "?k c7", OF _ room banner_texts(3), of "''kHighest page: 0x%x''" "kp_highest_page (kpaging_data (memory k))"]) (use 7(2) in simp_all)
  have keep: "memory (?k c) = memory k" "kalloc_data (?k c) = kalloc_data k" for c
    by simp_all
  show thesis
    by (rule that [of c8]) (simp only: kernel_main_def Let_def 1 2 3 4 5 6 7 8 bindr_simps keep)
qed

section \<open>Properties\<close>

lemma kernel_main_outcome:
  assumes "vga_ok (console k)" and "room_ok (im_room im)" and "heap_env (memory k)"
  shows "kernel_main im k = Inl (Panic ''FAILED TO ALLOCATE PAGE!'') \<or>
         (kernel_main im k = Inl (Panic ''Out of address space!'') \<and>
          card (free_pages (kasa_data (memory k))) \<le> spare_frames (memory k))"
proof -
  obtain c where "kernel_main im k = on_memory (\<lambda>m. or_diverge (page_loop (kalloc_data k) m)) (k\<lparr>console := c\<rparr>)"
    by (rule kernel_main_loop [OF assms(1,2)])
  then show ?thesis
    using page_loop_panics [OF assms(3), of "kalloc_data k"] by (auto simp: on_memory_def)
qed

lemma spare_frames_le: "spare_frames s * 4096 \<le> unat (highest_free_address (meminfo s))"
proof -
  have "spare_frames s \<le> frame_limit s"
    using card_mono [of "{..<frame_limit s}" "free_frames s"] by (auto simp: spare_frames_def free_frames_alt)
  also have "frame_limit s \<le> unat (highest_free_address (meminfo s)) div 4096"
    by (simp add: frame_limit_def INDEX_FROM_BIT_def unat_div PAGE_SIZE_def)
  finally show ?thesis
    by (simp add: less_eq_div_iff_mult_less_eq)
qed

text \<open>
  The kernel's main routine never runs forever and never faults: from a kernel that is set up, its loop
  takes, maps and fills pages until it stops the kernel, because the frames are exhausted or, when
  there are at least as many frames as pages of address space, because the address space is.
\<close>

theorem kernel_main_panics:
  assumes "kernel_up im k" and "room_ok (im_room im)"
  shows "kernel_main im k = Inl (Panic ''FAILED TO ALLOCATE PAGE!'') \<or>
         (kernel_main im k = Inl (Panic ''Out of address space!'') \<and>
          card (free_pages (kasa_data (memory k))) \<le> spare_frames (memory k))"
  using kernel_main_outcome [of k im] assms by (simp add: kernel_up_def heap_inv_def)

theorem kernel_main_panics_witness:
  "\<exists>k. kernel_early sample_image sample_boot MULTIBOOT_BOOTLOADER_MAGIC 0x10000 sample_kernel = Inr k \<and>
     (\<exists>why. kernel_main sample_image k = Inl (Panic why))"
proof -
  obtain k where "kernel_early sample_image sample_boot MULTIBOOT_BOOTLOADER_MAGIC 0x10000 sample_kernel = Inr k"
      "kernel_up sample_image k"
    using kernel_early_ok [OF sample_bootable sample_kernel_reset] by blast
  then show ?thesis
    using kernel_main_panics [of sample_image k] sample_kernel_reset(1) by blast
qed



end
