(* ===== verification/Kernel_Events.thy ===== *)
theory Kernel_Events
  imports Kernel_Main
begin

text \<open>
  The kernel under interrupts. Once \<open>kernel_early\<close> has set the interrupt flag, hardware interrupts arrive
  in any order; each runs \<open>_irq_handler\<close>, which calls the timer's or the keyboard's routine through the
  table, or reports that there is none. A step relation takes the kernel from one interrupt to the
  next, and what holds after the boot is shown for every state that can be reached.
\<close>

section \<open>Interrupts as steps\<close>

text \<open>What runs at an address: the routines of the kernel, by the addresses the linker gave them.\<close>

definition kernel_run :: "kernel_image \<Rightarrow> code_ptr \<Rightarrow> 'a pit_state_scheme \<Rightarrow> 'a pit_state_scheme res" where
  "kernel_run im f s = (if f = im_kernel_task im then Inr (kernel_task s) else Inl Wild_access)"

definition kernel_call :: "kernel_image \<Rightarrow> u8 \<Rightarrow> code_ptr \<Rightarrow> i386_registers \<Rightarrow> kbd_state \<Rightarrow> kbd_state res" where
  "kernel_call im port_60 h r s =
     (if h = im_pit_handler im then pit_irq_timer_handler (im_room im) (kernel_run im) r s
      else if h = im_pckbd_handler im then pckbd_irq_input_handler (im_room im) ((\<lambda>_. 0)(0x60 := port_60)) r s
      else Inl Wild_access)"

text \<open>The stub of line \<open>n\<close> pushes \<open>32 + n\<close>; \<open>port_60\<close> is the byte the keyboard has to offer.\<close>

definition kernel_irq :: "kernel_image \<Rightarrow> u32 \<Rightarrow> u8 \<Rightarrow> i386_registers \<Rightarrow> kernel_state \<Rightarrow> kernel_state res" where
  "kernel_irq im n port_60 r = on_console (irq_handler (im_room im) (kernel_call im port_60) (r\<lparr>int_no := 32 + n\<rparr>))"

type_synonym irq_event = "u32 \<times> u8"

inductive kernel_step :: "kernel_image \<Rightarrow> kernel_state \<Rightarrow> irq_event \<Rightarrow> kernel_state \<Rightarrow> bool" for im where
  Irq: "interrupts_on k \<Longrightarrow> n < 16 \<Longrightarrow> kernel_irq im n b r k = Inr k' \<Longrightarrow> kernel_step im k (n, b) k'"

inductive kernel_reaches :: "kernel_image \<Rightarrow> kernel_state \<Rightarrow> irq_event list \<Rightarrow> kernel_state \<Rightarrow> bool" for im k where
  Idle: "kernel_reaches im k [] k"
| Step: "kernel_reaches im k evs k' \<Longrightarrow> kernel_step im k' ev k'' \<Longrightarrow> kernel_reaches im k (evs @ [ev]) k''"

inductive_cases kernel_stepE [elim]: "kernel_step im k ev k'"

section \<open>What an interrupt does to the console\<close>

text \<open>The codes that press or release a shift key, and the one that presses caps lock.\<close>

definition shift_code :: "u8 \<Rightarrow> bool" where "shift_code b \<longleftrightarrow> b \<in> {42, 54, 170, 182}"
definition caps_code :: "u8 \<Rightarrow> bool" where "caps_code b \<longleftrightarrow> b = 58"

lemma ucast_code: "(ucast b :: i32) = ucast n \<longleftrightarrow> b = (n :: u8)"
  by (metis byte_int_byte)

lemma code_press: "(ucast b :: i32) = 42 \<longleftrightarrow> b = 42" "(ucast b :: i32) = 54 \<longleftrightarrow> b = 54" "(ucast b :: i32) = 58 \<longleftrightarrow> b = 58"
    "(ucast b :: i32) - 128 = 42 \<longleftrightarrow> b = 170" "(ucast b :: i32) - 128 = 54 \<longleftrightarrow> b = 182" for b :: u8
  using ucast_code [of b 42] ucast_code [of b 54] ucast_code [of b 58] ucast_code [of b 170] ucast_code [of b 182]
  by (simp_all add: diff_eq_eq)

lemma key_handler_ok:
  fixes s :: kbd_state
  assumes "vga_ok s" and "room_ok room" and "int_no r = 33" and "pckbd_selected_driver s = Some pckbd_us_qwerty" and "ports 0x60 = b"
  obtains t where "pckbd_irq_input_handler room ports r s = Inr t" and "vga_ok t"
    and "vga_state.more t = vga_state.more (s\<lparr>pckbd_is_shift := (pckbd_is_shift s \<noteq> shift_code b),
           pckbd_is_capslock := (pckbd_is_capslock s \<noteq> caps_code b)\<rparr>)"
proof (cases "b AND 0x80 \<noteq> 0")
  case True
  then have "128 \<le> unat b"
    by (simp only: high_bit_iff)
  then have "b \<noteq> 42" "b \<noteq> 54" "b \<noteq> 58"
    by auto
  then have "pckbd_irq_input_handler room ports r s = Inr (s\<lparr>pckbd_is_shift := (pckbd_is_shift s \<noteq> shift_code b),
           pckbd_is_capslock := (pckbd_is_capslock s \<noteq> caps_code b)\<rparr>)"
    using True assms(3-5) by (simp add: pckbd_irq_input_handler_def inportb_def us_contains_shift code_press shift_code_def caps_code_def)
  then show thesis
    using that assms(1) by (simp add: vga_ok_def vga_ready_def)
next
  case False
  then have b: "unat b < 128"
    using high_bit_iff [of b] by linarith
  then have ne: "b \<noteq> 170" "b \<noteq> 182"
    by auto
  define s' where "s' = s\<lparr>pckbd_is_shift := (pckbd_is_shift s \<noteq> shift_code b), pckbd_is_capslock := (pckbd_is_capslock s \<noteq> caps_code b)\<rparr>"
  let ?c = "key_char (pckbd_is_shift s') (pckbd_is_capslock s') b"
  have caps: "pckbd_caps_sc pckbd_us_qwerty = 58"
    by (simp add: pckbd_us_qwerty_def)
  have upd: "(let t = (if b = 42 \<or> b = 54 then s\<lparr>pckbd_is_shift := \<not> pckbd_is_shift s\<rparr> else s)
      in if b = 58 then t\<lparr>pckbd_is_capslock := \<not> pckbd_is_capslock t\<rparr> else t) = s'"
    using ne by (auto simp: s'_def shift_code_def caps_code_def Let_def)
  have h: "pckbd_irq_input_handler room ports r s = (if ?c \<noteq> 0 then printf room (lit ''%c'') [Int_arg ?c] s' else Inr s')"
    using False assms(3-5) us_scancode_char [OF b, of "pckbd_is_capslock s'" "pckbd_is_shift s'"] upd
    by (simp add: pckbd_irq_input_handler_def inportb_def us_contains_shift code_press caps Let_def split del: if_split cong: if_cong)
  have ok: "vga_ok s'"
    using assms(1) by (simp add: vga_ok_def vga_ready_def s'_def)
  obtain n t where "vprintf room (concat (map item_format [Char_conv ?c])) (concat (map item_args [Char_conv ?c])) s' = Inr (n, t)"
      "vga_ok t" "vga_state.more t = vga_state.more s'"
    by (rule vprintf_returns [OF ok assms(2), of "[Char_conv ?c]"]) (auto simp: lit_def)
  then have "printf room (lit ''%c'') [Int_arg ?c] s' = Inr t"
    by (simp add: printf_def lit_def)
  then show thesis
    using that [of t] that [of s'] h ok \<open>vga_ok t\<close> \<open>vga_state.more t = vga_state.more s'\<close> by (auto simp: s'_def split: if_splits)
qed

text \<open>A line without a routine is reported; nothing but the screen changes.\<close>

lemma unknown_irq_returns:
  assumes "vga_ok s" and "room_ok room" and "unat n < 16"
  obtains t where "printk_debug room (lit ''Don't know how to handle IRQ #%d'') [Int_arg n] s = Inr t" and "vga_ok t"
    and "vga_state.more t = vga_state.more s"
  by (rule printk_debug_returns [OF assms(1,2), of "[Text (lit ''Don't know how to handle IRQ #''), Int_conv n]"])
    (use assms(3) that in \<open>auto simp: lit_def CHAR_PERCENT_def\<close>)

definition console_up :: "kernel_image \<Rightarrow> kbd_state \<Rightarrow> bool" where
  "console_up im c \<longleftrightarrow> vga_ok c \<and> tables_ok im c \<and> drivers_ok im c \<and>
     intr_state.isr_routines c = (replicate 32 None)[14 := Some (im_page_fault_handler im)]"

lemma kernel_up_console:
  "kernel_up im k \<longleftrightarrow> console_up im (console k) \<and> interrupts_on k \<and> default_heap (kheap_default (memory k)) \<and>
     heap_inv [] (\<lambda>_. Map.empty) (kheap_default (memory k)) (memory k) \<and>
     (\<exists>kd. kalloc_data k = \<lparr>kalloc_malloc_real_fn = Some (kheap_kalloc_malloc_real (i386_paging_interface kd)),
                             kalloc_free_fn = Some kheap_kalloc_free\<rparr>)"
  by (simp add: kernel_up_def console_up_def)

text \<open>Output and the acknowledgement keep what the console is set up with.\<close>

lemma console_up_more:
  assumes "console_up im s" and "vga_state.more t = vga_state.more s" and "vga_ok t"
  shows "console_up im t"
proof -
  note m = vga_moreD [OF assms(2)] and i = intr_moreD [OF vga_moreD(7) [OF assms(2)]]
  show ?thesis
    using assms(1,3) m i by (simp add: console_up_def tables_ok_def drivers_ok_def pit_inv_def installed_def)
qed

lemma console_up_upd [simp]:
  "console_up im (c\<lparr>port_writes := w\<rparr>) = console_up im c"
  "console_up im (c\<lparr>pit_total_timer_ticks := n\<rparr>) = console_up im c"
  "console_up im (c\<lparr>pckbd_is_shift := x, pckbd_is_capslock := y\<rparr>) = console_up im c"
  by (simp_all add: console_up_def vga_ok_def vga_ready_def tables_ok_def drivers_ok_def pit_inv_def installed_def)

lemma console_upD:
  assumes "console_up im c"
  shows "vga_ok c" "irq_routines c ! 0 = Some (im_pit_handler im)" "irq_routines c ! 1 = Some (im_pckbd_handler im)"
    "2 \<le> n \<Longrightarrow> n < 16 \<Longrightarrow> irq_routines c ! n = None" "length (irq_routines c) = 16"
    "pckbd_selected_driver c = Some pckbd_us_qwerty" "pit_inv c" "installed c = [\<lparr>hz = PIT_TIMER_CONSTANT, func = im_kernel_task im\<rparr>]"
  using assms by (simp_all add: console_up_def drivers_ok_def nth_list_update)

lemma timer_handler_ok:
  fixes c :: kbd_state
  assumes "console_up im c" and "int_no r = 32"
  shows "pit_irq_timer_handler (im_room im) (kernel_run im) r c = Inr (c\<lparr>pit_total_timer_ticks := pit_total_timer_ticks c + 1\<rparr>)"
proof -
  let ?c = "c\<lparr>pit_total_timer_ticks := pit_total_timer_ticks c + 1\<rparr>"
  note up = console_upD [OF assms(1)]
  have l: "length (pit_routines c) = 64" "unat (pit_routines_size c) \<le> 64"
    using up(7) by (simp_all add: pit_inv_def)
  then have "length (installed c) = unat (pit_routines_size c)"
    by (simp add: installed_def)
  then have n: "unat (pit_routines_size c) = 1"
    using up(8) by simp
  have r: "pit_routines c ! 0 = \<lparr>hz = PIT_TIMER_CONSTANT, func = im_kernel_task im\<rparr>"
    using up(8) n l(1) by (cases "pit_routines c") (simp_all add: installed_def)
  have "pit_run_loop (kernel_run im) 1 ?c = Inr ?c"
    using n by (simp add: pit_run_loop.simps [of _ "Suc 0"])
  then have "pit_run_loop (kernel_run im) 0 ?c = Inr ?c"
    using n l(1) r by (simp add: pit_run_loop.simps [of _ 0] umod_def PIT_TIMER_CONSTANT_def kernel_run_def kernel_task_def)
  then show ?thesis
    using assms(2) by (simp add: pit_irq_timer_handler_def)
qed

text \<open>How an interrupt changes the three variables of the drivers.\<close>

definition ticks_after :: "irq_event \<Rightarrow> u32 \<Rightarrow> u32" where
  "ticks_after ev t = (if fst ev = 0 then t + 1 else t)"

definition shift_after :: "irq_event \<Rightarrow> bool \<Rightarrow> bool" where
  "shift_after ev x = (x \<noteq> (fst ev = 1 \<and> shift_code (snd ev)))"

definition caps_after :: "irq_event \<Rightarrow> bool \<Rightarrow> bool" where
  "caps_after ev x = (x \<noteq> (fst ev = 1 \<and> caps_code (snd ev)))"

text \<open>The routine of a line, or the report that there is none.\<close>

lemma irq_routine_ok:
  assumes up: "console_up im c" and room: "room_ok (im_room im)" and ne: "im_pit_handler im \<noteq> im_pckbd_handler im"
    and n: "n < 16" and r: "int_no r = 32 + n"
  shows "\<exists>t. (case irq_routines c ! unat n of Some h \<Rightarrow> kernel_call im b h r c
       | None \<Rightarrow> printk_debug (im_room im) (lit ''Don't know how to handle IRQ #%d'') [Int_arg n] c) = Inr t \<and>
     console_up im t \<and> pit_total_timer_ticks t = ticks_after (n, b) (pit_total_timer_ticks c) \<and>
     pckbd_is_shift t = shift_after (n, b) (pckbd_is_shift c) \<and> pckbd_is_capslock t = caps_after (n, b) (pckbd_is_capslock c)"
proof -
  note u = console_upD [OF up]
  have n16: "unat n < 16"
    using n by (simp add: word_less_nat_alt)
  consider "n = 0" | "n = 1" | "2 \<le> unat n"
    by (metis One_nat_def less_2_cases_iff not_le unat_1 unat_0 word_unat_eq_iff)
  then show ?thesis
  proof cases
    case 1
    then show ?thesis
      using timer_handler_ok [OF up, of r] r u(2) up
      by (simp add: kernel_call_def ticks_after_def shift_after_def caps_after_def)
  next
    case 2
    have i: "int_no r = 33"
      using 2 r by simp
    obtain t where t: "pckbd_irq_input_handler (im_room im) ((\<lambda>_. 0)(0x60 := b)) r c = Inr t" "vga_ok t"
        "vga_state.more t = vga_state.more (c\<lparr>pckbd_is_shift := (pckbd_is_shift c \<noteq> shift_code b),
           pckbd_is_capslock := (pckbd_is_capslock c \<noteq> caps_code b)\<rparr>)"
      by (rule key_handler_ok [OF u(1) room i u(6), of "(\<lambda>_. 0)(0x60 := b)" b]) simp
    note m = intr_moreD [OF vga_moreD(7) [OF t(3)]]
    have "console_up im t"
      by (rule console_up_more [OF _ t(3,2)]) (use up in simp)
    then show ?thesis
      using 2 t(1) u(3) ne m(3,5,6) by (simp add: kernel_call_def ticks_after_def shift_after_def caps_after_def)
  next
    case 3
    then have "n \<noteq> 0" "n \<noteq> 1"
      by auto
    moreover obtain t where t: "printk_debug (im_room im) (lit ''Don't know how to handle IRQ #%d'') [Int_arg n] c = Inr t" "vga_ok t"
        "vga_state.more t = vga_state.more c"
      by (rule unknown_irq_returns [OF u(1) room n16])
    moreover note m = intr_moreD [OF vga_moreD(7) [OF t(3)]]
    ultimately show ?thesis
      using u(4) [OF 3 n16] console_up_more [OF up t(3,2)] m(3,5,6)
      by (simp add: ticks_after_def shift_after_def caps_after_def)
  qed
qed

lemma kernel_irq_ok:
  assumes up: "console_up im (console k)" and room: "room_ok (im_room im)" and ne: "im_pit_handler im \<noteq> im_pckbd_handler im" and n: "n < 16"
  obtains c where "kernel_irq im n b r k = Inr (k\<lparr>console := c\<rparr>)" and "console_up im c"
    and "pit_total_timer_ticks c = ticks_after (n, b) (pit_total_timer_ticks (console k))"
    and "pckbd_is_shift c = shift_after (n, b) (pckbd_is_shift (console k))"
    and "pckbd_is_capslock c = caps_after (n, b) (pckbd_is_capslock (console k))"
proof -
  let ?r = "r\<lparr>int_no := 32 + n\<rparr>"
  obtain t where t: "(case irq_routines (console k) ! unat n of Some h \<Rightarrow> kernel_call im b h ?r (console k)
       | None \<Rightarrow> printk_debug (im_room im) (lit ''Don't know how to handle IRQ #%d'') [Int_arg n] (console k)) = Inr t" "console_up im t"
      "pit_total_timer_ticks t = ticks_after (n, b) (pit_total_timer_ticks (console k))"
      "pckbd_is_shift t = shift_after (n, b) (pckbd_is_shift (console k))"
      "pckbd_is_capslock t = caps_after (n, b) (pckbd_is_capslock (console k))"
    using irq_routine_ok [OF up room ne n, of ?r b] by auto
  have i: "int_no ?r - 32 = n" "unat n < length (irq_routines (console k))"
    using n console_upD(5) [OF up] by (simp_all add: word_less_nat_alt)
  have "irq_handler (im_room im) (kernel_call im b) ?r (console k) =
      Inr (t\<lparr>port_writes := port_writes t @ end_of_interrupt (32 + n)\<rparr>)"
    unfolding irq_handler_def i(1) using i(2) t(1) by (simp add: outportb_def end_of_interrupt_def)
  then show thesis
    using that t(2-5) by (simp add: kernel_irq_def on_console_def)
qed

section \<open>Every state that interrupts can reach\<close>

lemma kernel_step_keeps:
  assumes "kernel_step im k ev k'" and "kernel_up im k" and "room_ok (im_room im)" and "im_pit_handler im \<noteq> im_pckbd_handler im"
  shows "kernel_up im k'" and "memory k' = memory k"
    and "pit_total_timer_ticks (console k') = ticks_after ev (pit_total_timer_ticks (console k))"
    and "pckbd_is_shift (console k') = shift_after ev (pckbd_is_shift (console k))"
    and "pckbd_is_capslock (console k') = caps_after ev (pckbd_is_capslock (console k))"
proof -
  from assms(1) obtain n b r where ev: "ev = (n, b)" "n < 16" "kernel_irq im n b r k = Inr k'"
    by (cases rule: kernel_step.cases)
  have up: "console_up im (console k)"
    using assms(2) by (simp add: kernel_up_console)
  obtain c where "kernel_irq im n b r k = Inr (k\<lparr>console := c\<rparr>)" "console_up im c"
      "pit_total_timer_ticks c = ticks_after (n, b) (pit_total_timer_ticks (console k))"
      "pckbd_is_shift c = shift_after (n, b) (pckbd_is_shift (console k))"
      "pckbd_is_capslock c = caps_after (n, b) (pckbd_is_capslock (console k))"
    by (rule kernel_irq_ok [OF up assms(3,4) ev(2)])
  then show "kernel_up im k'" "memory k' = memory k"
    "pit_total_timer_ticks (console k') = ticks_after ev (pit_total_timer_ticks (console k))"
    "pckbd_is_shift (console k') = shift_after ev (pckbd_is_shift (console k))"
    "pckbd_is_capslock (console k') = caps_after ev (pckbd_is_capslock (console k))"
    using assms(2) ev by (auto simp: kernel_up_console)
qed

lemma kernel_step_exists:
  assumes "kernel_up im k" and "room_ok (im_room im)" and "im_pit_handler im \<noteq> im_pckbd_handler im" and "n < 16"
  shows "\<exists>k'. kernel_step im k (n, b) k'"
proof -
  have up: "console_up im (console k)" "interrupts_on k"
    using assms(1) by (simp_all add: kernel_up_console)
  obtain c where "kernel_irq im n b undefined k = Inr (k\<lparr>console := c\<rparr>)"
    by (rule kernel_irq_ok [OF up(1) assms(2-4)])
  then show ?thesis
    using up(2) assms(4) by (blast intro: kernel_step.Irq)
qed

lemma kernel_reaches_keeps:
  assumes "kernel_reaches im k evs k'" and "kernel_up im k" and "room_ok (im_room im)" and "im_pit_handler im \<noteq> im_pckbd_handler im"
  shows "kernel_up im k' \<and> memory k' = memory k \<and>
     pit_total_timer_ticks (console k') = fold ticks_after evs (pit_total_timer_ticks (console k)) \<and>
     pckbd_is_shift (console k') = fold shift_after evs (pckbd_is_shift (console k)) \<and>
     pckbd_is_capslock (console k') = fold caps_after evs (pckbd_is_capslock (console k))"
  using assms
proof (induction rule: kernel_reaches.induct)
  case (Step evs k' ev k'')
  then show ?case
    using kernel_step_keeps [of im k' ev k''] by simp
qed simp

lemma kernel_serves_all:
  assumes "kernel_up im k" and "room_ok (im_room im)" and "im_pit_handler im \<noteq> im_pckbd_handler im" and "\<forall>ev\<in>set evs. fst ev < 16"
  shows "\<exists>k'. kernel_reaches im k evs k'"
  using assms(4)
proof (induction evs rule: rev_induct)
  case Nil
  show ?case
    by (blast intro: kernel_reaches.Idle)
next
  case (snoc ev evs)
  then obtain k' where k': "kernel_reaches im k evs k'"
    by auto
  then have "kernel_up im k'"
    using kernel_reaches_keeps assms(1-3) by blast
  then obtain k'' where "kernel_step im k' (fst ev, snd ev) k''"
    using kernel_step_exists [OF _ assms(2,3)] snoc.prems by fastforce
  then have "kernel_step im k' ev k''"
    by simp
  then show ?case
    using kernel_reaches.Step [OF k'] by blast
qed

lemma sample_kernel_up:
  obtains k where "kernel_up sample_image k" and "pit_total_timer_ticks (console k) = 0" and "\<not> pckbd_is_shift (console k)"
    and "im_pit_handler sample_image \<noteq> im_pckbd_handler sample_image"
  using kernel_early_ok [OF sample_bootable sample_kernel_reset] by (auto simp: sample_image_def)

lemma fold_ticks: "fold ticks_after evs t = t + of_nat (length (filter (\<lambda>ev. fst ev = 0) evs))"
  by (induction evs arbitrary: t) (simp_all add: ticks_after_def)

lemma fold_shift: "fold shift_after evs x = (x \<noteq> odd (length (filter (\<lambda>ev. fst ev = 1 \<and> shift_code (snd ev)) evs)))"
  by (induction evs arbitrary: x) (auto simp: shift_after_def)

lemma fold_caps: "fold caps_after evs x = (x \<noteq> odd (length (filter (\<lambda>ev. fst ev = 1 \<and> caps_code (snd ev)) evs)))"
  by (induction evs arbitrary: x) (auto simp: caps_after_def)

section \<open>Properties\<close>

text \<open>
  C2: Whatever interrupts arrive after the boot, in whatever order, the kernel stays set up as it was: the
  screen, the descriptor tables, the drivers and the heap remain well formed, memory management is
  not touched, and the next interrupt on any of the 16 lines is served to its end again.
\<close>

theorem interrupts_keep_kernel_up:
  assumes "kernel_reaches im k evs k'" and "kernel_up im k" and "room_ok (im_room im)" and "im_pit_handler im \<noteq> im_pckbd_handler im"
  shows "kernel_up im k' \<and> memory k' = memory k \<and> (\<forall>n b. n < 16 \<longrightarrow> (\<exists>k''. kernel_step im k' (n, b) k''))"
  using kernel_reaches_keeps [OF assms] kernel_step_exists [OF _ assms(3,4)] by blast

theorem interrupts_keep_kernel_up_witness:
  "\<exists>k k'. kernel_reaches sample_image k [(0, 0), (1, 30), (7, 0)] k' \<and> kernel_up sample_image k'"
proof -
  obtain k where up: "kernel_up sample_image k" and ne: "im_pit_handler sample_image \<noteq> im_pckbd_handler sample_image"
    by (rule sample_kernel_up)
  obtain k' where k': "kernel_reaches sample_image k [(0, 0), (1, 30), (7, 0)] k'"
    using kernel_serves_all [OF up sample_kernel_reset(1) ne, of "[(0, 0), (1, 30), (7, 0)]"] by auto
  then show ?thesis
    using interrupts_keep_kernel_up [OF k' up sample_kernel_reset(1) ne] by blast
qed

text \<open>
  C23: The drivers' variables count the interrupts exactly: the tick count grows by the number of timer
  interrupts (modulo \<open>2 ^ 32\<close>), the shift state is flipped by every press and release of a shift key and the
  caps lock state by every press of caps lock, and nothing else that arrives changes them.
\<close>

theorem interrupts_counted:
  assumes "kernel_reaches im k evs k'" and "kernel_up im k" and "room_ok (im_room im)" and "im_pit_handler im \<noteq> im_pckbd_handler im"
  shows "pit_get_total_ticks (console k') =
      pit_get_total_ticks (console k) + of_nat (length (filter (\<lambda>(n, b). n = 0) evs)) \<and>
    pckbd_is_shift (console k') =
      (pckbd_is_shift (console k) \<noteq> odd (length (filter (\<lambda>(n, b). n = 1 \<and> b \<in> {42, 54, 170, 182}) evs))) \<and>
    pckbd_is_capslock (console k') = (pckbd_is_capslock (console k) \<noteq> odd (length (filter (\<lambda>ev. ev = (1, 58)) evs)))"
  using kernel_reaches_keeps [OF assms]
  by (simp add: pit_get_total_ticks_def fold_ticks fold_shift fold_caps shift_code_def caps_code_def case_prod_beta' prod_eq_iff)

theorem interrupts_counted_witness:
  "\<exists>k k'. kernel_reaches sample_image k [(0, 0), (1, 42), (0, 0)] k' \<and> pit_get_total_ticks (console k') = 2 \<and> pckbd_is_shift (console k')"
proof -
  obtain k where up: "kernel_up sample_image k" "pit_total_timer_ticks (console k) = 0" "\<not> pckbd_is_shift (console k)"
    and ne: "im_pit_handler sample_image \<noteq> im_pckbd_handler sample_image"
    by (rule sample_kernel_up)
  obtain k' where k': "kernel_reaches sample_image k [(0, 0), (1, 42), (0, 0)] k'"
    using kernel_serves_all [OF up(1) sample_kernel_reset(1) ne, of "[(0, 0), (1, 42), (0, 0)]"] by auto
  have "pit_get_total_ticks (console k') = 2 \<and> pckbd_is_shift (console k')"
    using interrupts_counted [OF k' up(1) sample_kernel_reset(1) ne] up(2,3) by (simp add: pit_get_total_ticks_def)
  then show ?thesis
    using k' by blast
qed

end
