(* ===== verification/Kernel_Clients.thy ===== *)
theory Kernel_Clients
  imports Kernel_Events
begin

text \<open>
  The running kernel and the clients of its allocator. Interrupts arrive and parts of the kernel call \<open>kmalloc\<close> and
  \<open>kfree\<close>, in any order; the steps keep a map of what the clients hold. In every state that can be
  reached, what is held is mapped and lies apart, and the next call and the next interrupt are served.
\<close>

section \<open>Interrupts, requests and releases as steps\<close>

type_synonym holdings = "uintptr_t \<rightharpoonup> size_t"

datatype kernel_event = Interrupt u32 u8 | Malloc size_t u32 uintptr_t | Free uintptr_t

text \<open>
  A client asks for a size that the heap is meant for, and releases only what it holds, at the address that it got.
\<close>

inductive client_step :: "kernel_image \<Rightarrow> kernel_state \<times> holdings \<Rightarrow> kernel_event \<Rightarrow> kernel_state \<times> holdings \<Rightarrow> bool" for im where
  Interrupt: "kernel_step im k (n, b) k' \<Longrightarrow> client_step im (k, L) (Interrupt n b) (k', L)"
| Malloc: "heap_request sz \<Longrightarrow> kmalloc (kalloc_data k) sz fl (memory k) = Inr (a, m) \<Longrightarrow>
     client_step im (k, L) (Malloc sz fl a) (k\<lparr>memory := m\<rparr>, L(a \<mapsto> sz))"
| Free: "L a = Some sz \<Longrightarrow> kfree (kalloc_data k) a (memory k) = Inr m \<Longrightarrow>
     client_step im (k, L) (Free a) (k\<lparr>memory := m\<rparr>, L(a := None))"

inductive client_reaches :: "kernel_image \<Rightarrow> kernel_state \<times> holdings \<Rightarrow> kernel_event list \<Rightarrow> kernel_state \<times> holdings \<Rightarrow> bool" for im x where
  Idle: "client_reaches im x [] x"
| Step: "client_reaches im x evs y \<Longrightarrow> client_step im y ev z \<Longrightarrow> client_reaches im x (evs @ [ev]) z"

section \<open>The invariant\<close>

definition kernel_serving :: "kernel_image \<Rightarrow> kernel_state \<Rightarrow> holdings \<Rightarrow> bool" where
  "kernel_serving im k L \<longleftrightarrow> console_up im (console k) \<and> interrupts_on k \<and> heap_tracks (memory k) L \<and>
     (\<exists>kd. kalloc_data k = \<lparr>kalloc_malloc_real_fn = Some (kheap_kalloc_malloc_real (i386_paging_interface kd)),
                            kalloc_free_fn = Some kheap_kalloc_free\<rparr>)"

lemma kernel_up_serving: "kernel_up im k \<Longrightarrow> kernel_serving im k Map.empty"
  by (auto simp: kernel_up_console kernel_serving_def heap_tracks_def)

text \<open>Calls through the interface reach the heap.\<close>

lemma serving_calls:
  assumes "kernel_serving im k L"
  obtains kd where "\<forall>sz fl. kmalloc (kalloc_data k) sz fl (memory k) =
      bindr (kheap_kalloc_malloc_real (i386_paging_interface kd) sz False fl (memory k)) (\<lambda>((a, _), m). Inr (a, m))"
    and "\<forall>a. kfree (kalloc_data k) a (memory k) = kheap_kalloc_free a (memory k)"
proof -
  obtain kd where kd: "kalloc_data k = \<lparr>kalloc_malloc_real_fn = Some (kheap_kalloc_malloc_real (i386_paging_interface kd)),
                            kalloc_free_fn = Some kheap_kalloc_free\<rparr>"
    using assms unfolding kernel_serving_def by blast
  show thesis
    by (rule that [of kd]) (simp_all add: kmalloc_def kfree_def call_malloc_def kd)
qed

text \<open>A request returns memory that nobody holds, or stops the kernel because a new block is needed and cannot be had.\<close>

lemma serving_malloc:
  assumes k: "kernel_serving im k L" and req: "heap_request sz"
  shows "kmalloc (kalloc_data k) sz fl (memory k) = Inl (Panic ''kheap OOM!'') \<and> starved (memory k) \<or>
    (\<exists>a m. kmalloc (kalloc_data k) sz fl (memory k) = Inr (a, m) \<and> kernel_serving im (k\<lparr>memory := m\<rparr>) (L(a \<mapsto> sz)) \<and>
       L a = None \<and> (\<forall>b n. L b = Some n \<longrightarrow> region a sz \<inter> region b n = {}) \<and> (bit fl 2 \<longrightarrow> 4096 dvd unat a))"
proof -
  obtain kd where call: "\<forall>sz fl. kmalloc (kalloc_data k) sz fl (memory k) =
      bindr (kheap_kalloc_malloc_real (i386_paging_interface kd) sz False fl (memory k)) (\<lambda>((a, _), m). Inr (a, m))"
    using k by (rule serving_calls)
  have tr: "heap_tracks (memory k) L"
    using k by (simp add: kernel_serving_def)
  from heap_alloc_ok [OF tr req, of kd False fl] show ?thesis
  proof (elim disjE exE conjE)
    fix a f t
    assume r: "kheap_kalloc_malloc_real (i386_paging_interface kd) sz False fl (memory k) = Inr ((a, if False then Some f else None), t)"
      and t: "heap_tracks t (L(a \<mapsto> sz))" and al: "bit fl 2 \<longrightarrow> 4096 dvd unat a"
    have "kernel_serving im (k\<lparr>memory := t\<rparr>) (L(a \<mapsto> sz))"
      using k t by (simp add: kernel_serving_def)
    then show ?thesis
      using call r al heap_clients.malloc_new [OF tr req r] heap_clients.malloc_apart [OF tr req r] by simp
  qed (simp add: call)
qed

lemma serving_free:
  assumes k: "kernel_serving im k L" and a: "L a = Some sz"
  obtains m where "kfree (kalloc_data k) a (memory k) = Inr m" and "kernel_serving im (k\<lparr>memory := m\<rparr>) (L(a := None))"
proof -
  have tr: "heap_tracks (memory k) L"
    using k by (simp add: kernel_serving_def)
  obtain m where "kheap_kalloc_free a (memory k) = Inr m" "heap_tracks m (L(a := None))"
    using heap_clients.free_holds [OF tr a] by blast
  moreover obtain kd where "\<forall>a. kfree (kalloc_data k) a (memory k) = kheap_kalloc_free a (memory k)"
    using k by (rule serving_calls)
  ultimately show thesis
    using that k by (simp add: kernel_serving_def)
qed

lemma serving_interrupt:
  assumes k: "kernel_serving im k L" and room: "room_ok (im_room im)" and ne: "im_pit_handler im \<noteq> im_pckbd_handler im" and n: "n < 16"
  obtains k' where "kernel_irq im n b r k = Inr k'" and "kernel_serving im k' L"
proof -
  have "console_up im (console k)"
    using k by (simp add: kernel_serving_def)
  then obtain c where "kernel_irq im n b r k = Inr (k\<lparr>console := c\<rparr>)" "console_up im c"
    using room ne n by (rule kernel_irq_ok)
  then show thesis
    using that k by (simp add: kernel_serving_def)
qed

lemma client_step_serving:
  assumes "client_step im (k, L) ev (k', L')" and k: "kernel_serving im k L"
    and room: "room_ok (im_room im)" and ne: "im_pit_handler im \<noteq> im_pckbd_handler im"
  shows "kernel_serving im k' L'"
  using assms(1)
proof (cases rule: client_step.cases)
  case (Interrupt n b)
  then obtain r where "n < 16" "kernel_irq im n b r k = Inr k'"
    by auto
  then show ?thesis
    using serving_interrupt [OF k room ne, of n b r] Interrupt by auto
next
  case (Malloc sz fl a m)
  then show ?thesis
    using serving_malloc [OF k, of sz fl] by auto
next
  case (Free a sz m)
  then show ?thesis
    using serving_free [OF k, of a sz] by auto
qed

lemma client_reaches_serving:
  assumes "client_reaches im x evs y" and "kernel_serving im (fst x) (snd x)"
    and "room_ok (im_room im)" and "im_pit_handler im \<noteq> im_pckbd_handler im"
  shows "kernel_serving im (fst y) (snd y)"
  using assms
proof (induction rule: client_reaches.induct)
  case (Step evs y ev z)
  then show ?case
    using client_step_serving [of im "fst y" "snd y" ev "fst z" "snd z"] by simp
qed

section \<open>What clients may rely on\<close>

text \<open>
  In the state \<open>k\<close>, with \<open>L\<close> held: the pieces are mapped; they lie apart; a request returns a new piece or stops the
  kernel for want of frames or address space; every piece can be released; every interrupt is served.
\<close>

definition held_mapped :: "kernel_state \<Rightarrow> holdings \<Rightarrow> bool" where
  "held_mapped k L \<longleftrightarrow> (\<forall>a n x. L a = Some n \<longrightarrow> x \<in> region a n \<longrightarrow> mapping (memory k) (of_nat (x div 4096)) \<noteq> None)"

definition held_apart :: "holdings \<Rightarrow> bool" where
  "held_apart L \<longleftrightarrow> (\<forall>a n b m. L a = Some n \<longrightarrow> L b = Some m \<longrightarrow> a \<noteq> b \<longrightarrow> region a n \<inter> region b m = {})"

definition request_served :: "kernel_state \<Rightarrow> holdings \<Rightarrow> size_t \<Rightarrow> u32 \<Rightarrow> bool" where
  "request_served k L sz fl \<longleftrightarrow>
     (case kmalloc (kalloc_data k) sz fl (memory k) of
        Inl e \<Rightarrow> e = Panic ''kheap OOM!'' \<and> starved (memory k)
      | Inr (a, m) \<Rightarrow> L a = None \<and> (\<forall>b n. L b = Some n \<longrightarrow> region a sz \<inter> region b n = {}) \<and> (bit fl 2 \<longrightarrow> 4096 dvd unat a))"

definition clients_served :: "kernel_image \<Rightarrow> kernel_state \<Rightarrow> holdings \<Rightarrow> bool" where
  "clients_served im k L \<longleftrightarrow> held_mapped k L \<and> held_apart L \<and> (\<forall>sz fl. heap_request sz \<longrightarrow> request_served k L sz fl) \<and>
     (\<forall>a n. L a = Some n \<longrightarrow> (\<exists>m. kfree (kalloc_data k) a (memory k) = Inr m)) \<and>
     (\<forall>n b r. n < 16 \<longrightarrow> (\<exists>k'. kernel_irq im n b r k = Inr k'))"

lemma serving_clients:
  assumes k: "kernel_serving im k L" and room: "room_ok (im_room im)" and ne: "im_pit_handler im \<noteq> im_pckbd_handler im"
  shows "clients_served im k L"
proof -
  have tr: "heap_tracks (memory k) L"
    using k by (simp add: kernel_serving_def)
  have "mapping (memory k) (of_nat (x div 4096)) \<noteq> None" if "L a = Some n" "x \<in> region a n" for a n x
    using heap_clients.holds_owned [OF tr that(1)] that(2) by (intro heap_owned_mapped heap_tracks_ok [OF tr]) blast
  then have "held_mapped k L"
    by (simp add: held_mapped_def)
  moreover have "held_apart L"
    using heap_clients.holds_apart [OF tr] by (simp add: held_apart_def)
  moreover have "request_served k L sz fl" if "heap_request sz" for sz fl
    using serving_malloc [OF k that, of fl] by (auto simp: request_served_def)
  moreover have "\<exists>m. kfree (kalloc_data k) a (memory k) = Inr m" if "L a = Some n" for a n
    using serving_free [OF k that] by blast
  moreover have "\<exists>k'. kernel_irq im n b r k = Inr k'" if "n < 16" for n b r
    using serving_interrupt [OF k room ne that] by blast
  ultimately show ?thesis
    by (simp add: clients_served_def)
qed

end
