(* ===== verification/Diagnostics.thy ===== *)
theory Diagnostics
  imports Kheap_List Interrupts
begin

text \<open>
  The routines that only report: \<open>abort\<close> of \<^verbatim>\<open>libsc/stdlib/abort.c\<close> and \<open>__stack_chk_fail\<close> of
  \<^verbatim>\<open>libsc/ssp/ssp.c\<close>, the page fault handler of \<^verbatim>\<open>kernel/arch/i386/paging.c\<close>, \<open>_i386_print_reserved\<close> of
  \<^verbatim>\<open>kernel/arch/i386/mem.c\<close> and \<open>_kheap_print\<close> of \<^verbatim>\<open>kernel/mm/heap.c\<close>. The memory they report on is an
  argument: they read it and write to the screen.
\<close>

section \<open>The routines\<close>

text \<open>Interrupts are turned off and the processor spins: nothing more happens, which is the outcome \<open>Aborted\<close>.\<close>

definition abort :: "(nat \<Rightarrow> nat) \<Rightarrow> 'a vga_state_scheme \<Rightarrow> 'b res" where
  "abort room s = bindr (printf room (lit ''Kernel Panic: abort()'' @ [CHAR_NL]) [] s) (\<lambda>_. Inl Aborted)"

definition stack_chk_fail :: "(nat \<Rightarrow> nat) \<Rightarrow> 'a vga_state_scheme \<Rightarrow> 'b res" where
  "stack_chk_fail room s = abort room s"

definition PF_PRESENT :: u32 where "PF_PRESENT = 1"
definition PF_RW :: u32 where "PF_RW = 2"
definition PF_USER :: u32 where "PF_USER = 4"
definition PF_RESERVED :: u32 where "PF_RESERVED = 8"

text \<open>\<open>faulting_address\<close> is what \<open>get_faulting_address()\<close> reads from \<open>CR2\<close>.\<close>

definition page_fault_report :: "(nat \<Rightarrow> nat) \<Rightarrow> u32 \<Rightarrow> i386_registers \<Rightarrow> 'a vga_state_scheme \<Rightarrow> 'a vga_state_scheme res" where
  "page_fault_report room faulting_address r s =
     (let present = (err_code r AND PF_PRESENT = 0);
          rw = (err_code r AND PF_RW \<noteq> 0);
          us = (err_code r AND PF_USER \<noteq> 0);
          rsvd = (err_code r AND PF_RESERVED \<noteq> 0);
          line = (\<lambda>b txt s. if b then printf room (lit txt @ [CHAR_NL]) [] s else Inr s)
      in bindr (printf room (lit ''HALT - PAGE FAULT'' @ [CHAR_NL, CHAR_NL]) [] s) (\<lambda>s.
         bindr (printf room (lit ''EIP: 0x%x'' @ [CHAR_NL]) [Int_arg (r_eip r)] s) (\<lambda>s.
         bindr (printf room (lit ''Faulting address: 0x%x'' @ [CHAR_NL]) [Int_arg faulting_address] s) (\<lambda>s.
         bindr (line present ''Page not present'' s) (\<lambda>s.
         bindr (line rw ''Page not writable'' s) (\<lambda>s.
         bindr (line us ''Page not writable from user-mode'' s) (\<lambda>s.
         line rsvd ''Page reserved bits overwitten'' s)))))))"

definition i386_page_fault_handler :: "(nat \<Rightarrow> nat) \<Rightarrow> u32 \<Rightarrow> i386_registers \<Rightarrow> 'a vga_state_scheme \<Rightarrow> 'b res" where
  "i386_page_fault_handler room faulting_address r s =
     bindr (page_fault_report room faulting_address r s) (abort room)"

partial_function (option) print_mmap_loop ::
  "(nat \<Rightarrow> nat) \<Rightarrow> (u32 \<Rightarrow> multiboot_memory_map) \<Rightarrow> u32 \<Rightarrow> u32 \<Rightarrow> 'a vga_state_scheme \<Rightarrow> 'a vga_state_scheme res option" where
  "print_mmap_loop room entry_at cur stop s =
     (if cur < stop then
        let e = entry_at cur
        in (case printf room (lit ''[mem] addr: 0x%lx len: 0x%lx reserved: %u'' @ [CHAR_NL])
                   [U64_arg (mm_addr e), U64_arg (mm_len e), Int_arg (mm_type e)] s of
              Inl h \<Rightarrow> Some (Inl h)
            | Inr s \<Rightarrow> print_mmap_loop room entry_at (cur + (mm_size e + 4)) stop s)
      else Some (Inr s))"

definition i386_print_reserved :: "(nat \<Rightarrow> nat) \<Rightarrow> boot_mem \<Rightarrow> i386_mem_info \<Rightarrow> 'a vga_state_scheme \<Rightarrow> 'a vga_state_scheme res" where
  "i386_print_reserved room bm mi s =
     bindr (printf room (lit ''[mem] kernel reserved start: 0x%x end: 0x%x'' @ [CHAR_NL])
              [Int_arg (kernel_reserved_start mi), Int_arg (kernel_reserved_end mi)] s) (\<lambda>s.
     bindr (printf room (lit ''[mem] mem_lower: %u, mem_upper: %u, mem_total: %u'' @ [CHAR_NL])
              [Int_arg (mem_lower mi), Int_arg (mem_upper mi), Int_arg (mem_lower mi + mem_upper mi)] s) (\<lambda>s.
     bindr (or_diverge (print_mmap_loop room (mmap_entry_at bm) (mmap mi) (mmap mi + mmap_length mi) s)) (\<lambda>s.
     bindr (printf room (lit ''[mem] elf reserved start: 0x%x end: 0x%x'' @ [CHAR_NL])
              [Int_arg (kernel_reserved_start mi), Int_arg (kernel_reserved_end mi)] s) (\<lambda>s.
     printf room (lit ''[mem] mboot reserved start: 0x%x end: 0x%x'' @ [CHAR_NL])
              [Int_arg (multiboot_reserved_start mi), Int_arg (multiboot_reserved_end mi)] s))))"

partial_function (option) kheap_print_loop ::
  "(nat \<Rightarrow> nat) \<Rightarrow> (uintptr_t \<rightharpoonup> kheap_block) \<Rightarrow> uintptr_t \<Rightarrow> u32 \<Rightarrow> 'a vga_state_scheme \<Rightarrow> 'a vga_state_scheme res option" where
  "kheap_print_loop room blocks cur i s =
     (if cur \<noteq> 0 then
        (case blocks cur of
           None \<Rightarrow> Some (Inl Wild_access)
         | Some b \<Rightarrow>
             (case printk_debug room (lit ''[kheap] block %u: Size: %u, Usable: %u'')
                     [Int_arg i, Int_arg (kb_block_size b),
                      Int_arg (kb_block_size b - sizeof_kheap_block - (bs_length (kb_delimiters b) div 32) * 8)] s of
                Inl h \<Rightarrow> Some (Inl h)
              | Inr s \<Rightarrow> kheap_print_loop room blocks (kb_next b) (i + 1) s))
      else Some (Inr s))"

definition kheap_print :: "(nat \<Rightarrow> nat) \<Rightarrow> (uintptr_t \<rightharpoonup> kheap_block) \<Rightarrow> kheap \<Rightarrow> 'a vga_state_scheme \<Rightarrow> 'a vga_state_scheme res" where
  "kheap_print room blocks heap s = or_diverge (kheap_print_loop room blocks (kh_first heap) 0 s)"

section \<open>What is printed\<close>

text \<open>The state after \<open>out\<close> has been put on the screen.\<close>

definition printed :: "cstring \<Rightarrow> 'a vga_state_scheme \<Rightarrow> 'a vga_state_scheme \<Rightarrow> bool" where
  "printed out s t \<longleftrightarrow> vga_step (fold (screen_putchar (vga_textmode_color s)) out) s t"

lemma printed_ok: "printed out s t \<Longrightarrow> vga_ok t"
  by (simp add: printed_def vga_step_def)

lemma printed_append: "printed xs s t \<Longrightarrow> printed ys t u \<Longrightarrow> printed (xs @ ys) s u"
  by (simp add: printed_def vga_step_def)

lemma printed_nil: "vga_ok s \<Longrightarrow> printed [] s s"
  by (simp add: printed_def vga_step_def)

lemma printf_items:
  assumes "vga_ok s" and "room_ok room" and "list_all item_ok items"
    and "f = concat (map item_format items)" and "args = concat (map item_args items)" and "length f < 4294967280"
  obtains t where "printf room f args s = Inr t" and "printed (concat (map item_output items)) s t"
proof -
  obtain t where "fold_res vga_textmode_putchar (concat (map item_output items)) s = Inr t" "printed (concat (map item_output items)) s t"
    using vga_fold_ok [OF assms(1)] by (auto simp: printed_def)
  then show thesis
    using that vprintf_items [OF assms(2,3), of 0 s] assms(4-6) by (simp add: printf_def vprintf_def)
qed

lemma abort_aborts:
  assumes "vga_ok s" and "room_ok room"
  shows "abort room s = Inl Aborted"
  by (rule printf_text [OF assms, of "lit ''Kernel Panic: abort()'' @ [CHAR_NL]"])
    (auto simp: abort_def lit_def CHAR_PERCENT_def CHAR_NL_def)

text \<open>A line of text, printed when a condition holds.\<close>

lemma printf_line_if:
  assumes "vga_ok s" and "room_ok room" and "list_all (\<lambda>c. c \<noteq> 0 \<and> c \<noteq> CHAR_PERCENT) (lit txt)" and "length txt < 1000"
  obtains t where "(if b then printf room (lit txt @ [CHAR_NL]) [] s else Inr s) = Inr t"
    and "printed (if b then lit txt @ [CHAR_NL] else []) s t"
proof (cases b)
  case True
  obtain t where "printf room (lit txt @ [CHAR_NL]) [] s = Inr t" "printed (concat (map item_output [Text (lit txt @ [CHAR_NL])])) s t"
    by (rule printf_items [OF assms(1,2), of "[Text (lit txt @ [CHAR_NL])]" "lit txt @ [CHAR_NL]" "[]"])
      (use assms(3,4) in \<open>simp_all add: lit_def CHAR_NL_def CHAR_PERCENT_def\<close>)
  then show thesis
    using that True by simp
next
  case False
  then show thesis
    using that printed_nil [OF assms(1)] by simp
qed

text \<open>A line with one number in hexadecimal.\<close>

lemma printf_hex:
  assumes "vga_ok s" and "room_ok room" and "list_all (\<lambda>c. c \<noteq> 0 \<and> c \<noteq> CHAR_PERCENT) (lit txt)" and "length txt < 1000" and "fmt = txt @ ''%x''"
  obtains t where "printf room (lit fmt @ [CHAR_NL]) [Int_arg v] s = Inr t"
    and "printed (lit txt @ numeral_of 16 (unat v) @ [CHAR_NL]) s t"
  by (rule printf_items [OF assms(1,2), of "[Text (lit txt), Hex_conv v, Text [CHAR_NL]]" "lit fmt @ [CHAR_NL]" "[Int_arg v]"])
    (use assms(3-5) that in \<open>auto simp: lit_def CHAR_NL_def CHAR_PERCENT_def\<close>)

lemma report_texts:
  "list_all (\<lambda>c. c \<noteq> 0 \<and> c \<noteq> CHAR_PERCENT) (lit ''EIP: 0x'')"
  "list_all (\<lambda>c. c \<noteq> 0 \<and> c \<noteq> CHAR_PERCENT) (lit ''Faulting address: 0x'')"
  "list_all (\<lambda>c. c \<noteq> 0 \<and> c \<noteq> CHAR_PERCENT) (lit ''Page not present'')"
  "list_all (\<lambda>c. c \<noteq> 0 \<and> c \<noteq> CHAR_PERCENT) (lit ''Page not writable'')"
  "list_all (\<lambda>c. c \<noteq> 0 \<and> c \<noteq> CHAR_PERCENT) (lit ''Page not writable from user-mode'')"
  "list_all (\<lambda>c. c \<noteq> 0 \<and> c \<noteq> CHAR_PERCENT) (lit ''Page reserved bits overwitten'')"
  by (simp_all add: lit_def CHAR_PERCENT_def)

text \<open>The report of a page fault.\<close>

definition fault_text :: "u32 \<Rightarrow> i386_registers \<Rightarrow> cstring" where
  "fault_text a r = (lit ''HALT - PAGE FAULT'' @ [CHAR_NL, CHAR_NL]) @ (lit ''EIP: 0x'' @ numeral_of 16 (unat (r_eip r)) @ [CHAR_NL]) @
     (lit ''Faulting address: 0x'' @ numeral_of 16 (unat a) @ [CHAR_NL]) @
     (if \<not> bit (err_code r) 0 then lit ''Page not present'' @ [CHAR_NL] else []) @
     (if bit (err_code r) 1 then lit ''Page not writable'' @ [CHAR_NL] else []) @
     (if bit (err_code r) 2 then lit ''Page not writable from user-mode'' @ [CHAR_NL] else []) @
     (if bit (err_code r) 3 then lit ''Page reserved bits overwitten'' @ [CHAR_NL] else [])"

lemma error_flags:
  "w AND PF_PRESENT = 0 \<longleftrightarrow> \<not> bit w 0" "w AND PF_RW = 0 \<longleftrightarrow> \<not> bit w 1"
  "w AND PF_USER = 0 \<longleftrightarrow> \<not> bit w 2" "w AND PF_RESERVED = 0 \<longleftrightarrow> \<not> bit w 3"
  using and_exp_eq_0_iff_not_bit [of w 0] and_exp_eq_0_iff_not_bit [of w 1] and_exp_eq_0_iff_not_bit [of w 2] and_exp_eq_0_iff_not_bit [of w 3]
  by (simp_all add: PF_PRESENT_def PF_RW_def PF_USER_def PF_RESERVED_def)

lemma page_fault_report_ok:
  fixes s :: "'a vga_state_scheme"
  assumes ok: "vga_ok s" and room: "room_ok room"
  shows "\<exists>t. page_fault_report room a r s = Inr t \<and> printed (fault_text a r) s t"
proof -
  obtain s1 where 1: "printf room (lit ''HALT - PAGE FAULT'' @ [CHAR_NL, CHAR_NL]) [] s = Inr s1" "printed (lit ''HALT - PAGE FAULT'' @ [CHAR_NL, CHAR_NL]) s s1"
    by (rule printf_items [OF ok room, of "[Text (lit ''HALT - PAGE FAULT'' @ [CHAR_NL, CHAR_NL])]" "lit ''HALT - PAGE FAULT'' @ [CHAR_NL, CHAR_NL]" "[]"])
      (auto simp: lit_def CHAR_NL_def CHAR_PERCENT_def)
  obtain s2 where 2: "printf room (lit ''EIP: 0x%x'' @ [CHAR_NL]) [Int_arg (r_eip r)] s1 = Inr s2" "printed (lit ''EIP: 0x'' @ numeral_of 16 (unat (r_eip r)) @ [CHAR_NL]) s1 s2"
    by (rule printf_hex [OF printed_ok [OF 1(2)] room report_texts(1), of "''EIP: 0x%x''" "r_eip r"]) simp_all
  obtain s3 where 3: "printf room (lit ''Faulting address: 0x%x'' @ [CHAR_NL]) [Int_arg a] s2 = Inr s3" "printed (lit ''Faulting address: 0x'' @ numeral_of 16 (unat a) @ [CHAR_NL]) s2 s3"
    by (rule printf_hex [OF printed_ok [OF 2(2)] room report_texts(2), of "''Faulting address: 0x%x''" a]) simp_all
  obtain s4 where 4: "(if err_code r AND PF_PRESENT = 0 then printf room (lit ''Page not present'' @ [CHAR_NL]) [] s3 else Inr s3) = Inr s4"
      "printed (if err_code r AND PF_PRESENT = 0 then lit ''Page not present'' @ [CHAR_NL] else []) s3 s4"
    by (rule printf_line_if [OF printed_ok [OF 3(2)] room report_texts(3)]) simp_all
  obtain s5 where 5: "(if err_code r AND PF_RW \<noteq> 0 then printf room (lit ''Page not writable'' @ [CHAR_NL]) [] s4 else Inr s4) = Inr s5"
      "printed (if err_code r AND PF_RW \<noteq> 0 then lit ''Page not writable'' @ [CHAR_NL] else []) s4 s5"
    by (rule printf_line_if [OF printed_ok [OF 4(2)] room report_texts(4)]) simp_all
  obtain s6 where 6: "(if err_code r AND PF_USER \<noteq> 0 then printf room (lit ''Page not writable from user-mode'' @ [CHAR_NL]) [] s5 else Inr s5) = Inr s6"
      "printed (if err_code r AND PF_USER \<noteq> 0 then lit ''Page not writable from user-mode'' @ [CHAR_NL] else []) s5 s6"
    by (rule printf_line_if [OF printed_ok [OF 5(2)] room report_texts(5)]) simp_all
  obtain s7 where 7: "(if err_code r AND PF_RESERVED \<noteq> 0 then printf room (lit ''Page reserved bits overwitten'' @ [CHAR_NL]) [] s6 else Inr s6) = Inr s7"
      "printed (if err_code r AND PF_RESERVED \<noteq> 0 then lit ''Page reserved bits overwitten'' @ [CHAR_NL] else []) s6 s7"
    by (rule printf_line_if [OF printed_ok [OF 6(2)] room report_texts(6)]) simp_all
  have "page_fault_report room a r s = Inr s7"
    by (simp only: page_fault_report_def Let_def 1 2 3 4 5 6 7 bindr_simps)
  moreover have "printed (fault_text a r) s s7"
    using printed_append [OF 1(2) printed_append [OF 2(2) printed_append [OF 3(2) printed_append [OF 4(2) printed_append [OF 5(2) printed_append [OF 6(2) 7(2)]]]]]]
    by (simp only: fault_text_def error_flags not_not)
  ultimately show ?thesis
    by blast
qed

section \<open>The lists\<close>

text \<open>The line for an entry of the memory map.\<close>

definition entry_items :: "multiboot_memory_map \<Rightarrow> fmt_item list" where
  "entry_items e = [Text (lit ''[mem] addr: 0x''), Hex64_conv (mm_addr e), Text (lit '' len: 0x''), Hex64_conv (mm_len e),
     Text (lit '' reserved: ''), Uns_conv (mm_type e), Text [CHAR_NL]]"

definition items_text :: "fmt_item list \<Rightarrow> cstring" where
  "items_text items = concat (map item_output items)"

lemma entry_line:
  assumes "vga_ok s" and "room_ok room"
  obtains t where "printf room (lit ''[mem] addr: 0x%lx len: 0x%lx reserved: %u'' @ [CHAR_NL])
      [U64_arg (mm_addr e), U64_arg (mm_len e), Int_arg (mm_type e)] s = Inr t" and "printed (items_text (entry_items e)) s t"
  by (rule printf_items [OF assms, of "entry_items e" "lit ''[mem] addr: 0x%lx len: 0x%lx reserved: %u'' @ [CHAR_NL]"
        "[U64_arg (mm_addr e), U64_arg (mm_len e), Int_arg (mm_type e)]"])
    (use that in \<open>simp_all add: entry_items_def items_text_def lit_def CHAR_NL_def CHAR_PERCENT_def\<close>)

lemma print_mmap_loop_ok:
  assumes "mmap_layout entry_at cur stop es" and "vga_ok s" and "room_ok room"
  shows "\<exists>t. print_mmap_loop room entry_at cur stop s = Some (Inr t) \<and> printed (concat (map (\<lambda>e. items_text (entry_items e)) es)) s t"
  using assms(1,2)
proof (induction es arbitrary: cur s)
  case Nil
  then show ?case
    using printed_nil by (subst print_mmap_loop.simps) auto
next
  case (Cons e es)
  obtain t where t: "printf room (lit ''[mem] addr: 0x%lx len: 0x%lx reserved: %u'' @ [CHAR_NL])
      [U64_arg (mm_addr e), U64_arg (mm_len e), Int_arg (mm_type e)] s = Inr t" "printed (items_text (entry_items e)) s t"
    by (rule entry_line [OF Cons.prems(2) assms(3)])
  obtain u where "print_mmap_loop room entry_at (cur + (mm_size e + 4)) stop t = Some (Inr u)"
      "printed (concat (map (\<lambda>e. items_text (entry_items e)) es)) t u"
    using Cons.IH [of "cur + (mm_size e + 4)" t] Cons.prems(1) printed_ok [OF t(2)] by auto
  then show ?case
    using Cons.prems(1) t printed_append [OF t(2)] by (subst print_mmap_loop.simps) simp
qed

text \<open>The other lines about memory.\<close>

definition memory_items :: "i386_mem_info \<Rightarrow> fmt_item list" where
  "memory_items mi = [Text (lit ''[mem] kernel reserved start: 0x''), Hex_conv (kernel_reserved_start mi), Text (lit '' end: 0x''),
     Hex_conv (kernel_reserved_end mi), Text [CHAR_NL],
     Text (lit ''[mem] mem_lower: ''), Uns_conv (mem_lower mi), Text (lit '', mem_upper: ''), Uns_conv (mem_upper mi),
     Text (lit '', mem_total: ''), Uns_conv (mem_lower mi + mem_upper mi), Text [CHAR_NL]]"

definition reserved_items :: "i386_mem_info \<Rightarrow> fmt_item list" where
  "reserved_items mi = [Text (lit ''[mem] elf reserved start: 0x''), Hex_conv (kernel_reserved_start mi), Text (lit '' end: 0x''),
     Hex_conv (kernel_reserved_end mi), Text [CHAR_NL],
     Text (lit ''[mem] mboot reserved start: 0x''), Hex_conv (multiboot_reserved_start mi), Text (lit '' end: 0x''),
     Hex_conv (multiboot_reserved_end mi), Text [CHAR_NL]]"

lemma items_text_append: "items_text (xs @ ys) = items_text xs @ items_text ys"
  by (simp add: items_text_def)

lemma print_reserved_ok:
  assumes map: "mmap_layout (mmap_entry_at bm) (mmap mi) (mmap mi + mmap_length mi) es" and ok: "vga_ok s" and room: "room_ok room"
  shows "\<exists>t. i386_print_reserved room bm mi s = Inr t \<and>
     printed (items_text (memory_items mi @ concat (map entry_items es) @ reserved_items mi)) s t"
proof -
  obtain s1 where 1: "printf room (lit ''[mem] kernel reserved start: 0x%x end: 0x%x'' @ [CHAR_NL])
      [Int_arg (kernel_reserved_start mi), Int_arg (kernel_reserved_end mi)] s = Inr s1" "printed (items_text (take 5 (memory_items mi))) s s1"
    by (rule printf_items [OF ok room, of "take 5 (memory_items mi)" "lit ''[mem] kernel reserved start: 0x%x end: 0x%x'' @ [CHAR_NL]"
        "[Int_arg (kernel_reserved_start mi), Int_arg (kernel_reserved_end mi)]"])
      (simp_all add: memory_items_def items_text_def lit_def CHAR_NL_def CHAR_PERCENT_def)
  obtain s2 where 2: "printf room (lit ''[mem] mem_lower: %u, mem_upper: %u, mem_total: %u'' @ [CHAR_NL])
      [Int_arg (mem_lower mi), Int_arg (mem_upper mi), Int_arg (mem_lower mi + mem_upper mi)] s1 = Inr s2"
      "printed (items_text (drop 5 (memory_items mi))) s1 s2"
    by (rule printf_items [OF printed_ok [OF 1(2)] room, of "drop 5 (memory_items mi)" "lit ''[mem] mem_lower: %u, mem_upper: %u, mem_total: %u'' @ [CHAR_NL]"
        "[Int_arg (mem_lower mi), Int_arg (mem_upper mi), Int_arg (mem_lower mi + mem_upper mi)]"])
      (simp_all add: memory_items_def items_text_def lit_def CHAR_NL_def CHAR_PERCENT_def)
  obtain s3 where 3: "print_mmap_loop room (mmap_entry_at bm) (mmap mi) (mmap mi + mmap_length mi) s2 = Some (Inr s3)"
      "printed (concat (map (\<lambda>e. items_text (entry_items e)) es)) s2 s3"
    using print_mmap_loop_ok [OF map printed_ok [OF 2(2)] room] by blast
  obtain s4 where 4: "printf room (lit ''[mem] elf reserved start: 0x%x end: 0x%x'' @ [CHAR_NL])
      [Int_arg (kernel_reserved_start mi), Int_arg (kernel_reserved_end mi)] s3 = Inr s4" "printed (items_text (take 5 (reserved_items mi))) s3 s4"
    by (rule printf_items [OF printed_ok [OF 3(2)] room, of "take 5 (reserved_items mi)" "lit ''[mem] elf reserved start: 0x%x end: 0x%x'' @ [CHAR_NL]"
        "[Int_arg (kernel_reserved_start mi), Int_arg (kernel_reserved_end mi)]"])
      (simp_all add: reserved_items_def items_text_def lit_def CHAR_NL_def CHAR_PERCENT_def)
  obtain s5 where 5: "printf room (lit ''[mem] mboot reserved start: 0x%x end: 0x%x'' @ [CHAR_NL])
      [Int_arg (multiboot_reserved_start mi), Int_arg (multiboot_reserved_end mi)] s4 = Inr s5" "printed (items_text (drop 5 (reserved_items mi))) s4 s5"
    by (rule printf_items [OF printed_ok [OF 4(2)] room, of "drop 5 (reserved_items mi)" "lit ''[mem] mboot reserved start: 0x%x end: 0x%x'' @ [CHAR_NL]"
        "[Int_arg (multiboot_reserved_start mi), Int_arg (multiboot_reserved_end mi)]"])
      (simp_all add: reserved_items_def items_text_def lit_def CHAR_NL_def CHAR_PERCENT_def)
  have entries: "concat (map (\<lambda>e. items_text (entry_items e)) es) = items_text (concat (map entry_items es))"
    by (induction es) (simp_all add: items_text_append, simp add: items_text_def)
  have "items_text (memory_items mi @ concat (map entry_items es) @ reserved_items mi) =
      items_text (take 5 (memory_items mi)) @ items_text (drop 5 (memory_items mi)) @ items_text (concat (map entry_items es)) @
      items_text (take 5 (reserved_items mi)) @ items_text (drop 5 (reserved_items mi))"
    by (metis append.assoc append_take_drop_id items_text_append)
  then have "printed (items_text (memory_items mi @ concat (map entry_items es) @ reserved_items mi)) s s5"
    using printed_append [OF 1(2) printed_append [OF 2(2) printed_append [OF 3(2) printed_append [OF 4(2) 5(2)]]]] by (simp only: entries)
  moreover have "i386_print_reserved room bm mi s = Inr s5"
    by (simp only: i386_print_reserved_def 1 2 3 4 5 bindr_simps or_diverge_simps)
  ultimately show ?thesis
    by blast
qed

text \<open>The walk over the blocks of a heap.\<close>

lemma kheap_print_loop_ok:
  assumes "chain blocks cur bl" and "vga_ok s" and "room_ok room"
  shows "\<exists>t. kheap_print_loop room blocks cur i s = Some (Inr t) \<and> vga_ok t \<and> vga_state.more t = vga_state.more s"
  using assms(1,2)
proof (induction bl arbitrary: cur i s)
  case Nil
  then show ?case
    by (subst kheap_print_loop.simps) simp
next
  case (Cons q bl)
  then obtain b where b: "blocks cur = Some b" "cur \<noteq> 0" "chain blocks (kb_next b) bl"
    using chain_ConsD [OF Cons.prems(1)] by blast
  let ?v = "kb_block_size b - sizeof_kheap_block - (bs_length (kb_delimiters b) div 32) * 8"
  let ?items = "[Text (lit ''[kheap] block ''), Uns_conv i, Text (lit '': Size: ''), Uns_conv (kb_block_size b), Text (lit '', Usable: ''), Uns_conv ?v]"
  obtain t where "printk_debug room (concat (map item_format ?items)) (concat (map item_args ?items)) s = Inr t"
      and t: "vga_ok t" "vga_state.more t = vga_state.more s"
    by (rule printk_debug_returns [OF Cons.prems(2) assms(3), of ?items]) (simp_all add: lit_def CHAR_PERCENT_def)
  then have "printk_debug room (lit ''[kheap] block %u: Size: %u, Usable: %u'') [Int_arg i, Int_arg (kb_block_size b), Int_arg ?v] s = Inr t"
    by (simp add: lit_def)
  then show ?case
    using Cons.IH [OF b(3) t(1), of "i + 1"] b(1,2) t(2) by (subst kheap_print_loop.simps) auto
qed

section \<open>Properties\<close>



text \<open>
  The report on memory ends for every memory map that is laid out as the loader promises, and shows each of its entries once, in
  order, between the lines on the kernel and those on the boot information.
\<close>

theorem print_reserved_lists:
  assumes "mmap_layout (mmap_entry_at bm) (mmap mi) (mmap mi + mmap_length mi) es" and "vga_ok s" and "room_ok room"
  shows "\<exists>t. i386_print_reserved room bm mi s = Inr t \<and> vga_ok t \<and>
    vga_screen t = fold (screen_putchar (vga_textmode_color s))
      (items_text (memory_items mi @ concat (map entry_items es) @ reserved_items mi)) (vga_screen s)"
  using print_reserved_ok [OF assms] by (auto simp: printed_def vga_step_def)

theorem print_reserved_lists_witness:
  "\<exists>t. i386_print_reserved (\<lambda>n. n + 16) sample_boot sample_meminfo sample_intr = Inr t \<and> vga_ok t"
proof -
  have "mmap_layout (mmap_entry_at sample_boot) (mmap sample_meminfo) (mmap sample_meminfo + mmap_length sample_meminfo) [sample_entry]"
    by (simp add: sample_boot_def sample_meminfo_def sample_entry_def)
  then show ?thesis
    using print_reserved_lists [OF _ sample_intr_ok(1,5)] by blast
qed

text \<open>The walk over the blocks ends on every well-formed heap, and changes nothing but the screen.\<close>

lemma kheap_print_ends:
  assumes "heap_rel bl H heap blocks" and "vga_ok s" and "room_ok room"
  shows "\<exists>t. kheap_print room blocks heap s = Inr t \<and> vga_ok t \<and> vga_state.more t = vga_state.more s"
  using kheap_print_loop_ok [of blocks "kh_first heap" bl s room 0] assms by (auto simp: kheap_print_def heap_rel_def)

end
