(* ===== verification/Kernel_Terminal.thy ===== *)
theory Kernel_Terminal
  imports Pit
begin

text \<open>
  The kernel's stream buffers, \<^verbatim>\<open>kernel/kernel/kernel_stdio.c\<close>, and the terminal that shows what is
  written to standard output, \<^verbatim>\<open>kernel/kernel/kernel_terminal.c\<close>. A buffer is an array with a length;
  storing past the end of an array is a wild access.
\<close>

section \<open>Stream buffers\<close>

definition STDIN_MAX_BUFFER :: nat where "STDIN_MAX_BUFFER = 256"
definition STDOUT_MAX_BUFFER :: nat where "STDOUT_MAX_BUFFER = 256"

record stdio_state = pit_state +
  kernel_buffer_stdin :: "u8 list"
  kernel_buffer_stdout :: "u8 list"
  kernel_buffer_stdin_length :: u16
  kernel_buffer_stdout_length :: u16

definition kernel_buffer_stdin_flush :: "'a stdio_state_scheme \<Rightarrow> 'a stdio_state_scheme" where
  "kernel_buffer_stdin_flush s = s\<lparr>kernel_buffer_stdin_length := 0\<rparr>"

definition kernel_buffer_stdout_flush :: "'a stdio_state_scheme \<Rightarrow> 'a stdio_state_scheme" where
  "kernel_buffer_stdout_flush s = s\<lparr>kernel_buffer_stdout_length := 0\<rparr>"

definition kernel_buffer_stdin_writechar :: "u8 \<Rightarrow> 'a stdio_state_scheme \<Rightarrow> 'a stdio_state_scheme res" where
  "kernel_buffer_stdin_writechar c s =
     (let s = (if unat (kernel_buffer_stdin_length s) \<ge> STDIN_MAX_BUFFER then kernel_buffer_stdin_flush s else s);
          n = kernel_buffer_stdin_length s
      in if unat n < length (kernel_buffer_stdin s)
         then Inr (s\<lparr>kernel_buffer_stdin := (kernel_buffer_stdin s)[unat n := c], kernel_buffer_stdin_length := n + 1\<rparr>)
         else Inl Wild_access)"

definition kernel_buffer_stdout_writechar :: "u8 \<Rightarrow> 'a stdio_state_scheme \<Rightarrow> 'a stdio_state_scheme res" where
  "kernel_buffer_stdout_writechar c s =
     (let s = (if unat (kernel_buffer_stdout_length s) \<ge> STDOUT_MAX_BUFFER then kernel_buffer_stdout_flush s else s);
          n = kernel_buffer_stdout_length s
      in if unat n < length (kernel_buffer_stdout s)
         then Inr (s\<lparr>kernel_buffer_stdout := (kernel_buffer_stdout s)[unat n := c], kernel_buffer_stdout_length := n + 1\<rparr>)
         else Inl Wild_access)"

definition kernel_buffer_stdout_writestring :: "u8 list \<Rightarrow> size_t \<Rightarrow> 'a stdio_state_scheme \<Rightarrow> 'a stdio_state_scheme res" where
  "kernel_buffer_stdout_writestring str n s =
     for_loop 0 n (\<lambda>i s. if unat i < length str then kernel_buffer_stdout_writechar (str ! unat i) s else Inl Wild_access) s"

text \<open>
  The bytes that \<open>strncpy\<close> copies to the caller's buffer; the length returned is their number.
\<close>

definition kernel_buffer_stdout_get :: "'a stdio_state_scheme \<Rightarrow> (u8 list \<times> 'a stdio_state_scheme) res" where
  "kernel_buffer_stdout_get s =
     (if unat (kernel_buffer_stdout_length s) \<le> length (kernel_buffer_stdout s)
      then Inr (take (unat (kernel_buffer_stdout_length s)) (kernel_buffer_stdout s), kernel_buffer_stdout_flush s)
      else Inl Wild_access)"

section \<open>The terminal\<close>

definition ESCAPECODE_LENGTH :: size_t where "ESCAPECODE_LENGTH = 15"

definition CHAR_BS :: u8 where "CHAR_BS = 8"
definition CHAR_ESC :: u8 where "CHAR_ESC = 27"

definition kernel_terminal_escapecodes :: "u8 list" where
  "kernel_terminal_escapecodes = [CHAR_NL, CHAR_BS, 0, 0, 0, 0, 0, 0, 0, 0, 0, 0, 0, 0, 0]"

record term_state = stdio_state +
  cur_xpos :: size_t
  cur_ypos :: size_t
  term_color :: u8
  is_ansi_escape :: bool
  ansi_escape_length :: u8
  terminal_buffer :: "u16 list"

definition terminal_buffer_get :: "size_t \<Rightarrow> 'a term_state_scheme \<Rightarrow> u16 res" where
  "terminal_buffer_get i s = (if unat i < length (terminal_buffer s) then Inr (terminal_buffer s ! unat i) else Inl Wild_access)"

definition terminal_buffer_put :: "size_t \<Rightarrow> u16 \<Rightarrow> 'a term_state_scheme \<Rightarrow> 'a term_state_scheme res" where
  "terminal_buffer_put i v s =
     (if unat i < length (terminal_buffer s) then Inr (s\<lparr>terminal_buffer := (terminal_buffer s)[unat i := v]\<rparr>) else Inl Wild_access)"

definition kernel_terminal_putentry :: "u8 \<Rightarrow> u8 \<Rightarrow> size_t \<Rightarrow> size_t \<Rightarrow> 'a term_state_scheme \<Rightarrow> 'a term_state_scheme res" where
  "kernel_terminal_putentry c color x y s =
     bindr (vga_textmode_putentryat c color x y s) (terminal_buffer_put (y * VGA_WIDTH + x) (make_vgaentry c color))"

text \<open>Both branches of \<open>kernel_terminal_update_cursor\<close> do the same.\<close>

definition kernel_terminal_update_cursor :: "'a term_state_scheme \<Rightarrow> 'a term_state_scheme res" where
  "kernel_terminal_update_cursor s =
     (if cur_xpos s = 0
      then kernel_terminal_putentry 95 (term_color s) (cur_xpos s) (cur_ypos s) s
      else kernel_terminal_putentry 95 (term_color s) (cur_xpos s) (cur_ypos s) s)"

definition kernel_terminal_handle_scroll :: "'a term_state_scheme \<Rightarrow> 'a term_state_scheme res" where
  "kernel_terminal_handle_scroll s =
     (if cur_ypos s = VGA_HEIGHT then
        bindr (for_loop 0 VGA_HEIGHT (\<lambda>y. for_loop 0 VGA_WIDTH (\<lambda>x s.
                 let index = y * VGA_WIDTH + x; nextrow_index = index + VGA_WIDTH
                 in if y = VGA_HEIGHT - 1 then kernel_terminal_putentry CHAR_SPACE (term_color s) x y s
                    else bindr (terminal_buffer_get nextrow_index s) (\<lambda>v. terminal_buffer_put index v s))) s)
          (\<lambda>s. Inr (s\<lparr>cur_ypos := cur_ypos s - 1\<rparr>))
      else Inr s)"

definition kernel_terminal_check_escapecode :: "u8 \<Rightarrow> 'a term_state_scheme \<Rightarrow> bool \<times> 'a term_state_scheme" where
  "kernel_terminal_check_escapecode c s =
     (if list_ex (\<lambda>i. c = kernel_terminal_escapecodes ! i) [0..<unat ESCAPECODE_LENGTH] then (True, s)
      else if c = CHAR_ESC then (True, s\<lparr>is_ansi_escape := True, ansi_escape_length := 1\<rparr>)
      else (False, s))"

definition kernel_terminal_backspace :: "'a term_state_scheme \<Rightarrow> 'a term_state_scheme res" where
  "kernel_terminal_backspace s =
     bindr (kernel_terminal_putentry CHAR_SPACE (term_color s) (cur_xpos s) (cur_ypos s) s) (\<lambda>s.
     if cur_xpos s = 0 \<and> cur_ypos s = 0 then kernel_terminal_putentry CHAR_SPACE (term_color s) 0 0 s
     else if cur_xpos s = 0 then Inr s
     else bindr (kernel_terminal_putentry CHAR_SPACE (term_color s) (cur_xpos s) (cur_ypos s) s) (\<lambda>s.
          Inr (s\<lparr>cur_xpos := cur_xpos s - 1\<rparr>)))"

text \<open>The label \<open>ansi_fail\<close>, which is also where the \<open>switch\<close> of a valid sequence ends.\<close>

definition ansi_fail :: "'a term_state_scheme \<Rightarrow> 'a term_state_scheme" where
  "ansi_fail s = s\<lparr>is_ansi_escape := False, ansi_escape_length := 0\<rparr>"

definition kernel_terminal_handle_escapecode :: "u8 \<Rightarrow> 'a term_state_scheme \<Rightarrow> 'a term_state_scheme res" where
  "kernel_terminal_handle_escapecode c s =
     (if c = CHAR_NL then
        bindr (kernel_terminal_putentry CHAR_SPACE (term_color s) (cur_xpos s) (cur_ypos s) s) (\<lambda>s.
        kernel_terminal_update_cursor (s\<lparr>cur_ypos := cur_ypos s + 1, cur_xpos := 0\<rparr>))
      else if c = CHAR_BS then kernel_terminal_backspace s
      else if is_ansi_escape s then
        if ansi_escape_length s = 1 then
          if c \<noteq> CHAR_ESC then Inr (ansi_fail s) else Inr (s\<lparr>ansi_escape_length := ansi_escape_length s + 1\<rparr>)
        else if ansi_escape_length s = 2 then
          if c \<noteq> 91 then Inr (ansi_fail s) else Inr (ansi_fail (s\<lparr>ansi_escape_length := ansi_escape_length s + 1\<rparr>))
        else Inr (ansi_fail s)
      else Inr (ansi_fail s))"

definition kernel_terminal_handle_overflow :: "'a term_state_scheme \<Rightarrow> 'a term_state_scheme" where
  "kernel_terminal_handle_overflow s =
     (if cur_xpos s \<ge> VGA_WIDTH then s\<lparr>cur_xpos := 0, cur_ypos := cur_ypos s + 1\<rparr> else s)"

text \<open>The body of the loop over the bytes written.\<close>

definition terminal_char :: "u8 \<Rightarrow> 'a term_state_scheme \<Rightarrow> 'a term_state_scheme res" where
  "terminal_char cur_char s =
     (let (esc, s) = kernel_terminal_check_escapecode cur_char s
      in if esc \<or> is_ansi_escape s then
           bindr (kernel_terminal_handle_escapecode cur_char s) (\<lambda>s.
           bindr (kernel_terminal_handle_scroll s) kernel_terminal_update_cursor)
         else
           bindr (kernel_terminal_handle_scroll (kernel_terminal_handle_overflow s)) (\<lambda>s.
           bindr (kernel_terminal_putentry cur_char (term_color s) (cur_xpos s) (cur_ypos s) (s\<lparr>cur_xpos := cur_xpos s + 1\<rparr>))
             kernel_terminal_update_cursor))"

definition kernel_terminal_update_tick :: "'a term_state_scheme \<Rightarrow> 'a term_state_scheme res" where
  "kernel_terminal_update_tick s =
     bindr (kernel_buffer_stdout_get s) (\<lambda>(stdout_buffer, s).
     if length stdout_buffer \<noteq> 0 then
       bindr (vga_textmode_clear s) (\<lambda>s.
       bindr (for_loop 0 (of_nat (length stdout_buffer)) (\<lambda>i. terminal_char (stdout_buffer ! unat i)) s) (\<lambda>s.
       vga_textmode_writebuffer (terminal_buffer s) (ucast (VGA_WIDTH * VGA_HEIGHT)) s))
     else Inr s)"

text \<open>\<open>tick\<close> is the address of \<open>kernel_terminal_update_tick\<close>.\<close>

definition kernel_terminal_init :: "code_ptr \<Rightarrow> u16 \<Rightarrow> 'a term_state_scheme \<Rightarrow> 'a term_state_scheme res" where
  "kernel_terminal_init tick refresh_rate s =
     bindr (vga_textmode_initialize s) (\<lambda>s.
     bindr (for_loop 0 VGA_HEIGHT (\<lambda>y. for_loop 0 VGA_WIDTH (\<lambda>x s.
              let index = y * VGA_WIDTH + x
              in terminal_buffer_put index (make_vgaentry CHAR_SPACE (term_color s)) s))
              (s\<lparr>term_color := make_color COLOR_LIGHT_GREY COLOR_BLACK\<rparr>)) (\<lambda>s.
     bindr (udiv 10000 (ucast refresh_rate)) (\<lambda>hz.
     bindr (pit_install_scheduler_routine \<lparr>hz = hz, func = tick\<rparr> s) (\<lambda>(_, s).
     kernel_terminal_update_tick s))))"


section \<open>Buffered output\<close>

definition stdout_ok :: "'a stdio_state_scheme \<Rightarrow> bool" where
  "stdout_ok s \<longleftrightarrow> length (kernel_buffer_stdout s) = 256 \<and> unat (kernel_buffer_stdout_length s) \<le> 256"

definition stdout_content :: "'a stdio_state_scheme \<Rightarrow> u8 list" where
  "stdout_content s = take (unat (kernel_buffer_stdout_length s)) (kernel_buffer_stdout s)"

text \<open>A byte is appended, unless the buffer is full: then everything in it is thrown away first.\<close>

lemma stdout_writechar_ok:
  assumes "stdout_ok s"
  shows "\<exists>t. kernel_buffer_stdout_writechar c s = Inr t \<and> stdout_ok t \<and>
    stdout_content t = (if length (stdout_content s) < 256 then stdout_content s @ [c] else [c])"
proof (cases "unat (kernel_buffer_stdout_length s) < 256")
  case True
  then have "unat (kernel_buffer_stdout_length s + 1) = Suc (unat (kernel_buffer_stdout_length s))"
    by (simp add: unat_word_ariths)
  then show ?thesis
    using True assms by (auto simp: kernel_buffer_stdout_writechar_def stdout_ok_def stdout_content_def STDOUT_MAX_BUFFER_def Let_def take_Suc_conv_app_nth)
next
  case False
  then show ?thesis
    using assms by (auto simp: kernel_buffer_stdout_writechar_def kernel_buffer_stdout_flush_def stdout_ok_def stdout_content_def STDOUT_MAX_BUFFER_def
        Let_def take_Suc_conv_app_nth)
qed

lemma stdout_fold_ok:
  assumes "stdout_ok s" and "length (stdout_content s) + length str \<le> 256"
  shows "\<exists>t. fold_res kernel_buffer_stdout_writechar str s = Inr t \<and> stdout_ok t \<and> stdout_content t = stdout_content s @ str"
  using assms
proof (induction str arbitrary: s)
  case (Cons c str)
  obtain u where u: "kernel_buffer_stdout_writechar c s = Inr u" "stdout_ok u" "stdout_content u = stdout_content s @ [c]"
    using stdout_writechar_ok [OF Cons.prems(1), of c] Cons.prems(2) by auto
  then show ?case
    using Cons.IH [OF u(2)] Cons.prems(2) by auto
qed auto

lemma stdout_writestring_fold:
  assumes "length str < 4294967296"
  shows "kernel_buffer_stdout_writestring str (of_nat (length str)) s = fold_res kernel_buffer_stdout_writechar str s"
proof -
  have "kernel_buffer_stdout_writestring str (of_nat (length str)) s = for_loop 0 (of_nat (length str)) (\<lambda>i. kernel_buffer_stdout_writechar (str ! unat i)) s"
    unfolding kernel_buffer_stdout_writestring_def
    by (rule for_loop_cong) (use assms in \<open>simp add: word_less_nat_alt unat_of_nat_u32\<close>)
  then show ?thesis
    using for_loop_list [OF assms] by simp
qed

section \<open>Characters on the terminal\<close>

definition term_ok :: "'a term_state_scheme \<Rightarrow> bool" where
  "term_ok s \<longleftrightarrow> vga_ready s \<and> length (terminal_buffer s) = 2000 \<and> unat (cur_xpos s) \<le> 80 \<and> unat (cur_ypos s) \<le> 24"

lemma unat_term_index:
  assumes "unat y \<le> 25" and "unat x \<le> 80"
  shows "unat (y * VGA_WIDTH + x) = 80 * unat y + unat x"
  using assms unat_mult_no_wrap [of y VGA_WIDTH] unat_add_no_wrap [of "y * VGA_WIDTH" x] by (simp add: VGA_WIDTH_def)

lemma putentry_ok:
  assumes "vga_ready s" and "length (terminal_buffer s) = 2000" and "unat y \<le> 25" and "unat x \<le> 80" and "80 * unat y + unat x < 2000"
  obtains v b where "kernel_terminal_putentry c color x y s = Inr (s\<lparr>vram := v, terminal_buffer := b\<rparr>)" and "length b = 2000"
proof -
  note i = unat_term_index [OF assms(3,4)]
  obtain v where v: "vga_put (y * VGA_WIDTH + x) (make_vgaentry c color) s = Inr (s\<lparr>vram := v\<rparr>)"
    using vga_put_ok [OF assms(1), of "y * VGA_WIDTH + x"] i assms(5) by auto
  then show thesis
    using that i assms(2,5) by (simp add: kernel_terminal_putentry_def vga_textmode_putentryat_def terminal_buffer_put_def)
qed

lemma putentry_overruns:
  assumes "vga_ready s" and "length (terminal_buffer s) = 2000" and "unat y \<le> 25" and "unat x \<le> 80" and "2000 \<le> 80 * unat y + unat x"
  shows "kernel_terminal_putentry c color x y s = Inl Wild_access"
proof -
  note i = unat_term_index [OF assms(3,4)]
  obtain v where v: "vga_put (y * VGA_WIDTH + x) (make_vgaentry c color) s = Inr (s\<lparr>vram := v\<rparr>)"
    using vga_put_ok [OF assms(1), of "y * VGA_WIDTH + x"] i assms(3,4) by auto
  then show ?thesis
    using i assms(2,5) by (simp add: kernel_terminal_putentry_def vga_textmode_putentryat_def terminal_buffer_put_def)
qed

text \<open>The cursor is on a cell of the buffer.\<close>

definition at_cell :: "'a term_state_scheme \<Rightarrow> bool" where
  "at_cell s \<longleftrightarrow> term_ok s \<and> 80 * unat (cur_ypos s) + unat (cur_xpos s) < 2000"

lemma at_cell_escape [simp]: "at_cell (ansi_fail s) = at_cell s" "at_cell (s\<lparr>ansi_escape_length := n\<rparr>) = at_cell s"
  by (simp_all add: at_cell_def term_ok_def vga_ready_def ansi_fail_def)

lemma cell_putentry:
  assumes "at_cell s"
  obtains v b where "kernel_terminal_putentry c color (cur_xpos s) (cur_ypos s) s = Inr (s\<lparr>vram := v, terminal_buffer := b\<rparr>)" and "length b = 2000"
  by (rule putentry_ok [of s "cur_ypos s" "cur_xpos s" c color]) (use assms in \<open>auto simp: at_cell_def term_ok_def\<close>)

lemma cell_cursor:
  assumes "at_cell s"
  obtains t where "kernel_terminal_update_cursor s = Inr t" and "term_ok t" and "cur_xpos t = cur_xpos s" and "cur_ypos t = cur_ypos s"
proof (rule cell_putentry [OF assms, of 95 "term_color s"])
  fix v b
  assume "kernel_terminal_putentry 95 (term_color s) (cur_xpos s) (cur_ypos s) s = Inr (s\<lparr>vram := v, terminal_buffer := b\<rparr>)" "length b = 2000"
  then show thesis
    using assms by (intro that [of "s\<lparr>vram := v, terminal_buffer := b\<rparr>"])
      (simp_all add: kernel_terminal_update_cursor_def at_cell_def term_ok_def vga_ready_def)
qed

lemma no_scroll: "unat (cur_ypos s) \<le> 24 \<Longrightarrow> kernel_terminal_handle_scroll s = Inr s"
  by (auto simp: kernel_terminal_handle_scroll_def VGA_HEIGHT_def)

text \<open>An escape code above the last line.\<close>

lemma backspace_ok:
  assumes cell: "at_cell s"
  obtains t where "kernel_terminal_backspace s = Inr t" and "at_cell t"
proof -
  obtain v b where p: "kernel_terminal_putentry CHAR_SPACE (term_color s) (cur_xpos s) (cur_ypos s) s = Inr (s\<lparr>vram := v, terminal_buffer := b\<rparr>)" "length b = 2000"
    by (rule cell_putentry [OF cell])
  let ?s = "s\<lparr>vram := v, terminal_buffer := b\<rparr>"
  have s: "at_cell ?s"
    using cell p(2) by (simp add: at_cell_def term_ok_def vga_ready_def)
  obtain w d where q: "kernel_terminal_putentry CHAR_SPACE (term_color s) (cur_xpos s) (cur_ypos s) ?s = Inr (?s\<lparr>vram := w, terminal_buffer := d\<rparr>)" "length d = 2000"
    by (rule cell_putentry [OF s, of CHAR_SPACE "term_color s"]) (simp add: that)
  show thesis
  proof (cases "cur_xpos s = 0")
    case True
    then have "kernel_terminal_backspace s = Inr (if cur_ypos s = 0 then ?s\<lparr>vram := w, terminal_buffer := d\<rparr> else ?s)"
      using p(1) q(1) by (cases "cur_ypos s = 0") (simp_all add: kernel_terminal_backspace_def)
    then show thesis
      using s q(2) that [of "if cur_ypos s = 0 then ?s\<lparr>vram := w, terminal_buffer := d\<rparr> else ?s"]
      by (simp add: at_cell_def term_ok_def vga_ready_def)
  next
    case False
    then have "unat (cur_xpos s - 1) = unat (cur_xpos s) - 1"
      by (simp add: unat_minus_one)
    then show thesis
      using p(1) q s False
      by (intro that [of "?s\<lparr>vram := w, terminal_buffer := d, cur_xpos := cur_xpos s - 1\<rparr>"])
        (auto simp: kernel_terminal_backspace_def at_cell_def term_ok_def vga_ready_def)
  qed
qed

lemma escapecode_ok:
  assumes "term_ok s" and "unat (cur_ypos s) < 24"
  obtains t where "kernel_terminal_handle_escapecode c s = Inr t" and "at_cell t"
proof -
  have cell: "at_cell s"
    using assms by (simp add: at_cell_def term_ok_def)
  obtain v b where p: "kernel_terminal_putentry CHAR_SPACE (term_color s) (cur_xpos s) (cur_ypos s) s = Inr (s\<lparr>vram := v, terminal_buffer := b\<rparr>)" "length b = 2000"
    by (rule cell_putentry [OF cell])
  consider (newline) "c = CHAR_NL" | (backspace) "c \<noteq> CHAR_NL" "c = CHAR_BS" | (other) "c \<noteq> CHAR_NL" "c \<noteq> CHAR_BS"
    by blast
  then show thesis
  proof cases
    case newline
    let ?u = "s\<lparr>vram := v, terminal_buffer := b, cur_ypos := cur_ypos s + 1, cur_xpos := 0\<rparr>"
    have "unat (cur_ypos s + 1) = Suc (unat (cur_ypos s))"
      using assms(2) unat_add_no_wrap [of "cur_ypos s" 1] by simp
    then have u: "at_cell ?u"
      using assms p(2) by (simp add: at_cell_def term_ok_def vga_ready_def)
    obtain t where "kernel_terminal_update_cursor ?u = Inr t" "term_ok t" "cur_xpos t = 0" "cur_ypos t = cur_ypos ?u"
      by (rule cell_cursor [OF u]) simp
    then show thesis
      using that [of t] newline p(1) u by (simp add: kernel_terminal_handle_escapecode_def at_cell_def)
  next
    case backspace
    obtain t where "kernel_terminal_backspace s = Inr t" "at_cell t"
      by (rule backspace_ok [OF cell])
    then show thesis
      using that backspace by (simp add: kernel_terminal_handle_escapecode_def)
  next
    case other
    then have "\<exists>t. kernel_terminal_handle_escapecode c s = Inr t \<and> at_cell t"
      using cell by (simp add: kernel_terminal_handle_escapecode_def)
    then show thesis
      using that by blast
  qed
qed

lemma term_ok_escape [simp]:
  "term_ok (s\<lparr>is_ansi_escape := e, ansi_escape_length := n\<rparr>) = term_ok s"
  by (simp add: term_ok_def vga_ready_def)

lemma check_escapecode_state:
  "snd (kernel_terminal_check_escapecode c s) = s \<or>
   snd (kernel_terminal_check_escapecode c s) = s\<lparr>is_ansi_escape := True, ansi_escape_length := 1\<rparr>"
  by (simp add: kernel_terminal_check_escapecode_def)

lemma terminal_char_ok:
  assumes "term_ok s" and "unat (cur_ypos s) < 24"
  shows "\<exists>t. terminal_char c s = Inr t \<and> term_ok t"
proof -
  define u where "u = snd (kernel_terminal_check_escapecode c s)"
  have u: "term_ok u" "unat (cur_ypos u) < 24"
    using check_escapecode_state [of c s] assms by (auto simp: u_def)
  obtain t where t: "kernel_terminal_handle_escapecode c u = Inr t" "at_cell t"
    by (rule escapecode_ok [OF u])
  obtain t' where t': "kernel_terminal_update_cursor t = Inr t'" "term_ok t'"
    by (rule cell_cursor [OF t(2)])
  define w where "w = kernel_terminal_handle_overflow u"
  have w: "vga_ready w" "length (terminal_buffer w) = 2000" "unat (cur_xpos w) < 80" "unat (cur_ypos w) \<le> 24" "unat (cur_ypos w) = 24 \<longrightarrow> cur_xpos w = 0"
    using u unat_add_no_wrap [of "cur_ypos u" 1]
    by (auto simp: w_def kernel_terminal_handle_overflow_def term_ok_def vga_ready_def VGA_WIDTH_def word_le_nat_alt not_le)
  let ?w = "w\<lparr>cur_xpos := cur_xpos w + 1\<rparr>"
  obtain v b where p: "kernel_terminal_putentry c (term_color w) (cur_xpos w) (cur_ypos w) ?w = Inr (?w\<lparr>vram := v, terminal_buffer := b\<rparr>)" "length b = 2000"
    by (rule putentry_ok [of ?w "cur_ypos w" "cur_xpos w" c "term_color w"]) (use w in \<open>auto simp: vga_ready_def\<close>)
  have x: "unat (cur_xpos w + 1) = Suc (unat (cur_xpos w))"
    using w(3) unat_add_no_wrap [of "cur_xpos w" 1] by simp
  have "at_cell (?w\<lparr>vram := v, terminal_buffer := b\<rparr>)"
    using w p(2) x by (cases "unat (cur_ypos w) = 24") (auto simp: at_cell_def term_ok_def vga_ready_def)
  then obtain t2 where t2: "kernel_terminal_update_cursor (?w\<lparr>vram := v, terminal_buffer := b\<rparr>) = Inr t2" "term_ok t2"
    using cell_cursor by blast
  have "kernel_terminal_handle_scroll t = Inr t" "kernel_terminal_handle_scroll w = Inr w"
    using t(2) w(4) by (auto simp: at_cell_def term_ok_def intro: no_scroll)
  then show ?thesis
    using t t' p(1) t2 by (cases "fst (kernel_terminal_check_escapecode c s) \<or> is_ansi_escape u")
      (simp_all add: terminal_char_def split_beta u_def [symmetric] w_def [symmetric])
qed

section \<open>Properties\<close>

text \<open>A terminal that has just been initialised.\<close>

definition sample_term :: "size_t \<Rightarrow> term_state" where
  "sample_term y = stdio_state.extend
     (pit_state.extend sample_pit (stdio_state.fields (replicate 256 0) (replicate 256 0) 0 0))
     (term_state.fields 0 y 7 False 0 (replicate 2000 0x0720))"

lemma sample_term_simps: "term_ok (sample_term 3)" "term_ok (sample_term 24)" "cur_ypos (sample_term y) = y"
  "stdout_ok (sample_term y)" "stdout_content (sample_term y) = []"
  by (simp_all add: sample_term_def stdio_state.defs term_state.defs pit_state.defs term_ok_def vga_ready_def sample_pit_def
      intr_state.defs sample_intr_def vga_state.defs sample_vga_def stdout_ok_def stdout_content_def)

text \<open>
  C35: What is written to standard output while the buffer has room comes back in order from
  \<open>kernel_buffer_stdout_get\<close>, after what was there before, and leaves the buffer empty.
\<close>

theorem stdout_write_get:
  assumes "stdout_ok s" and "length (stdout_content s) + length str \<le> 256"
  shows "\<exists>t u. kernel_buffer_stdout_writestring str (of_nat (length str)) s = Inr t \<and>
    kernel_buffer_stdout_get t = Inr (stdout_content s @ str, u) \<and> stdout_ok u \<and> stdout_content u = []"
proof -
  obtain t where t: "fold_res kernel_buffer_stdout_writechar str s = Inr t" "stdout_ok t" "stdout_content t = stdout_content s @ str"
    using stdout_fold_ok [OF assms] by blast
  have "kernel_buffer_stdout_get t = Inr (stdout_content t, kernel_buffer_stdout_flush t)"
    using t(2) by (simp add: kernel_buffer_stdout_get_def stdout_ok_def stdout_content_def)
  moreover have "stdout_ok (kernel_buffer_stdout_flush t)" "stdout_content (kernel_buffer_stdout_flush t) = []"
    using t(2) by (simp_all add: kernel_buffer_stdout_flush_def stdout_ok_def stdout_content_def)
  ultimately show ?thesis
    using stdout_writestring_fold [of str s] t assms(2) by auto
qed

theorem stdout_write_get_witness:
  "\<exists>t u. kernel_buffer_stdout_writestring [104, 105] 2 (sample_term 3) = Inr t \<and>
     kernel_buffer_stdout_get t = Inr ([104, 105], u)"
  using stdout_write_get [of "sample_term 3" "[104, 105]"] sample_term_simps by auto

text \<open>
  C32: Above the last line the terminal takes any byte, text or escape code, without leaving its buffer;
  but a line feed on the last line stores the cursor past the end of the buffer, before the
  terminal scrolls.
\<close>

theorem terminal_char_bounds:
  assumes "term_ok s"
  shows "(unat (cur_ypos s) < 24 \<longrightarrow> (\<exists>t. terminal_char c s = Inr t \<and> term_ok t)) \<and>
    (unat (cur_ypos s) = 24 \<and> unat (cur_xpos s) < 80 \<longrightarrow> terminal_char CHAR_NL s = Inl Wild_access)"
proof (intro conjI impI)
  show "\<exists>t. terminal_char c s = Inr t \<and> term_ok t" if "unat (cur_ypos s) < 24"
    using terminal_char_ok [OF assms that] .
next
  assume y: "unat (cur_ypos s) = 24 \<and> unat (cur_xpos s) < 80"
  have e: "kernel_terminal_check_escapecode CHAR_NL s = (True, s)"
    by (simp add: kernel_terminal_check_escapecode_def kernel_terminal_escapecodes_def ESCAPECODE_LENGTH_def upt_rec)
  have "at_cell s"
    using assms y by (simp add: at_cell_def)
  then obtain v b where p: "kernel_terminal_putentry CHAR_SPACE (term_color s) (cur_xpos s) (cur_ypos s) s = Inr (s\<lparr>vram := v, terminal_buffer := b\<rparr>)" "length b = 2000"
    by (rule cell_putentry)
  let ?u = "s\<lparr>vram := v, terminal_buffer := b, cur_ypos := cur_ypos s + 1, cur_xpos := 0\<rparr>"
  have "unat (cur_ypos s + 1) = 25"
    using y unat_add_no_wrap [of "cur_ypos s" 1] by simp
  then have "kernel_terminal_putentry 95 (term_color s) 0 (cur_ypos s + 1) ?u = Inl Wild_access"
    using putentry_overruns [of ?u "cur_ypos s + 1" 0 95 "term_color s"] assms p(2) by (simp add: term_ok_def vga_ready_def)
  then have "kernel_terminal_handle_escapecode CHAR_NL s = Inl Wild_access"
    using p(1) by (simp add: kernel_terminal_handle_escapecode_def kernel_terminal_update_cursor_def)
  then show "terminal_char CHAR_NL s = Inl Wild_access"
    by (simp add: terminal_char_def e)
qed

theorem terminal_char_bounds_witness:
  "(\<exists>t. terminal_char 65 (sample_term 3) = Inr t \<and> term_ok t) \<and> terminal_char CHAR_NL (sample_term 24) = Inl Wild_access"
proof -
  have "cur_xpos (sample_term 24) = 0"
    by (simp add: sample_term_def stdio_state.defs term_state.defs pit_state.defs)
  then show ?thesis
    using terminal_char_bounds [of "sample_term 3" 65] terminal_char_bounds [of "sample_term 24" 65] sample_term_simps by simp
qed

end
