(* ===== verification/Ordered_Array.thy ===== *)
theory Ordered_Array
  imports Prelude
begin

text \<open>
  The ordered array of \<^verbatim>\<open>kernel/kernel/ordered_array.c\<close>. The memory the array is placed at is a list of
  pointer-sized cells; an access past its end is a wild access. Nothing in the kernel uses the array.
\<close>

type_synonym comparator_t = "u32 \<Rightarrow> u32 \<Rightarrow> 32 word"

record ordered_array =
  arr :: "u32 list"
  arr_size :: u32
  max_size :: u32
  comparator :: comparator_t

definition comparator_default :: comparator_t where
  "comparator_default a b = a - b"

text \<open>
  \<open>cells\<close> is the memory at the address given, \<open>junk\<close> what the field \<open>size\<close> happens to hold, which
  \<open>ordered_array_create\<close> does not set. The byte count given to \<open>memset\<close> wraps.
\<close>

definition ordered_array_create :: "u32 list \<Rightarrow> u32 \<Rightarrow> u32 \<Rightarrow> comparator_t option \<Rightarrow> ordered_array res" where
  "ordered_array_create cells junk maxsz cmp =
     (let k = unat (maxsz * 4) div 4
      in if k \<le> length cells
         then Inr \<lparr>arr = replicate k 0 @ drop k cells, arr_size = junk, max_size = maxsz,
                   comparator = (case cmp of None \<Rightarrow> comparator_default | Some c \<Rightarrow> c)\<rparr>
         else Inl Wild_access)"

definition cell_get :: "u32 list \<Rightarrow> u32 \<Rightarrow> u32 res" where
  "cell_get xs i = (if unat i < length xs then Inr (xs ! unat i) else Inl Wild_access)"

definition cell_set :: "u32 list \<Rightarrow> u32 \<Rightarrow> u32 \<Rightarrow> u32 list res" where
  "cell_set xs i v = (if unat i < length xs then Inr (xs[unat i := v]) else Inl Wild_access)"

text \<open>The index of the first element that does not compare less than the object, or the size.\<close>

definition insert_index :: "ordered_array \<Rightarrow> u32 \<Rightarrow> u32 res" where
  "insert_index a obj =
     bindr (for_ret 0 (arr_size a) (\<lambda>i _. bindr (cell_get (arr a) i) (\<lambda>x.
              if 0 \<le>s comparator a x obj then Inr (Ret i) else Inr (Next ()))) ())
       (\<lambda>c. case c of Ret i \<Rightarrow> Inr i | Next _ \<Rightarrow> Inr (arr_size a))"

text \<open>\<^verbatim>\<open>for (j = size - 1; j <= i; j--) array[j+1] = array[j];\<close>\<close>

partial_function (option) shift_loop :: "u32 \<Rightarrow> u32 \<Rightarrow> u32 list \<Rightarrow> u32 list res option" where
  "shift_loop j i xs =
     (if j \<le> i
      then (case bindr (cell_get xs j) (cell_set xs (j + 1)) of
              Inl e \<Rightarrow> Some (Inl e)
            | Inr xs \<Rightarrow> shift_loop (j - 1) i xs)
      else Some (Inr xs))"

definition ordered_array_insert :: "ordered_array \<Rightarrow> u32 \<Rightarrow> (bool \<times> ordered_array) res" where
  "ordered_array_insert a obj =
     (if arr_size a \<ge> max_size a then Inr (False, a)
      else bindr (insert_index a obj) (\<lambda>i.
           if i \<noteq> arr_size a then
             bindr (or_diverge (shift_loop (arr_size a - 1) i (arr a))) (\<lambda>xs.
             bindr (cell_set xs i obj) (\<lambda>xs.
             Inr (True, a\<lparr>arr := xs, arr_size := arr_size a + 1\<rparr>)))
           else
             bindr (cell_set (arr a) (arr_size a) obj) (\<lambda>xs.
             Inr (True, a\<lparr>arr := xs, arr_size := arr_size a + 1\<rparr>))))"

text \<open>NULL is 0.\<close>

definition ordered_array_get :: "ordered_array \<Rightarrow> u32 \<Rightarrow> u32 res" where
  "ordered_array_get a index = (if index > arr_size a then Inr 0 else cell_get (arr a) index)"

definition ordered_array_remove :: "ordered_array \<Rightarrow> u32 \<Rightarrow> (bool \<times> ordered_array) res" where
  "ordered_array_remove a index =
     (if index > arr_size a then Inr (False, a)
      else bindr (for_loop index (arr_size a) (\<lambda>k xs. bindr (cell_get xs (k + 1)) (cell_set xs k)) (arr a)) (\<lambda>xs.
           Inr (True, a\<lparr>arr := xs, arr_size := arr_size a - 1\<rparr>)))"

section \<open>The elements\<close>

definition elements :: "ordered_array \<Rightarrow> u32 list" where
  "elements a = take (unat (arr_size a)) (arr a)"

definition array_ok :: "ordered_array \<Rightarrow> bool" where
  "array_ok a \<longleftrightarrow> arr_size a \<le> max_size a \<and> length (arr a) = unat (max_size a)"

text \<open>Removing shifts the cells above the index down by one.\<close>

lemma remove_loop:
  assumes "unat i \<le> unat n" and "unat n < length xs"
  shows "for_loop i n (\<lambda>k xs. bindr (cell_get xs (k + 1)) (cell_set xs k)) xs =
    Inr (take (unat i) xs @ drop (Suc (unat i)) (take (Suc (unat n)) xs) @ drop (unat n) xs)"
  using assms
proof (induction i n "\<lambda>k xs. bindr (cell_get xs (k + 1)) (cell_set xs k)" xs rule: for_loop.induct)
  case (1 i n xs)
  show ?case
  proof (cases "i < n")
    case True
    then have i: "unat i < unat n" "unat (i + 1) = Suc (unat i)"
      using unat_suc_less [OF True] by (simp_all add: word_less_nat_alt)
    let ?xs = "xs[unat i := xs ! Suc (unat i)]"
    have step: "bindr (cell_get xs (i + 1)) (cell_set xs i) = Inr ?xs"
      using i 1(3) by (simp add: cell_get_def cell_set_def)
    have "for_loop (i + 1) n (\<lambda>k xs. bindr (cell_get xs (k + 1)) (cell_set xs k)) ?xs =
        Inr (take (Suc (unat i)) ?xs @ drop (Suc (Suc (unat i))) (take (Suc (unat n)) ?xs) @ drop (unat n) ?xs)"
      using 1(1) [OF True, of ?xs] i 1(3) by simp
    moreover have "take (Suc (unat i)) ?xs = take (unat i) xs @ [xs ! Suc (unat i)]"
      using i 1(3) by (simp add: take_Suc_conv_app_nth)
    moreover have "drop (Suc (unat i)) (take (Suc (unat n)) xs) = xs ! Suc (unat i) # drop (Suc (Suc (unat i))) (take (Suc (unat n)) xs)"
      using i 1(3) by (simp add: Cons_nth_drop_Suc [symmetric])
    ultimately show ?thesis
      using True i step 1(3) by (simp add: for_loop_step take_update_swap drop_update_swap)
  next
    case False
    then have "unat i = unat n"
      using 1(2) by (simp add: word_less_nat_alt)
    then show ?thesis
      using False 1(3) by simp
  qed
qed

text \<open>An index that is found is below the size, or is the size.\<close>

lemma insert_index_ok:
  assumes "array_ok a"
  obtains i where "insert_index a obj = Inr i" and "i \<le> arr_size a"
    and "\<forall>k<unat i. \<not> 0 \<le>s comparator a (arr a ! k) obj"
    and "i \<noteq> arr_size a \<longrightarrow> 0 \<le>s comparator a (arr a ! unat i) obj"
proof -
  let ?body = "\<lambda>i _. bindr (cell_get (arr a) i) (\<lambda>x. if 0 \<le>s comparator a x obj then Inr (Ret i) else Inr (Next ()))"
  let ?I = "\<lambda>i (_ :: unit). \<forall>k<unat i. \<not> 0 \<le>s comparator a (arr a ! k) obj"
  let ?Q = "\<lambda>i. i < arr_size a \<and> ?I i () \<and> 0 \<le>s comparator a (arr a ! unat i) obj"
  have "(\<exists>s'. for_ret 0 (arr_size a) ?body () = Inr (Next s') \<and> ?I (arr_size a) s') \<or>
      (\<exists>r. for_ret 0 (arr_size a) ?body () = Inr (Ret r) \<and> ?Q r)"
  proof (rule for_ret_rule)
    fix i :: u32 and s :: unit
    assume i: "i < arr_size a" and "?I i s"
    moreover have "unat i < length (arr a)"
      using i assms by (simp add: array_ok_def word_less_nat_alt word_le_nat_alt)
    ultimately show "(\<exists>s'. ?body i s = Inr (Next s') \<and> ?I (i + 1) s') \<or> (\<exists>r. ?body i s = Inr (Ret r) \<and> ?Q r)"
      using unat_suc_less [OF i] by (auto simp: cell_get_def less_Suc_eq)
  qed simp_all
  then show thesis
    using that by (auto simp: insert_index_def)
qed

text \<open>No cell is moved when the index is below the last element: the loop's condition is the wrong way round.\<close>

lemma shift_loop_stops: "\<not> j \<le> i \<Longrightarrow> shift_loop j i xs = Some (Inr xs)"
  by (simp add: shift_loop.simps)

section \<open>Properties\<close>

text \<open>
  Inserting an object that is greater than every element appends it. Inserting one whose place is
  below the last element moves nothing: the element at that place is overwritten, the size still
  grows, and the last element becomes whatever the memory past the elements held.
\<close>

theorem ordered_insert_effect:
  assumes "array_ok a" and "arr_size a < max_size a"
  shows "\<exists>i b. insert_index a obj = Inr i \<and>
    (i = arr_size a \<longrightarrow> ordered_array_insert a obj = Inr (True, b) \<and> array_ok b \<and> elements b = elements a @ [obj]) \<and>
    (unat i + 1 < unat (arr_size a) \<longrightarrow> ordered_array_insert a obj = Inr (True, b) \<and> array_ok b \<and>
       elements b = (elements a)[unat i := obj] @ [arr a ! unat (arr_size a)])"
proof -
  let ?n = "unat (arr_size a)"
  obtain i where i: "insert_index a obj = Inr i" "i \<le> arr_size a"
    using insert_index_ok [OF assms(1)] by blast
  have n: "?n < length (arr a)" "unat (arr_size a + 1) = Suc ?n"
    using assms unat_suc_less [OF assms(2)] by (simp_all add: array_ok_def word_less_nat_alt)
  have le: "arr_size a + 1 \<le> max_size a"
    using assms(2) by (rule suc_le_of_less)
  have nle: "\<not> max_size a \<le> arr_size a"
    using assms(2) by (simp add: not_le)
  define b where "b = a\<lparr>arr := (arr a)[unat i := obj], arr_size := arr_size a + 1\<rparr>"
  have ok: "array_ok b" "elements b = take (Suc ?n) ((arr a)[unat i := obj])"
    using assms(1) le n by (simp_all add: b_def array_ok_def elements_def)
  have app: "ordered_array_insert a obj = Inr (True, b) \<and> elements b = elements a @ [obj]" if "i = arr_size a"
    using that i(1) n nle ok by (simp add: ordered_array_insert_def cell_set_def b_def elements_def take_Suc_conv_app_nth)
  have lost: "ordered_array_insert a obj = Inr (True, b) \<and> elements b = (elements a)[unat i := obj] @ [arr a ! ?n]" if "unat i + 1 < ?n"
  proof -
    have "unat (arr_size a - 1) = ?n - 1"
      using that by (intro unat_minus_one) auto
    then have "\<not> arr_size a - 1 \<le> i" "i \<noteq> arr_size a"
      using that by (auto simp: word_le_nat_alt)
    then show ?thesis
      using that i(1) n nle ok
      by (simp add: ordered_array_insert_def shift_loop_stops cell_set_def b_def elements_def take_Suc_conv_app_nth take_update_swap list_update_append)
  qed
  show ?thesis
    using i(1) app lost ok by blast
qed

definition sample_array :: ordered_array where
  "sample_array = \<lparr>arr = [1, 5, 9, 0, 0], arr_size = 3, max_size = 5, comparator = comparator_default\<rparr>"

theorem ordered_insert_effect_witness:
  "\<exists>b. ordered_array_insert sample_array 3 = Inr (True, b) \<and> elements b = [1, 3, 9, 0]"
proof -
  have "insert_index sample_array 3 = Inr 1"
    by (simp add: insert_index_def sample_array_def for_ret_step cell_get_def comparator_default_def word_sle_eq)
  moreover have "array_ok sample_array" "arr_size sample_array < max_size sample_array" "unat (arr_size sample_array) = 3"
    "(elements sample_array)[1 := 3] @ [arr sample_array ! 3] = [1, 3, 9, 0]"
    by (simp_all add: array_ok_def elements_def sample_array_def)
  ultimately show ?thesis
    using ordered_insert_effect [of sample_array 3] by auto
qed

text \<open>
  C38: Removing the element at an index below the size, while the array is not full, takes exactly that
  element out and keeps the others in order.
\<close>

theorem ordered_remove_effect:
  assumes "array_ok a" and "index < arr_size a" and "arr_size a < max_size a"
  shows "\<exists>b. ordered_array_remove a index = Inr (True, b) \<and> array_ok b \<and>
    elements b = take (unat index) (elements a) @ drop (Suc (unat index)) (elements a)"
proof -
  let ?i = "unat index" and ?n = "unat (arr_size a)"
  have b: "?i < ?n" "?n < length (arr a)" "unat (arr_size a - 1) = ?n - 1"
    using assms by (simp_all add: array_ok_def word_less_nat_alt unat_minus_one word_gt_0 unat_gt_0) (use assms(2) in unat_arith)
  define xs where "xs = take ?i (arr a) @ drop (Suc ?i) (take (Suc ?n) (arr a)) @ drop ?n (arr a)"
  have "ordered_array_remove a index = Inr (True, a\<lparr>arr := xs, arr_size := arr_size a - 1\<rparr>)"
    using remove_loop [of index "arr_size a" "arr a"] b assms(2) by (simp add: ordered_array_remove_def xs_def)
  moreover have "length xs = length (arr a)"
    using b by (simp add: xs_def)
  moreover have "take (?n - 1) xs = take ?i (take ?n (arr a)) @ drop (Suc ?i) (take ?n (arr a))"
  proof -
    obtain m where m: "?n = Suc m"
      using b(1) by (cases ?n) simp_all
    then have "?i \<le> m"
      using b(1) by simp
    then show ?thesis
      using b(2) by (auto simp: xs_def m drop_take min_def Suc_diff_le)
  qed
  moreover have "arr_size a - 1 \<le> max_size a"
    using b assms(3) by (simp add: word_le_nat_alt word_less_nat_alt)
  ultimately show ?thesis
    using assms(1) b by (auto simp: array_ok_def elements_def)
qed

theorem ordered_remove_effect_witness:
  "\<exists>b. ordered_array_remove sample_array 0 = Inr (True, b) \<and> elements b = [5, 9]"
  using ordered_remove_effect [of sample_array 0] by (auto simp: array_ok_def elements_def sample_array_def)

end
