(* ===== verification/Vfs.thy ===== *)
theory Vfs
  imports Kalloc Libsc_String
begin

text \<open>
  The file system interface, \<^verbatim>\<open>kernel/fs/vfs.c\<close>: the list of installed drivers, mounting, and the
  operations on inodes. Structures live in stores from addresses to values, 0 is NULL and touching
  an address without a structure is a wild access. Function pointers are addresses of code; what
  runs behind them (the drivers, which the repository does not have) is a parameter of each
  operation that calls one. Memory comes from the allocator installed in \<open>kd\<close>.
\<close>

section \<open>State\<close>

type_synonym fn_ptr = u32

definition VFS_MAX_SUPERBLOCKS :: u32 where "VFS_MAX_SUPERBLOCKS = 24"

record fs_inode =
  ino :: u32
  i_device :: u32
  i_mask :: u32
  i_uid :: u32
  i_gid :: u32
  i_flags :: u32
  i_size :: u32
  refcount :: u32
  redirect :: uintptr_t
  inode_ops :: uintptr_t

record fs_inode_ops =
  op_read :: fn_ptr
  op_write :: fn_ptr
  op_open :: fn_ptr
  op_close :: fn_ptr
  op_readdir :: fn_ptr
  op_finddir :: fn_ptr

text \<open>The name of a driver, up to its terminating zero.\<close>

record fs_driver =
  drv_next :: uintptr_t
  drv_name :: "u8 list"
  fs_mount :: fn_ptr

record vfs_state =
  vfs_superblocks :: "uintptr_t list"
  vfs_superblocks_size :: u32
  vfs_drivers_head :: uintptr_t
  vfs_refcountLocked :: u32
  driver_store :: "uintptr_t \<rightharpoonup> fs_driver"
  inode_store :: "uintptr_t \<rightharpoonup> fs_inode"
  ops_store :: "uintptr_t \<rightharpoonup> fs_inode_ops"

text \<open>The spinlock: a lock that is taken is never released by anyone else here, so waiting for it never ends.\<close>

definition SPINLOCK_LOCK :: "'a vfs_state_scheme \<Rightarrow> 'a vfs_state_scheme res" where
  "SPINLOCK_LOCK s = (if vfs_refcountLocked s = 0 then Inr (s\<lparr>vfs_refcountLocked := 1\<rparr>) else Inl Diverges)"

definition SPINLOCK_UNLOCK :: "'a vfs_state_scheme \<Rightarrow> 'a vfs_state_scheme" where
  "SPINLOCK_UNLOCK s = s\<lparr>vfs_refcountLocked := 0\<rparr>"

section \<open>Drivers and mounts\<close>

text \<open>Names are compared with \<open>strcmp\<close>, whose result on strings is \<open>cmp\<close> (theory Libsc_String).\<close>

partial_function (option) driver_loop :: "u8 list \<Rightarrow> uintptr_t \<Rightarrow> 'a vfs_state_scheme \<Rightarrow> uintptr_t res option" where
  "driver_loop driver cur s =
     (if cur \<noteq> 0
      then (case driver_store s cur of
              None \<Rightarrow> Some (Inl Wild_access)
            | Some d \<Rightarrow> if cmp driver (drv_name d) = 0 then Some (Inr cur) else driver_loop driver (drv_next d) s)
      else Some (Inr 0))"

definition vfs_get_driver :: "u8 list \<Rightarrow> 'a vfs_state_scheme \<Rightarrow> uintptr_t res" where
  "vfs_get_driver driver s = or_diverge (driver_loop driver (vfs_drivers_head s) s)"

text \<open>\<open>sizeof(fs_driver_t)\<close> is 20 and \<open>sizeof(vfs_superblock_t)\<close> is 12. The new node is not checked for NULL.\<close>

definition vfs_install_driver :: "'a vfs_state_scheme kalloc_interface \<Rightarrow> fs_driver \<Rightarrow> 'a vfs_state_scheme \<Rightarrow> 'a vfs_state_scheme res" where
  "vfs_install_driver kd driver s =
     bindr (kmalloc kd 20 KALLOC_GENERAL s) (\<lambda>(new, s).
     if new = 0 then Inl Wild_access
     else Inr (s\<lparr>driver_store := (driver_store s)(new \<mapsto> driver\<lparr>drv_next := vfs_drivers_head s\<rparr>),
                 vfs_drivers_head := new\<rparr>))"

text \<open>\<open>call f device mount_point options newsuper\<close> is the driver's \<open>fs_mount\<close>.\<close>

definition vfs_mount :: "'a vfs_state_scheme kalloc_interface \<Rightarrow>
    (fn_ptr \<Rightarrow> u32 \<Rightarrow> uintptr_t \<Rightarrow> uintptr_t \<Rightarrow> uintptr_t \<Rightarrow> 'a vfs_state_scheme \<Rightarrow> (k_return_t \<times> 'a vfs_state_scheme) res) \<Rightarrow>
    u8 list \<Rightarrow> u32 \<Rightarrow> uintptr_t \<Rightarrow> uintptr_t \<Rightarrow> 'a vfs_state_scheme \<Rightarrow> (k_return_t \<times> 'a vfs_state_scheme) res" where
  "vfs_mount kd call driver device mount_point options s =
     bindr (vfs_get_driver driver s) (\<lambda>driver_info.
     if driver_info = 0 then Inr (K_NOTSUP, s)
     else
       bindr (kmalloc kd 12 KALLOC_GENERAL s) (\<lambda>(newsuper, s).
       case driver_store s driver_info of
         None \<Rightarrow> Inl Wild_access
       | Some d \<Rightarrow>
           bindr (call (fs_mount d) device mount_point options newsuper s) (\<lambda>(r, s).
           if r <s 0 then Inr (r, s)
           else if vfs_superblocks_size s + 1 > VFS_MAX_SUPERBLOCKS then Inr (K_OOM, s)
           else if unat (vfs_superblocks_size s) < length (vfs_superblocks s)
           then Inr (K_SUCCESS, s\<lparr>vfs_superblocks := (vfs_superblocks s)[unat (vfs_superblocks_size s) := newsuper],
                                  vfs_superblocks_size := vfs_superblocks_size s + 1\<rparr>)
           else Inl Wild_access)))"

section \<open>Inodes\<close>

definition inode_at :: "uintptr_t \<Rightarrow> 'a vfs_state_scheme \<Rightarrow> fs_inode res" where
  "inode_at node s = (case inode_store s node of None \<Rightarrow> Inl Wild_access | Some i \<Rightarrow> Inr i)"

text \<open>\<^verbatim>\<open>ops && ops->op\<close>: the operation, or NULL\<close>

definition inode_op :: "(fs_inode_ops \<Rightarrow> fn_ptr) \<Rightarrow> uintptr_t \<Rightarrow> 'a vfs_state_scheme \<Rightarrow> fn_ptr res" where
  "inode_op sel node s =
     bindr (inode_at node s) (\<lambda>i.
     if inode_ops i = 0 then Inr 0
     else case ops_store s (inode_ops i) of None \<Rightarrow> Inl Wild_access | Some ops \<Rightarrow> Inr (sel ops))"

definition vfs_inode_read :: "(fn_ptr \<Rightarrow> uintptr_t \<Rightarrow> u32 \<Rightarrow> u32 \<Rightarrow> uintptr_t \<Rightarrow> 'a vfs_state_scheme \<Rightarrow> (k_return_t \<times> 'a vfs_state_scheme) res) \<Rightarrow>
    uintptr_t \<Rightarrow> u32 \<Rightarrow> u32 \<Rightarrow> uintptr_t \<Rightarrow> 'a vfs_state_scheme \<Rightarrow> (k_return_t \<times> 'a vfs_state_scheme) res" where
  "vfs_inode_read call node offset sz buf s =
     bindr (inode_op op_read node s) (\<lambda>f. if f \<noteq> 0 then call f node offset sz buf s else Inr (K_UNIMPL, s))"

definition vfs_inode_write :: "(fn_ptr \<Rightarrow> uintptr_t \<Rightarrow> u32 \<Rightarrow> u32 \<Rightarrow> uintptr_t \<Rightarrow> 'a vfs_state_scheme \<Rightarrow> (k_return_t \<times> 'a vfs_state_scheme) res) \<Rightarrow>
    uintptr_t \<Rightarrow> u32 \<Rightarrow> u32 \<Rightarrow> uintptr_t \<Rightarrow> 'a vfs_state_scheme \<Rightarrow> (k_return_t \<times> 'a vfs_state_scheme) res" where
  "vfs_inode_write call node offset sz buf s =
     bindr (inode_op op_write node s) (\<lambda>f. if f \<noteq> 0 then call f node offset sz buf s else Inr (K_UNIMPL, s))"

text \<open>\<^verbatim>\<open>node->refcount\<close> changed by \<open>k\<close>, under the lock\<close>

definition add_refcount :: "u32 \<Rightarrow> uintptr_t \<Rightarrow> 'a vfs_state_scheme \<Rightarrow> 'a vfs_state_scheme res" where
  "add_refcount k node s =
     bindr (SPINLOCK_LOCK s) (\<lambda>s.
     bindr (inode_at node s) (\<lambda>i.
     Inr (SPINLOCK_UNLOCK (s\<lparr>inode_store := (inode_store s)(node \<mapsto> i\<lparr>refcount := refcount i + k\<rparr>)\<rparr>))))"

definition vfs_inode_open :: "(fn_ptr \<Rightarrow> uintptr_t \<Rightarrow> 'a vfs_state_scheme \<Rightarrow> (k_return_t \<times> 'a vfs_state_scheme) res) \<Rightarrow>
    uintptr_t \<Rightarrow> 'a vfs_state_scheme \<Rightarrow> (k_return_t \<times> 'a vfs_state_scheme) res" where
  "vfs_inode_open call node s =
     bindr (inode_op op_open node s) (\<lambda>f.
     if f \<noteq> 0 then bindr (add_refcount 1 node s) (call f node) else Inr (K_UNIMPL, s))"

definition vfs_inode_close :: "(fn_ptr \<Rightarrow> uintptr_t \<Rightarrow> 'a vfs_state_scheme \<Rightarrow> (k_return_t \<times> 'a vfs_state_scheme) res) \<Rightarrow>
    uintptr_t \<Rightarrow> 'a vfs_state_scheme \<Rightarrow> (k_return_t \<times> 'a vfs_state_scheme) res" where
  "vfs_inode_close call node s =
     bindr (inode_op op_close node s) (\<lambda>f.
     if f \<noteq> 0 then bindr (add_refcount (- 1) node s) (call f node) else Inr (K_UNIMPL, s))"

definition vfs_inode_readdir :: "(fn_ptr \<Rightarrow> uintptr_t \<Rightarrow> u32 \<Rightarrow> uintptr_t \<Rightarrow> 'a vfs_state_scheme \<Rightarrow> (k_return_t \<times> 'a vfs_state_scheme) res) \<Rightarrow>
    uintptr_t \<Rightarrow> u32 \<Rightarrow> uintptr_t \<Rightarrow> 'a vfs_state_scheme \<Rightarrow> (k_return_t \<times> 'a vfs_state_scheme) res" where
  "vfs_inode_readdir call node num result s =
     bindr (inode_op op_readdir node s) (\<lambda>f. if f \<noteq> 0 then call f node num result s else Inr (K_UNIMPL, s))"

definition vfs_inode_finddir :: "(fn_ptr \<Rightarrow> uintptr_t \<Rightarrow> uintptr_t \<Rightarrow> uintptr_t \<Rightarrow> 'a vfs_state_scheme \<Rightarrow> (k_return_t \<times> 'a vfs_state_scheme) res) \<Rightarrow>
    uintptr_t \<Rightarrow> uintptr_t \<Rightarrow> uintptr_t \<Rightarrow> 'a vfs_state_scheme \<Rightarrow> (k_return_t \<times> 'a vfs_state_scheme) res" where
  "vfs_inode_finddir call node name result s =
     bindr (inode_op op_finddir node s) (\<lambda>f. if f \<noteq> 0 then call f node name result s else Inr (K_UNIMPL, s))"

section \<open>The list of drivers\<close>

fun driver_chain :: "(uintptr_t \<rightharpoonup> fs_driver) \<Rightarrow> uintptr_t \<Rightarrow> uintptr_t list \<Rightarrow> bool" where
  "driver_chain st p [] \<longleftrightarrow> p = 0"
| "driver_chain st p (q # qs) \<longleftrightarrow> p = q \<and> q \<noteq> 0 \<and> (\<exists>d. st q = Some d \<and> driver_chain st (drv_next d) qs)"

text \<open>The first driver of the list with a name.\<close>

definition find_driver :: "(uintptr_t \<rightharpoonup> fs_driver) \<Rightarrow> u8 list \<Rightarrow> uintptr_t list \<Rightarrow> uintptr_t" where
  "find_driver st name ps =
     (case find (\<lambda>p. cmp name (drv_name (the (st p))) = 0) ps of None \<Rightarrow> 0 | Some p \<Rightarrow> p)"

lemma driver_loop_ok:
  assumes "driver_chain (driver_store s) p ps"
  shows "driver_loop name p s = Some (Inr (find_driver (driver_store s) name ps))"
  using assms
proof (induction ps arbitrary: p)
  case Nil
  then show ?case
    by (simp add: driver_loop.simps find_driver_def)
next
  case (Cons q ps)
  then show ?case
    by (subst driver_loop.simps) (auto simp: find_driver_def)
qed

lemma driver_chain_update:
  "q \<notin> set ps \<Longrightarrow> driver_chain (st(q \<mapsto> d)) p ps = driver_chain st p ps"
  by (induction ps arbitrary: p) auto

lemma find_driver_update:
  "q \<notin> set ps \<Longrightarrow> find_driver (st(q \<mapsto> d)) name ps = find_driver st name ps"
proof -
  assume "q \<notin> set ps"
  then have "find (\<lambda>p. cmp name (drv_name (the ((st(q \<mapsto> d)) p))) = 0) ps = find (\<lambda>p. cmp name (drv_name (the (st p))) = 0) ps"
    by (intro find_cong) auto
  then show ?thesis
    by (simp add: find_driver_def)
qed

section \<open>Properties\<close>

text \<open>What installation and mounting rely on: the allocator leaves the variables of this component alone.\<close>

definition vfs_kept :: "'a vfs_state_scheme \<Rightarrow> 'a vfs_state_scheme \<Rightarrow> bool" where
  "vfs_kept s t \<longleftrightarrow> driver_store t = driver_store s \<and> vfs_drivers_head t = vfs_drivers_head s \<and>
     vfs_superblocks t = vfs_superblocks s \<and> vfs_superblocks_size t = vfs_superblocks_size s"

text \<open>
  C36: A driver that has been installed is the one found under its name, whatever was installed before,
  and the lookup of any other name is not affected.
\<close>

theorem vfs_install_lookup:
  assumes "driver_chain (driver_store s) (vfs_drivers_head s) ps" and "kmalloc kd 20 KALLOC_GENERAL s = Inr (new, s1)"
    and "new \<noteq> 0" and "new \<notin> set ps" and "vfs_kept s s1" and "0 \<notin> set (drv_name d)" and "0 \<notin> set name"
  shows "\<exists>t r. vfs_install_driver kd d s = Inr t \<and> driver_chain (driver_store t) (vfs_drivers_head t) (new # ps) \<and>
    vfs_get_driver name s = Inr r \<and> vfs_get_driver name t = Inr (if name = drv_name d then new else r)"
proof -
  let ?d = "d\<lparr>drv_next := vfs_drivers_head s\<rparr>"
  let ?t = "s1\<lparr>driver_store := (driver_store s)(new \<mapsto> ?d), vfs_drivers_head := new\<rparr>"
  have t: "vfs_install_driver kd d s = Inr ?t"
    using assms(2,3,5) by (simp add: vfs_install_driver_def vfs_kept_def)
  have chain: "driver_chain (driver_store ?t) (vfs_drivers_head ?t) (new # ps)"
    using assms(1,3,4) by (simp add: driver_chain_update)
  have "vfs_get_driver name ?t = Inr (find_driver (driver_store ?t) name (new # ps))"
    using driver_loop_ok [OF chain, of name] by (simp add: vfs_get_driver_def)
  also have "find_driver (driver_store ?t) name (new # ps) = (if name = drv_name d then new else find_driver (driver_store s) name ps)"
    using cmp_eq_0 [OF assms(7,6)] find_driver_update [OF assms(4), of "driver_store s" ?d name] by (simp add: find_driver_def)
  finally have "vfs_get_driver name ?t = Inr (if name = drv_name d then new else find_driver (driver_store s) name ps)" .
  moreover have "vfs_get_driver name s = Inr (find_driver (driver_store s) name ps)"
    using driver_loop_ok [OF assms(1), of name] by (simp add: vfs_get_driver_def)
  ultimately show ?thesis
    using t chain by blast
qed

text \<open>An allocator that hands out one address, and a kernel without drivers.\<close>

definition sample_kd :: "'s kalloc_interface" where
  "sample_kd = \<lparr>kalloc_malloc_real_fn = Some (\<lambda>_ _ _ s. Inr ((0x1000, None), s)), kalloc_free_fn = None\<rparr>"

definition sample_vfs :: vfs_state where
  "sample_vfs = \<lparr>vfs_superblocks = replicate 24 0, vfs_superblocks_size = 0, vfs_drivers_head = 0, vfs_refcountLocked = 0,
     driver_store = Map.empty, inode_store = Map.empty, ops_store = Map.empty\<rparr>"

lemma sample_kmalloc: "kmalloc sample_kd n flags s = Inr (0x1000, s)"
  by (simp add: kmalloc_def call_malloc_def sample_kd_def)

theorem vfs_install_lookup_witness:
  "\<exists>t. vfs_install_driver sample_kd \<lparr>drv_next = 0, drv_name = [101, 120, 116], fs_mount = 0x2000\<rparr> sample_vfs = Inr t \<and>
     vfs_get_driver [101, 120, 116] t = Inr 0x1000"
  using vfs_install_lookup [of sample_vfs "[]" sample_kd "0x1000" sample_vfs "\<lparr>drv_next = 0, drv_name = [101, 120, 116], fs_mount = 0x2000\<rparr>" "[101, 120, 116]"]
  by (auto simp: sample_kmalloc vfs_kept_def sample_vfs_def)

text \<open>
  A mount that the driver refuses, with any of the kernel's failure codes, is reported as a success
  and takes up a place in the table of mounted file systems: the codes are positive, and only
  negative results count as failures.
\<close>

theorem vfs_mount_hides_failure:
  assumes "driver_chain (driver_store s) (vfs_drivers_head s) ps" and "find_driver (driver_store s) name ps = p" and "p \<noteq> 0"
    and "driver_store s p = Some d" and "kmalloc kd 12 KALLOC_GENERAL s = Inr (super, s1)" and "vfs_kept s s1"
    and "call (fs_mount d) device mp opts super s1 = Inr (r, s2)" and "vfs_kept s1 s2"
    and "r \<in> {K_UNIMPL, K_OOM, K_IO, K_NOSPACE, K_NOTSUP, K_INVALOP}"
    and "length (vfs_superblocks s) = 24" and "vfs_superblocks_size s < 24"
  shows "vfs_mount kd call name device mp opts s =
    Inr (K_SUCCESS, s2\<lparr>vfs_superblocks := (vfs_superblocks s)[unat (vfs_superblocks_size s) := super],
                        vfs_superblocks_size := vfs_superblocks_size s + 1\<rparr>)"
proof -
  have "vfs_get_driver name s = Inr p"
    using driver_loop_ok [OF assms(1), of name] assms(2) by (simp add: vfs_get_driver_def)
  moreover have "\<not> r <s 0"
    using assms(9) by (auto simp: K_UNIMPL_def K_OOM_def K_IO_def K_NOSPACE_def K_NOTSUP_def K_INVALOP_def word_sless_alt)
  moreover have "\<not> vfs_superblocks_size s + 1 > VFS_MAX_SUPERBLOCKS"
    using suc_le_of_less [OF assms(11)] by (simp add: VFS_MAX_SUPERBLOCKS_def not_less)
  moreover have "unat (vfs_superblocks_size s) < 24"
    using assms(11) by (simp add: word_less_nat_alt)
  ultimately show ?thesis
    using assms(3-8,10) by (simp add: vfs_mount_def vfs_kept_def)
qed

definition sample_mounted :: vfs_state where
  "sample_mounted = sample_vfs\<lparr>driver_store := [0x1000 \<mapsto> \<lparr>drv_next = 0, drv_name = [101], fs_mount = 0x2000\<rparr>], vfs_drivers_head := 0x1000\<rparr>"

theorem vfs_mount_hides_failure_witness:
  "\<exists>t. vfs_mount sample_kd (\<lambda>_ _ _ _ _ s. Inr (K_IO, s)) [101] 0 0 0 sample_mounted = Inr (K_SUCCESS, t) \<and> vfs_superblocks_size t = 1"
  using vfs_mount_hides_failure [of sample_mounted "[0x1000]" "[101]" "0x1000" "\<lparr>drv_next = 0, drv_name = [101], fs_mount = 0x2000\<rparr>"
      sample_kd "0x1000" sample_mounted "\<lambda>_ _ _ _ _ s. Inr (K_IO, s)" 0 0 0 K_IO sample_mounted]
  by (simp add: sample_kmalloc vfs_kept_def sample_mounted_def sample_vfs_def find_driver_def)


definition sample_inode :: vfs_state where
  "sample_inode = sample_vfs\<lparr>
     inode_store := [0x10 \<mapsto> \<lparr>ino = 1, i_device = 0, i_mask = 0, i_uid = 0, i_gid = 0, i_flags = 1, i_size = 0, refcount = 4,
                        redirect = 0, inode_ops = 0x20\<rparr>],
     ops_store := [0x20 \<mapsto> \<lparr>op_read = 0, op_write = 0, op_open = 1, op_close = 2, op_readdir = 0, op_finddir = 0\<rparr>]\<rparr>"


end
