(* ===== verification/Ports.thy ===== *)
theory Ports
  imports Vga
begin

text \<open>
  The port instructions of \<^verbatim>\<open>kernel/include/arch/i386/io.h\<close>. A write is entered in a log; what a port answers is up to
  the machine, a function \<open>hw\<close> of the writes so far and the port, of which a read takes the width that it reads.
  The instructions take the low 16 bits of the port.
\<close>

datatype io_data = Byte u8 | Word u16 | Dword u32

record io_state = vga_state +
  io_writes :: "(u16 \<times> io_data) list"

type_synonym io_hardware = "(u16 \<times> io_data) list \<Rightarrow> u16 \<Rightarrow> u32"

definition IoWrite8 :: "u32 \<Rightarrow> u8 \<Rightarrow> 'a io_state_scheme \<Rightarrow> 'a io_state_scheme" where
  "IoWrite8 port data s = s\<lparr>io_writes := io_writes s @ [(ucast port, Byte data)]\<rparr>"

definition IoRead8 :: "io_hardware \<Rightarrow> u32 \<Rightarrow> 'a io_state_scheme \<Rightarrow> u8" where
  "IoRead8 hw port s = ucast (hw (io_writes s) (ucast port))"

definition IoWrite16 :: "u32 \<Rightarrow> u16 \<Rightarrow> 'a io_state_scheme \<Rightarrow> 'a io_state_scheme" where
  "IoWrite16 port data s = s\<lparr>io_writes := io_writes s @ [(ucast port, Word data)]\<rparr>"

definition IoRead16 :: "io_hardware \<Rightarrow> u32 \<Rightarrow> 'a io_state_scheme \<Rightarrow> u16" where
  "IoRead16 hw port s = ucast (hw (io_writes s) (ucast port))"

definition IoWrite32 :: "u32 \<Rightarrow> u32 \<Rightarrow> 'a io_state_scheme \<Rightarrow> 'a io_state_scheme" where
  "IoWrite32 port data s = s\<lparr>io_writes := io_writes s @ [(ucast port, Dword data)]\<rparr>"

definition IoRead32 :: "io_hardware \<Rightarrow> u32 \<Rightarrow> 'a io_state_scheme \<Rightarrow> u32" where
  "IoRead32 hw port s = hw (io_writes s) (ucast port)"

text \<open>Two jumps to the next instruction.\<close>

definition io_wait :: "'a io_state_scheme \<Rightarrow> 'a io_state_scheme" where
  "io_wait s = s"

lemma io_write_simps [simp]:
  "io_writes (IoWrite8 p b s) = io_writes s @ [(ucast p, Byte b)]"
  "io_writes (IoWrite16 p w s) = io_writes s @ [(ucast p, Word w)]"
  "io_writes (IoWrite32 p d s) = io_writes s @ [(ucast p, Dword d)]"
  "io_writes (io_wait s) = io_writes s"
  by (simp_all add: IoWrite8_def IoWrite16_def IoWrite32_def io_wait_def)

text \<open>Writes to ports leave the screen alone.\<close>

lemma io_write_vga [simp]:
  "vga_ok (s\<lparr>io_writes := w\<rparr>) = vga_ok s"
  by (simp add: vga_ok_def vga_ready_def)

end
