(* ===== verification/Pci.thy ===== *)
theory Pci
  imports Interrupts Ports
begin

text \<open>
  The PCI bus scan, \<^verbatim>\<open>kernel/drivers/pci/pci.c\<close>. The configuration space of the bus is reached through two ports; what
  the machine answers is the parameter \<open>hw\<close> of theory Ports.
\<close>

definition PCI_CONFIG_ADDR :: u32 where "PCI_CONFIG_ADDR = 0xCF8"
definition PCI_CONFIG_DATA :: u32 where "PCI_CONFIG_DATA = 0xCFC"

definition PCI_CLASS_IDS :: "cstring list" where
  "PCI_CLASS_IDS = map lit
    [''no class specification'', ''Mass Storage Controller'', ''Network Controller'', ''Display Controller'',
     ''Multimedia Device'', ''Memory Controller'', ''Bridge Device'', ''Simple Communication Controller'',
     ''Base System Peripheral'', ''Input Device'', ''Docking Station'', ''Processor'', ''Serial Bus Controller'',
     ''Wireless Controller'', ''Intelligent I/O Controller'', ''Satellite Communication Controller'',
     ''Encryption/Decryption Controller'', ''Data Acquisition and Signal Processing Controller'']"

record pci_device =
  vendor :: u32
  device :: u32
  func_no :: u32

record pci_state = io_state +
  pci_devices :: "pci_device list"
  pci_devices_size :: u32

definition pci_config_address :: "u16 \<Rightarrow> u16 \<Rightarrow> u16 \<Rightarrow> u8 \<Rightarrow> u32" where
  "pci_config_address bus slot func offset =
     (let lbus = ucast bus; lslot = ucast slot; lfunc = ucast func
      in push_bit 16 lbus OR push_bit 11 lslot OR push_bit 8 lfunc OR ucast (offset AND 0xFC) OR 0x80000000)"

definition pci_config_read_word ::
  "io_hardware \<Rightarrow> u16 \<Rightarrow> u16 \<Rightarrow> u16 \<Rightarrow> u8 \<Rightarrow> 'a pci_state_scheme \<Rightarrow> u16 \<times> 'a pci_state_scheme" where
  "pci_config_read_word hw bus slot func offset s =
     (let address = pci_config_address bus slot func offset;
          s = IoWrite32 PCI_CONFIG_ADDR address s;
          tmp = ucast (drop_bit (unat (offset AND 2) * 8) (IoRead32 hw PCI_CONFIG_DATA s) AND 0xffff)
      in (tmp, s))"

definition pci_get_vendor_id :: "io_hardware \<Rightarrow> u16 \<Rightarrow> u16 \<Rightarrow> u16 \<Rightarrow> 'a pci_state_scheme \<Rightarrow> u16 \<times> 'a pci_state_scheme" where
  "pci_get_vendor_id hw bus slot func s = pci_config_read_word hw bus slot func 0 s"

definition pci_get_device_id :: "io_hardware \<Rightarrow> u16 \<Rightarrow> u16 \<Rightarrow> u16 \<Rightarrow> 'a pci_state_scheme \<Rightarrow> u16 \<times> 'a pci_state_scheme" where
  "pci_get_device_id hw bus slot func s = pci_config_read_word hw bus slot func 2 s"

definition pci_get_device_class_id :: "io_hardware \<Rightarrow> u16 \<Rightarrow> u16 \<Rightarrow> u16 \<Rightarrow> 'a pci_state_scheme \<Rightarrow> u16 \<times> 'a pci_state_scheme" where
  "pci_get_device_class_id hw bus slot func s =
     (let (w, s) = pci_config_read_word hw bus slot func 0xA s;
          class_id_seg = (ucast w :: u32)
      in (ucast (drop_bit 8 (class_id_seg AND NOT 0x00FF)), s))"

definition pci_get_device_subclass_id :: "io_hardware \<Rightarrow> u16 \<Rightarrow> u16 \<Rightarrow> u16 \<Rightarrow> 'a pci_state_scheme \<Rightarrow> u16 \<times> 'a pci_state_scheme" where
  "pci_get_device_subclass_id hw bus slot func s =
     (let (w, s) = pci_config_read_word hw bus slot func 0xA s;
          subclass_id_seg = (ucast w :: u32)
      in (ucast (subclass_id_seg AND NOT 0xFF00), s))"

text \<open>The body of the innermost loop; \<open>Ret\<close> is the early \<open>return\<close>.\<close>

definition probe_function :: "(nat \<Rightarrow> nat) \<Rightarrow> io_hardware \<Rightarrow> u16 \<Rightarrow> u16 \<Rightarrow> u16 \<Rightarrow> 'a pci_state_scheme \<Rightarrow>
    ('a pci_state_scheme, 'a pci_state_scheme) ctl res" where
  "probe_function room hw bus slot function s =
     (if pci_devices_size s > 15 then
        bindr (printf room (lit ''[pci] not adding above device... limit reached'' @ [CHAR_NL]) [] s) (\<lambda>s. Inr (Ret s))
      else
        let (vendor_id, s) = pci_get_vendor_id hw bus slot function s
        in if vendor_id = 0xFFFF then Inr (Next s)
           else let (device_id, s) = pci_get_device_id hw bus slot function s;
                    (class_id, s) = pci_get_device_class_id hw bus slot function s
                in if unat class_id < length PCI_CLASS_IDS then
                     bindr (printf room (lit ''[pci] %x:%x - %s'' @ [CHAR_NL])
                              [Int_arg (ucast vendor_id), Int_arg (ucast device_id), Str_arg (PCI_CLASS_IDS ! unat class_id)] s) (\<lambda>s.
                     if unat (pci_devices_size s) < length (pci_devices s)
                     then Inr (Next (s\<lparr>pci_devices := (pci_devices s)[unat (pci_devices_size s) :=
                                          \<lparr>vendor = ucast vendor_id, device = ucast device_id, func_no = ucast function\<rparr>],
                                       pci_devices_size := pci_devices_size s + 1\<rparr>))
                     else Inl Wild_access)
                   else Inl Wild_access)"

definition pci_probe :: "(nat \<Rightarrow> nat) \<Rightarrow> io_hardware \<Rightarrow> 'a pci_state_scheme \<Rightarrow> 'a pci_state_scheme res" where
  "pci_probe room hw s =
     bindr (for_ret 0 256 (\<lambda>bus. for_ret 0 32 (\<lambda>slot. for_ret 0 8 (\<lambda>function.
              probe_function room hw (ucast bus) (ucast slot) (ucast function)))) s)
       (\<lambda>c. case c of Next s \<Rightarrow> Inr s | Ret s \<Rightarrow> Inr s)"

definition pci_init :: "(nat \<Rightarrow> nat) \<Rightarrow> io_hardware \<Rightarrow> 'a pci_state_scheme \<Rightarrow> 'a pci_state_scheme res" where
  "pci_init room hw s = bindr (printk_debug room (lit ''Scanning for PCI devices.'') [] s) (pci_probe room hw)"

section \<open>The configuration space\<close>

text \<open>
  The configuration mechanism of the bus: after an address has been written to the address port, the data port reads
  the double word \<open>config\<close> has at that address, whatever was written before.
\<close>

definition config_mechanism :: "io_hardware \<Rightarrow> (u32 \<Rightarrow> u32) \<Rightarrow> bool" where
  "config_mechanism hw config \<longleftrightarrow> (\<forall>log a. hw (log @ [(0xCF8, Dword a)]) 0xCFC = config a)"

text \<open>The identification of a function in the configuration space.\<close>

definition config_word :: "(u32 \<Rightarrow> u32) \<Rightarrow> u16 \<times> u16 \<times> u16 \<Rightarrow> u8 \<Rightarrow> u16" where
  "config_word config = (\<lambda>(b, sl, f) offset. ucast (drop_bit (unat (offset AND 2) * 8) (config (pci_config_address b sl f offset))))"

definition vendor_of :: "(u32 \<Rightarrow> u32) \<Rightarrow> u16 \<times> u16 \<times> u16 \<Rightarrow> u16" where
  "vendor_of config p = config_word config p 0"

definition device_of :: "(u32 \<Rightarrow> u32) \<Rightarrow> u16 \<times> u16 \<times> u16 \<Rightarrow> u16" where
  "device_of config p = config_word config p 2"

definition class_of :: "(u32 \<Rightarrow> u32) \<Rightarrow> u16 \<times> u16 \<times> u16 \<Rightarrow> u16" where
  "class_of config p = drop_bit 8 (config_word config p 0xA)"

definition subclass_of :: "(u32 \<Rightarrow> u32) \<Rightarrow> u16 \<times> u16 \<times> u16 \<Rightarrow> u16" where
  "subclass_of config p = take_bit 8 (config_word config p 0xA)"

lemma low_word: "(ucast (x AND 0xFFFF) :: u16) = ucast x" for x :: u32
proof -
  have m: "(0xFFFF :: u32) = mask 16"
    by (simp add: mask_eq_exp_minus_1)
  show ?thesis
    unfolding m by (rule bit_word_eqI) (auto simp: bit_simps)
qed

lemma word_halves:
  fixes w :: u16
  shows "(ucast (drop_bit 8 ((ucast w :: u32) AND NOT 0x00FF)) :: u16) = drop_bit 8 w"
    and "(ucast ((ucast w :: u32) AND NOT 0xFF00) :: u16) = take_bit 8 w"
proof -
  have m: "(0x00FF :: u32) = mask 8" "(0xFF00 :: u32) = push_bit 8 (mask 8)"
    by (simp_all add: mask_eq_exp_minus_1 push_bit_eq_mult)
  show "(ucast (drop_bit 8 ((ucast w :: u32) AND NOT 0x00FF)) :: u16) = drop_bit 8 w"
    unfolding m(1) by (rule bit_word_eqI) (auto simp: bit_simps)
  show "(ucast ((ucast w :: u32) AND NOT 0xFF00) :: u16) = take_bit 8 w"
    unfolding m(2) by (rule bit_word_eqI) (auto simp: bit_simps)
qed

text \<open>Reading through the ports reads the configuration space, and adds one address to the log.\<close>

lemma config_read:
  assumes "config_mechanism hw config"
  shows "pci_config_read_word hw b sl f offset s =
     (config_word config (b, sl, f) offset, s\<lparr>io_writes := io_writes s @ [(0xCF8, Dword (pci_config_address b sl f offset))]\<rparr>)"
proof -
  have "hw (io_writes s @ [(0xCF8, Dword a)]) 0xCFC = config a" for a
    using assms by (simp add: config_mechanism_def)
  then show ?thesis
    by (simp add: pci_config_read_word_def config_word_def Let_def low_word IoWrite32_def IoRead32_def
        PCI_CONFIG_ADDR_def PCI_CONFIG_DATA_def)
qed

lemma config_getters:
  assumes "config_mechanism hw config"
  shows "\<exists>w. pci_get_vendor_id hw b sl f s = (vendor_of config (b, sl, f), s\<lparr>io_writes := w\<rparr>)"
    and "\<exists>w. pci_get_device_id hw b sl f s = (device_of config (b, sl, f), s\<lparr>io_writes := w\<rparr>)"
    and "\<exists>w. pci_get_device_class_id hw b sl f s = (class_of config (b, sl, f), s\<lparr>io_writes := w\<rparr>)"
    and "\<exists>w. pci_get_device_subclass_id hw b sl f s = (subclass_of config (b, sl, f), s\<lparr>io_writes := w\<rparr>)"
  unfolding pci_get_vendor_id_def pci_get_device_id_def pci_get_device_class_id_def pci_get_device_subclass_id_def
    vendor_of_def device_of_def class_of_def subclass_of_def config_read [OF assms] Let_def prod.case word_halves
  by blast+

section \<open>The devices of the bus\<close>

text \<open>The function with a number, in the order of the scan, and what is recorded of it.\<close>

definition scan_pos :: "nat \<Rightarrow> u16 \<times> u16 \<times> u16" where
  "scan_pos k = (of_nat (k div 256), of_nat (k div 8 mod 32), of_nat (k mod 8))"

definition device_at :: "(u32 \<Rightarrow> u32) \<Rightarrow> nat \<Rightarrow> pci_device list" where
  "device_at config k = (let p = scan_pos k
     in if vendor_of config p = 0xFFFF then []
        else [\<lparr>vendor = ucast (vendor_of config p), device = ucast (device_of config p), func_no = ucast (snd (snd p))\<rparr>])"

definition devices_below :: "(u32 \<Rightarrow> u32) \<Rightarrow> nat \<Rightarrow> pci_device list" where
  "devices_below config k = concat (map (device_at config) [0..<k])"

text \<open>Every device that answers has a class the table of names knows.\<close>

definition classes_known :: "(u32 \<Rightarrow> u32) \<Rightarrow> bool" where
  "classes_known config \<longleftrightarrow> (\<forall>p. vendor_of config p \<noteq> 0xFFFF \<longrightarrow> class_of config p < 18)"

lemma devices_below_Suc: "devices_below config (Suc k) = devices_below config k @ device_at config k"
  by (simp add: devices_below_def)

lemma devices_below_prefix: "k \<le> n \<Longrightarrow> \<exists>zs. devices_below config n = devices_below config k @ zs"
  by (induction n rule: dec_induct) (auto simp: devices_below_Suc)

definition scan_inv :: "(u32 \<Rightarrow> u32) \<Rightarrow> nat \<Rightarrow> 'a pci_state_scheme \<Rightarrow> bool" where
  "scan_inv config k s \<longleftrightarrow> vga_ok s \<and> length (pci_devices s) = 16 \<and> unat (pci_devices_size s) = length (devices_below config k) \<and>
     length (devices_below config k) \<le> 16 \<and> take (length (devices_below config k)) (pci_devices s) = devices_below config k"

definition scan_done :: "(u32 \<Rightarrow> u32) \<Rightarrow> 'a pci_state_scheme \<Rightarrow> bool" where
  "scan_done config s \<longleftrightarrow> vga_ok s \<and> take (unat (pci_devices_size s)) (pci_devices s) = take 16 (devices_below config 65536)"

lemma scan_inv_cong:
  "devices_below config k = devices_below config j \<Longrightarrow> scan_inv config k s = scan_inv config j s"
  by (simp add: scan_inv_def)

lemma pci_more:
  "vga_state.more t = vga_state.more s \<Longrightarrow> pci_devices t = pci_devices s \<and> pci_devices_size t = pci_devices_size s"
  by (cases s; cases t) simp

lemma PCI_CLASS_IDS_length: "length PCI_CLASS_IDS = 18"
  by (simp add: PCI_CLASS_IDS_def)

lemma class_names_short: "m \<in> set PCI_CLASS_IDS \<Longrightarrow> length m < 4294967296"
  by (auto simp: PCI_CLASS_IDS_def lit_def)

lemma printf_device:
  assumes "vga_ok s" and "room_ok room" and "c < length PCI_CLASS_IDS"
  obtains t where "printf room (lit ''[pci] %x:%x - %s'' @ [CHAR_NL]) [Int_arg v, Int_arg d, Str_arg (PCI_CLASS_IDS ! c)] s = Inr t"
    and "vga_ok t" and "pci_devices t = pci_devices s" and "pci_devices_size t = pci_devices_size s"
proof (rule vprintf_returns [OF assms(1,2), of "[Text (lit ''[pci] ''), Hex_conv v, Text (lit '':''), Hex_conv d, Text (lit '' - ''), Str_conv (PCI_CLASS_IDS ! c), Text [CHAR_NL]]"])
  show "list_all item_ok [Text (lit ''[pci] ''), Hex_conv v, Text (lit '':''), Hex_conv d, Text (lit '' - ''), Str_conv (PCI_CLASS_IDS ! c), Text [CHAR_NL]]"
    using class_names_short [of "PCI_CLASS_IDS ! c"] assms(3) by (auto simp: lit_def CHAR_PERCENT_def CHAR_NL_def nth_mem)
qed (use that pci_more in \<open>auto simp: lit_def printf_def\<close>)

lemma scan_inv_log [simp]: "scan_inv config k (s\<lparr>io_writes := w\<rparr>) = scan_inv config k s"
  by (simp add: scan_inv_def)

text \<open>A function that answers is recorded while there is room.\<close>

lemma probe_present:
  fixes s :: "'a pci_state_scheme"
  assumes inv: "scan_inv config k s" and small: "unat (pci_devices_size s) < 16" and room: "room_ok room"
    and cm: "config_mechanism hw config" and known: "classes_known config" and pos: "scan_pos k = (b, sl, f)"
    and present: "vendor_of config (b, sl, f) \<noteq> 0xFFFF"
  shows "\<exists>t. probe_function room hw b sl f s = Inr (Next t) \<and> scan_inv config (Suc k) t"
proof -
  let ?p = "(b, sl, f)"
  define c where "c = unat (class_of config ?p)"
  have c: "c < length PCI_CLASS_IDS"
    using known present by (simp add: classes_known_def c_def word_less_nat_alt PCI_CLASS_IDS_length)
  let ?d = "\<lparr>vendor = ucast (vendor_of config ?p), device = ucast (device_of config ?p), func_no = ucast f\<rparr>"
  have d: "device_at config k = [?d]"
    using present pos by (simp add: device_at_def Let_def)
  obtain w1 where w1: "pci_get_vendor_id hw b sl f s = (vendor_of config ?p, s\<lparr>io_writes := w1\<rparr>)"
    using config_getters(1) [OF cm] by blast
  obtain w2 where w2: "pci_get_device_id hw b sl f (s\<lparr>io_writes := w1\<rparr>) = (device_of config ?p, s\<lparr>io_writes := w2\<rparr>)"
    using config_getters(2) [OF cm, of b sl f "s\<lparr>io_writes := w1\<rparr>"] by auto
  obtain w3 where w3: "pci_get_device_class_id hw b sl f (s\<lparr>io_writes := w2\<rparr>) = (class_of config ?p, s\<lparr>io_writes := w3\<rparr>)"
    using config_getters(3) [OF cm, of b sl f "s\<lparr>io_writes := w2\<rparr>"] by auto
  let ?s = "s\<lparr>io_writes := w3\<rparr>"
  obtain t where t: "printf room (lit ''[pci] %x:%x - %s'' @ [CHAR_NL])
        [Int_arg (ucast (vendor_of config ?p)), Int_arg (ucast (device_of config ?p)), Str_arg (PCI_CLASS_IDS ! c)] ?s = Inr t"
      "vga_ok t" "pci_devices t = pci_devices s" "pci_devices_size t = pci_devices_size s"
    using printf_device [of ?s, OF _ room c] inv by (auto simp: scan_inv_def)
  let ?t = "t\<lparr>pci_devices := (pci_devices s)[unat (pci_devices_size s) := ?d], pci_devices_size := pci_devices_size s + 1\<rparr>"
  have "probe_function room hw b sl f s = Inr (Next ?t)"
    using present c t small inv
    by (simp add: probe_function_def w1 w2 w3 c_def scan_inv_def word_less_nat_alt)
  moreover have "unat (pci_devices_size s + 1) = Suc (unat (pci_devices_size s))"
    using small unat_add_no_wrap [of "pci_devices_size s" 1] by simp
  moreover have "vga_ok ?t"
    using t(2) by (simp add: vga_ok_def vga_ready_def)
  ultimately show ?thesis
    using inv d small by (simp add: scan_inv_def devices_below_Suc take_Suc_conv_app_nth)
qed

lemma probe_function_ok:
  fixes s :: "'a pci_state_scheme"
  assumes inv: "scan_inv config k s" and k: "k < 65536" and room: "room_ok room" and cm: "config_mechanism hw config"
    and known: "classes_known config" and pos: "scan_pos k = (b, sl, f)"
  shows "(\<exists>t. probe_function room hw b sl f s = Inr (Next t) \<and> scan_inv config (Suc k) t) \<or>
    (\<exists>t. probe_function room hw b sl f s = Inr (Ret t) \<and> scan_done config t)"
proof (cases "pci_devices_size s > 15")
  case True
  then have "length (devices_below config k) = 16"
    using inv by (simp add: scan_inv_def word_less_nat_alt)
  moreover obtain zs where "devices_below config 65536 = devices_below config k @ zs"
    using devices_below_prefix [of k 65536] k by auto
  ultimately have "take 16 (devices_below config 65536) = devices_below config k"
    by simp
  moreover obtain t where "printf room (lit ''[pci] not adding above device... limit reached'' @ [CHAR_NL]) [] s = Inr t" "vga_ok t"
      "vga_state.more t = vga_state.more s"
    by (rule printf_text [of s room "lit ''[pci] not adding above device... limit reached'' @ [CHAR_NL]"])
      (use inv room in \<open>auto simp: scan_inv_def lit_def CHAR_PERCENT_def CHAR_NL_def\<close>)
  ultimately show ?thesis
    using True inv pci_more [of t s] by (auto simp: probe_function_def scan_inv_def scan_done_def)
next
  case small: False
  show ?thesis
  proof (cases "vendor_of config (b, sl, f) = 0xFFFF")
    case True
    then have "devices_below config (Suc k) = devices_below config k"
      using pos by (simp add: device_at_def devices_below_Suc)
    then have "scan_inv config (Suc k) s"
      using inv scan_inv_cong by blast
    moreover obtain w where "pci_get_vendor_id hw b sl f s = (vendor_of config (b, sl, f), s\<lparr>io_writes := w\<rparr>)"
      using config_getters(1) [OF cm] by blast
    then have "probe_function room hw b sl f s = Inr (Next (s\<lparr>io_writes := w\<rparr>))"
      using small True by (simp add: probe_function_def)
    ultimately show ?thesis
      by (metis scan_inv_log)
  next
    case False
    have "unat (pci_devices_size s) < 16"
      using small by (simp add: word_less_nat_alt not_less)
    then show ?thesis
      using probe_present [OF inv _ room cm known pos False] by blast
  qed
qed

text \<open>The three loops run through the functions in order.\<close>

lemma scan_arith:
  fixes b sl f :: nat
  assumes "sl < 32" and "f < 8"
  shows "((b * 32 + sl) * 8 + f) div 256 = b \<and> ((b * 32 + sl) * 8 + f) div 8 mod 32 = sl \<and> ((b * 32 + sl) * 8 + f) mod 8 = f"
proof -
  have d: "((b * 32 + sl) * 8 + f) div 8 = b * 32 + sl"
    using assms(2) by simp
  have "((b * 32 + sl) * 8 + f) div 256 = ((b * 32 + sl) * 8 + f) div 8 div 32"
    using div_mult2_eq [of "(b * 32 + sl) * 8 + f" 8 32] by simp
  also have "\<dots> = b"
    unfolding d using assms(1) by simp
  finally have "((b * 32 + sl) * 8 + f) div 256 = b" .
  moreover have "((b * 32 + sl) * 8 + f) div 8 mod 32 = sl"
    unfolding d using assms(1) by simp
  moreover have "((b * 32 + sl) * 8 + f) mod 8 = f"
    using assms(2) by (metis mod_less mod_mult_self3)
  ultimately show ?thesis
    by blast
qed

lemma scan_pos_eq:
  assumes "unat bus < 256" and "unat slot < 32" and "unat fn < 8"
  shows "scan_pos ((unat bus * 32 + unat slot) * 8 + unat fn) = (ucast bus, ucast slot, ucast fn)"
proof -
  let ?k = "(unat bus * 32 + unat slot) * 8 + unat fn"
  have "?k div 256 = unat bus" "?k div 8 mod 32 = unat slot" "?k mod 8 = unat fn"
    using assms scan_arith [of "unat slot" "unat fn" "unat bus"] by blast+
  then show ?thesis
    by (simp add: scan_pos_def)
qed

lemma probe_slot_ok:
  fixes s :: "'a pci_state_scheme"
  assumes "unat bus < 256" and "unat slot < 32" and "room_ok room" and "config_mechanism hw config" and "classes_known config"
    and "scan_inv config ((unat bus * 32 + unat slot) * 8) s"
  shows "(\<exists>t. for_ret 0 8 (\<lambda>fn. probe_function room hw (ucast bus) (ucast slot) (ucast fn)) s = Inr (Next t) \<and>
      scan_inv config ((unat bus * 32 + unat slot) * 8 + unat (8 :: u32)) t) \<or>
    (\<exists>t. for_ret 0 8 (\<lambda>fn. probe_function room hw (ucast bus) (ucast slot) (ucast fn)) s = Inr (Ret t) \<and> scan_done config t)"
proof (rule for_ret_rule [where I = "\<lambda>fn. scan_inv config ((unat bus * 32 + unat slot) * 8 + unat fn)"])
  fix fn :: u32 and t :: "'a pci_state_scheme"
  assume f: "fn < 8" and inv: "scan_inv config ((unat bus * 32 + unat slot) * 8 + unat fn) t"
  have "unat fn < 8"
    using f by (simp add: word_less_nat_alt)
  then have "(unat bus * 32 + unat slot) * 8 + unat fn < 65536" "scan_pos ((unat bus * 32 + unat slot) * 8 + unat fn) = (ucast bus, ucast slot, ucast fn)"
    using assms(1,2) scan_pos_eq by simp_all
  then show "(\<exists>s'. probe_function room hw (ucast bus) (ucast slot) (ucast fn) t = Inr (Next s') \<and>
       scan_inv config ((unat bus * 32 + unat slot) * 8 + unat (fn + 1)) s') \<or>
      (\<exists>r. probe_function room hw (ucast bus) (ucast slot) (ucast fn) t = Inr (Ret r) \<and> scan_done config r)"
    using probe_function_ok [OF inv _ assms(3-5)] unat_suc_less [OF f] by simp
qed (use assms in simp_all)

lemma probe_bus_ok:
  fixes s :: "'a pci_state_scheme"
  assumes "unat bus < 256" and "room_ok room" and "config_mechanism hw config" and "classes_known config" and "scan_inv config (unat bus * 256) s"
  shows "(\<exists>t. for_ret 0 32 (\<lambda>slot. for_ret 0 8 (\<lambda>fn. probe_function room hw (ucast bus) (ucast slot) (ucast fn))) s = Inr (Next t) \<and>
      scan_inv config ((unat bus * 32 + unat (32 :: u32)) * 8) t) \<or>
    (\<exists>t. for_ret 0 32 (\<lambda>slot. for_ret 0 8 (\<lambda>fn. probe_function room hw (ucast bus) (ucast slot) (ucast fn))) s = Inr (Ret t) \<and> scan_done config t)"
proof (rule for_ret_rule [where I = "\<lambda>slot. scan_inv config ((unat bus * 32 + unat slot) * 8)"])
  fix slot :: u32 and t :: "'a pci_state_scheme"
  assume sl: "slot < 32" and inv: "scan_inv config ((unat bus * 32 + unat slot) * 8) t"
  have "unat slot < 32"
    using sl by (simp add: word_less_nat_alt)
  moreover have next_pos: "(unat bus * 32 + unat (slot + 1)) * 8 = (unat bus * 32 + unat slot) * 8 + unat (8 :: u32)"
    using unat_suc_less [OF sl] by simp
  ultimately show "(\<exists>s'. for_ret 0 8 (\<lambda>fn. probe_function room hw (ucast bus) (ucast slot) (ucast fn)) t = Inr (Next s') \<and>
       scan_inv config ((unat bus * 32 + unat (slot + 1)) * 8) s') \<or>
      (\<exists>r. for_ret 0 8 (\<lambda>fn. probe_function room hw (ucast bus) (ucast slot) (ucast fn)) t = Inr (Ret r) \<and> scan_done config r)"
    unfolding next_pos using probe_slot_ok [OF assms(1) _ assms(2-4) inv] by blast
qed (use assms in \<open>simp_all add: mult.commute\<close>)

section \<open>Properties\<close>


text \<open>A bus on which every function answers as a network controller.\<close>

definition sample_config :: "u32 \<Rightarrow> u32" where
  "sample_config _ = 0x02008086"

text \<open>The data port answers for the address in the last write to the address port.\<close>

definition sample_hardware :: io_hardware where
  "sample_hardware log port =
     (case filter (\<lambda>(p, _). p = 0xCF8) (rev log) of
        (_, Dword a) # _ \<Rightarrow> if port = 0xCFC then sample_config a else 0
      | _ \<Rightarrow> 0)"

definition sample_pci :: pci_state where
  "sample_pci = io_state.extend (vga_state.extend sample_vga (io_state.fields []))
     (pci_state.fields (replicate 16 \<lparr>vendor = 0, device = 0, func_no = 0\<rparr>) 0)"

lemma sample_config_reads: "vendor_of sample_config p = 0x8086" "class_of sample_config p = 2"
  by (cases p; simp add: vendor_of_def class_of_def config_word_def sample_config_def)+


end
