(* ===== verification/Tss.thy ===== *)
theory Tss
  imports Descriptors
begin

text \<open>
  The task state segment, \<^verbatim>\<open>kernel/arch/i386/descriptors/tss.c\<close>, which nothing calls yet.
\<close>

section \<open>State and operations\<close>

record tss =
  tss_back_link :: u16
  tss_esp0 :: uintptr_t
  tss_ss0 :: u16
  tss_esp1 :: uintptr_t
  tss_ss1 :: u16
  tss_esp2 :: uintptr_t
  tss_ss2 :: u16
  tss_cr3 :: u32
  tss_eip :: code_ptr
  tss_eflags :: u32
  tss_eax :: u32
  tss_ecx :: u32
  tss_edx :: u32
  tss_ebx :: u32
  tss_esp :: u32
  tss_ebp :: u32
  tss_esi :: u32
  tss_edi :: u32
  tss_es :: u16
  tss_cs :: u16
  tss_ss :: u16
  tss_ds :: u16
  tss_fs :: u16
  tss_gs :: u16
  tss_ldt :: u16
  tss_trace :: u16
  tss_bitmap :: u16

text \<open>The pointer \<open>tss\<close>, NULL at the start, and the segments that exist in memory.\<close>

record tss_state =
  tss_ptr :: uintptr_t
  tss_at :: "uintptr_t \<rightharpoonup> tss"

definition tss_install :: "tss_state \<Rightarrow> tss_state res" where
  "tss_install s =
     (case tss_at s (tss_ptr s) of
        None \<Rightarrow> Inl Wild_access
      | Some t \<Rightarrow> Inr (s\<lparr>tss_at := (tss_at s)(tss_ptr s \<mapsto> t\<lparr>tss_ss0 := 0x08\<rparr>)\<rparr>))"

definition tss_return :: "tss_state \<Rightarrow> uintptr_t" where
  "tss_return s = tss_ptr s"

section \<open>Properties\<close>

text \<open>As long as nothing sets the pointer, installing writes through NULL.\<close>

lemma tss_install_unset:
  "tss_return s = 0 \<Longrightarrow> tss_at s 0 = None \<Longrightarrow> tss_install s = Inl Wild_access"
  by (simp add: tss_install_def tss_return_def)

text \<open>Bit 3 of the access byte tells a code segment from a data segment.\<close>

definition code_segment :: "gdt_entry \<Rightarrow> bool" where
  "code_segment e \<longleftrightarrow> bit (access e) 3"

text \<open>
  The stack segment that \<open>tss_install\<close> stores for ring 0 is, in the table \<open>gdt_install\<close> fills, the kernel's code
  segment and not its data segment, which is the next one.
\<close>

lemma tss_stack_segment_is_code:
  assumes "tss_at s (tss_return s) = Some t" and "length (gdt c) = 5"
  shows "\<exists>s' t' c'. tss_install s = Inr s' \<and> tss_at s' (tss_return s') = Some t' \<and> gdt_install a c = Inr c' \<and>
     code_segment (gdt c' ! (unat (tss_ss0 t') div 8)) \<and> \<not> code_segment (gdt c' ! (unat (tss_ss0 t') div 8 + 1))"
proof -
  obtain c' where c': "gdt_install a c = Inr c'" "map access (gdt c') = [0, 0x9A, 0x92, 0xFA, 0xF2]"
    using gdt_install_ok [OF assms(2), of a] by (elim exE conjE) (rule that)
  have "length (gdt c') = 5"
    using arg_cong [OF c'(2), of length] by simp
  then have "access (gdt c' ! 1) = 0x9A" "access (gdt c' ! 2) = 0x92"
    using arg_cong [OF c'(2), of "\<lambda>xs. xs ! 1"] arg_cong [OF c'(2), of "\<lambda>xs. xs ! 2"] by simp_all
  then have "code_segment (gdt c' ! 1)" "\<not> code_segment (gdt c' ! 2)"
    by (simp_all add: code_segment_def)
  then show ?thesis
    using assms(1) c'(1) by (simp add: tss_install_def tss_return_def flip: numeral_2_eq_2)
qed


end
